(* ===== verification/Prelude.thy ===== *)
theory Prelude
  imports Main "HOL-Library.Word"
begin

text \<open>
  What every theory of the development shares: the names of the model's base types, the
  collections the components' proofs draw on, and the generic facts about lists, sums and
  words that several components need.
\<close>

section \<open>Base types\<close>

text \<open>
  A Go string is a sequence of bytes, which is what \<open>string\<close> is here: a \<open>char\<close> holds
  one of 256 values.  An \<open>int64\<close> keeps its width.  A uuid is 128 bits.
\<close>

type_synonym gostr = string
type_synonym int64 = "64 word"
type_synonym uuid = "128 word"

section \<open>Collections\<close>

named_theorems via_intros \<open>an operation touches the session through statements only\<close>
named_theorems wp \<open>rules for triples over session actions\<close>
named_theorems tree_simps \<open>reading error trees\<close>

section \<open>Lists\<close>

lemma filter_id_conv_all: "(\<And>x. x \<in> set xs \<Longrightarrow> P x) \<Longrightarrow> filter P xs = xs"
  by (simp add: filter_id_conv)

lemma sum_list_map_filter_split:
  fixes f :: "'a \<Rightarrow> 'b::comm_monoid_add"
  shows "sum_list (map f xs) = sum_list (map f (filter P xs)) + sum_list (map f (filter (\<lambda>x. \<not> P x) xs))"
  by (induction xs) (simp_all add: ac_simps)

lemma find_Some_iff_unique:
  assumes "x \<in> set xs" and "P x" and "\<And>y. y \<in> set xs \<Longrightarrow> P y \<Longrightarrow> y = x"
  shows "List.find P xs = Some x"
proof (cases "List.find P xs")
  case None
  with assms(1,2) show ?thesis by (simp add: find_None_iff)
next
  case (Some y)
  then have "y \<in> set xs" and "P y" by (auto simp: find_Some_iff)
  with assms(3) Some show ?thesis by simp
qed

lemma find_SomeD: "List.find P xs = Some x \<Longrightarrow> x \<in> set xs \<and> P x"
  by (auto simp: find_Some_iff)

lemma find_append: "List.find P (xs @ ys) = (case List.find P xs of None \<Rightarrow> List.find P ys | Some x \<Rightarrow> Some x)"
  by (induction xs) auto

lemma find_map_inj_key:
  assumes "distinct (map k xs)" and "x \<in> set xs"
  shows "List.find (\<lambda>y. k y = k x) xs = Some x"
  using assms by (induction xs) auto

section \<open>Sorting by a comparison\<close>

text \<open>
  \<^verbatim>\<open>ORDER BY\<close> under a collation: the order is the database's, so it is an argument.
\<close>

fun insert_by :: "('a \<Rightarrow> 'a \<Rightarrow> bool) \<Rightarrow> 'a \<Rightarrow> 'a list \<Rightarrow> 'a list" where
  "insert_by le x [] = [x]"
| "insert_by le x (y # ys) = (if le x y then x # y # ys else y # insert_by le x ys)"

fun sort_by :: "('a \<Rightarrow> 'a \<Rightarrow> bool) \<Rightarrow> 'a list \<Rightarrow> 'a list" where
  "sort_by le [] = []"
| "sort_by le (x # xs) = insert_by le x (sort_by le xs)"

lemma set_insert_by [simp]: "set (insert_by le x xs) = insert x (set xs)"
  by (induction xs) auto

lemma set_sort_by [simp]: "set (sort_by le xs) = set xs"
  by (induction xs) auto

lemma length_insert_by [simp]: "length (insert_by le x xs) = Suc (length xs)"
  by (induction xs) auto

lemma length_sort_by [simp]: "length (sort_by le xs) = length xs"
  by (induction xs) auto

lemma distinct_insert_by: "distinct (insert_by le x xs) \<longleftrightarrow> x \<notin> set xs \<and> distinct xs"
  by (induction xs) auto

lemma distinct_sort_by [simp]: "distinct (sort_by le xs) \<longleftrightarrow> distinct xs"
  by (induction xs) (auto simp: distinct_insert_by)

lemma distinct_map_insert_by:
  "distinct (map f (insert_by le x xs)) \<longleftrightarrow> f x \<notin> f ` set xs \<and> distinct (map f xs)"
  by (induction xs) auto

lemma distinct_map_sort_by [simp]: "distinct (map f (sort_by le xs)) \<longleftrightarrow> distinct (map f xs)"
  by (induction xs) (auto simp: distinct_map_insert_by)

text \<open>A collation, as far as the code relies on it: a linear order.\<close>

definition linear_le :: "('a \<Rightarrow> 'a \<Rightarrow> bool) \<Rightarrow> bool" where
  "linear_le le \<longleftrightarrow>
     (\<forall>x y. le x y \<or> le y x) \<and>
     (\<forall>x y z. le x y \<longrightarrow> le y z \<longrightarrow> le x z) \<and>
     (\<forall>x y. le x y \<longrightarrow> le y x \<longrightarrow> x = y)"

lemma linear_le_total: "linear_le le \<Longrightarrow> le x y \<or> le y x"
  and linear_le_trans: "linear_le le \<Longrightarrow> le x y \<Longrightarrow> le y z \<Longrightarrow> le x z"
  and linear_le_antisym: "linear_le le \<Longrightarrow> le x y \<Longrightarrow> le y x \<Longrightarrow> x = y"
  and linear_le_refl: "linear_le le \<Longrightarrow> le x x"
  unfolding linear_le_def by blast+

lemma sorted_wrt_insert_by:
  assumes "linear_le le" and "sorted_wrt (\<lambda>a b. le (k a) (k b)) xs"
  shows "sorted_wrt (\<lambda>a b. le (k a) (k b)) (insert_by (\<lambda>a b. le (k a) (k b)) x xs)"
  using assms(2)
proof (induction xs)
  case Nil
  then show ?case by simp
next
  case (Cons y ys)
  then show ?case
    using linear_le_trans [OF assms(1)] linear_le_total [OF assms(1), of "k x" "k y"]
    by auto
qed

lemma sorted_wrt_sort_by:
  assumes "linear_le le"
  shows "sorted_wrt (\<lambda>a b. le (k a) (k b)) (sort_by (\<lambda>a b. le (k a) (k b)) xs)"
  by (induction xs) (simp_all add: sorted_wrt_insert_by [OF assms])

text \<open>The order bytes are compared in: the collation a database made with \<open>C\<close> has.\<close>

fun bytes_le :: "gostr \<Rightarrow> gostr \<Rightarrow> bool" where
  "bytes_le [] _ = True"
| "bytes_le (_ # _) [] = False"
| "bytes_le (x # xs) (y # ys) =
     (of_char x < (of_char y :: nat) \<or> x = y \<and> bytes_le xs ys)"

lemma bytes_le_refl: "bytes_le x x"
  by (induction x) auto

lemma bytes_le_total: "bytes_le x y \<or> bytes_le y x"
proof (induction x y rule: bytes_le.induct)
  case (3 x xs y ys)
  have "x = y" if "\<not> of_char x < (of_char y :: nat)" "\<not> of_char y < (of_char x :: nat)"
    using that by (metis linorder_neqE_nat of_char_eq_iff)
  with 3 show ?case by auto
qed auto

lemma bytes_le_trans: "bytes_le x y \<Longrightarrow> bytes_le y z \<Longrightarrow> bytes_le x z"
proof (induction x y arbitrary: z rule: bytes_le.induct)
  case (3 x xs y ys)
  then show ?case by (cases z) auto
qed auto

lemma bytes_le_antisym: "bytes_le x y \<Longrightarrow> bytes_le y x \<Longrightarrow> x = y"
proof (induction x y rule: bytes_le.induct)
  case (1 y)
  then show ?case by (cases y) auto
qed (auto dest: less_asym)

lemma linear_bytes_le: "linear_le bytes_le"
  unfolding linear_le_def
  using bytes_le_total bytes_le_trans bytes_le_antisym by blast

end
