(* ===== verification/GoText.thy ===== *)
theory GoText
  imports Prelude
begin

text \<open>
  The text the program handles: how Go reads the runes of a string
  (\<^verbatim>\<open>unicode/utf8\<close>, and the conversions between \<^verbatim>\<open>string\<close> and \<^verbatim>\<open>[]rune\<close>), how it
  writes a number (\<^verbatim>\<open>strconv\<close>), and the three helpers the ledger's messages are built with:
  \<open>shown\<close>, \<open>count_of\<close> and \<open>postings_of\<close>.
\<close>

section \<open>UTF-8 as Go reads it\<close>

text \<open>
  The first byte of a sequence of more than one byte gives its length and the range the
  second byte must lie in; every later byte lies in 128..191.
\<close>

definition lead :: "nat \<Rightarrow> (nat \<times> nat \<times> nat) option" where
  "lead b =
     (if 194 \<le> b \<and> b \<le> 223 then Some (2, 128, 191)
      else if b = 224 then Some (3, 160, 191)
      else if b = 237 then Some (3, 128, 159)
      else if 225 \<le> b \<and> b \<le> 239 then Some (3, 128, 191)
      else if b = 240 then Some (4, 144, 191)
      else if 241 \<le> b \<and> b \<le> 243 then Some (4, 128, 191)
      else if b = 244 then Some (4, 128, 143)
      else None)"

definition within :: "nat \<Rightarrow> nat \<Rightarrow> nat \<Rightarrow> bool" where
  "within lo hi b \<longleftrightarrow> lo \<le> b \<and> b \<le> hi"

definition rune_error :: nat where
  "rune_error = 65533"

text \<open>
  \<^verbatim>\<open>utf8.DecodeRune\<close> on a non-empty sequence: the rune, how many bytes it took, and whether
  the bytes were well formed.  A malformed byte is one \<open>rune_error\<close> of width one.
\<close>

definition decode_rune :: "nat \<Rightarrow> nat list \<Rightarrow> nat \<times> nat \<times> bool" where
  "decode_rune b0 rest =
     (if b0 < 128 then (b0, 1, True)
      else case lead b0 of
        None \<Rightarrow> (rune_error, 1, False)
      | Some (n, lo, hi) \<Rightarrow>
          if n = 2 then
            (case rest of
               b1 # _ \<Rightarrow>
                 if within lo hi b1 then (b0 mod 32 * 64 + b1 mod 64, 2, True)
                 else (rune_error, 1, False)
             | _ \<Rightarrow> (rune_error, 1, False))
          else if n = 3 then
            (case rest of
               b1 # b2 # _ \<Rightarrow>
                 if within lo hi b1 \<and> within 128 191 b2
                 then (b0 mod 16 * 4096 + b1 mod 64 * 64 + b2 mod 64, 3, True)
                 else (rune_error, 1, False)
             | _ \<Rightarrow> (rune_error, 1, False))
          else
            (case rest of
               b1 # b2 # b3 # _ \<Rightarrow>
                 if within lo hi b1 \<and> within 128 191 b2 \<and> within 128 191 b3
                 then (b0 mod 8 * 262144 + b1 mod 64 * 4096 + b2 mod 64 * 64 + b3 mod 64, 4, True)
                 else (rune_error, 1, False)
             | _ \<Rightarrow> (rune_error, 1, False)))"

fun decode_runes :: "nat list \<Rightarrow> (nat \<times> bool) list" where
  "decode_runes [] = []"
| "decode_runes (b # bs) =
     (case decode_rune b bs of (r, n, ok) \<Rightarrow> (r, ok) # decode_runes (drop (n - 1) bs))"

definition byte_list :: "gostr \<Rightarrow> nat list" where
  "byte_list s = map of_char s"

text \<open>\<^verbatim>\<open>[]rune(s)\<close>, and \<^verbatim>\<open>utf8.ValidString\<close>.\<close>

definition runes :: "gostr \<Rightarrow> nat list" where
  "runes s = map fst (decode_runes (byte_list s))"

definition rune_count :: "gostr \<Rightarrow> nat" where
  "rune_count s = length (runes s)"

definition valid_utf8 :: "gostr \<Rightarrow> bool" where
  "valid_utf8 s = list_all snd (decode_runes (byte_list s))"

text \<open>Text of ASCII bytes only is its own sequence of runes.\<close>

lemma decode_ascii: "list_all (\<lambda>b. b < 128) bs \<Longrightarrow> decode_runes bs = map (\<lambda>b. (b, True)) bs"
  by (induction bs) (auto simp: decode_rune_def)

lemma ascii_valid: "list_all (\<lambda>b. b < 128) (byte_list s) \<Longrightarrow> valid_utf8 s"
  by (simp add: valid_utf8_def decode_ascii list_all_iff)

lemma ascii_runes: "list_all (\<lambda>b. b < 128) (byte_list s) \<Longrightarrow> runes s = byte_list s"
  by (simp add: runes_def decode_ascii comp_def)

text \<open>A Unicode scalar value, and its encoding; what is not one is written as the error rune.\<close>

definition scalar :: "nat \<Rightarrow> bool" where
  "scalar r \<longleftrightarrow> r < 55296 \<or> 57344 \<le> r \<and> r \<le> 1114111"

definition encode_rune :: "nat \<Rightarrow> nat list" where
  "encode_rune r0 =
     (let r = (if scalar r0 then r0 else rune_error) in
      if r < 128 then [r]
      else if r < 2048 then [192 + r div 64, 128 + r mod 64]
      else if r < 65536 then [224 + r div 4096, 128 + r div 64 mod 64, 128 + r mod 64]
      else [240 + r div 262144, 128 + r div 4096 mod 64, 128 + r div 64 mod 64, 128 + r mod 64])"

text \<open>\<^verbatim>\<open>string([]rune)\<close>.\<close>

definition of_runes :: "nat list \<Rightarrow> gostr" where
  "of_runes rs = map char_of (concat (map encode_rune rs))"

subsection \<open>Encoding and decoding undo each other\<close>

text \<open>The digits of a number to the base 64, from the least significant.\<close>

lemma base64_digits:
  fixes r :: nat
  obtains q0 q1 q2 d0 d1 d2 where
    "r = 64 * q0 + d0" "q0 = 64 * q1 + d1" "q1 = 64 * q2 + d2" "d0 < 64" "d1 < 64" "d2 < 64"
    "r mod 64 = d0" "r div 64 = q0" "q0 mod 64 = d1" "r div 4096 = q1"
    "q1 mod 64 = d2" "r div 262144 = q2"
proof -
  have "r div 4096 = r div 64 div 64" and "r div 262144 = r div 64 div 64 div 64"
    by (simp_all add: div_mult2_eq [symmetric])
  then show ?thesis
    by (intro that [of "r div 64" "r mod 64" "r div 64 div 64" "r div 64 mod 64"
          "r div 64 div 64 div 64" "r div 64 div 64 mod 64"]) simp_all
qed

lemma mod_small_sum: "x < m \<Longrightarrow> (k * m + x) mod m = (x :: nat)"
  by simp

lemma decode_encode_rune:
  assumes "scalar r"
  shows "\<exists>b bs. encode_rune r = b # bs \<and>
           decode_rune b (bs @ rest) = (r, Suc (length bs), True)"
proof -
  obtain q0 q1 q2 d0 d1 d2 where q: "r = 64 * q0 + d0" "q0 = 64 * q1 + d1" "q1 = 64 * q2 + d2"
    and d: "d0 < 64" "d1 < 64" "d2 < 64"
    and r: "r mod 64 = d0" "r div 64 = q0" "q0 mod 64 = d1" "r div 4096 = q1"
      "q1 mod 64 = d2" "r div 262144 = q2"
    by (rule base64_digits)
  have cont: "(128 + x) mod 64 = x" "within 128 191 (128 + x)" if "x < 64" for x
    using that mod_small_sum [of x 64 2] by (simp_all add: within_def)
  consider "r < 128" | "128 \<le> r" "r < 2048" | "2048 \<le> r" "r < 65536" | "65536 \<le> r" "r \<le> 1114111"
    using assms unfolding scalar_def by linarith
  then show ?thesis
  proof cases
    case 1
    then show ?thesis using assms by (simp add: encode_rune_def decode_rune_def)
  next
    case 2
    have e: "encode_rune r = [192 + q0, 128 + d0]"
      using 2 assms by (simp add: encode_rune_def r)
    have "q0 < 32" "2 \<le> q0" using 2 q d by linarith+
    then have "lead (192 + q0) = Some (2, 128, 191)" and "(192 + q0) mod 32 = q0"
      using mod_small_sum [of q0 32 6] by (simp_all add: lead_def)
    moreover have "q0 * 64 + d0 = r" using q by linarith
    ultimately show ?thesis using cont [OF d(1)] by (simp add: e decode_rune_def)
  next
    case 3
    have e: "encode_rune r = [224 + q1, 128 + d1, 128 + d0]"
      using 3 assms by (simp add: encode_rune_def r)
    have q1: "q1 < 16" using 3 q d by linarith
    have m: "(224 + q1) mod 16 = q1" using mod_small_sum [OF q1, of 14] by simp
    obtain lo hi where l: "lead (224 + q1) = Some (3, lo, hi)" and w: "within lo hi (128 + d1)"
    proof (cases "q1 = 0 \<or> q1 = 13")
      case False
      with q1 that [of 128 191] cont [OF d(2)] show ?thesis by (simp add: lead_def)
    next
      case True
      then have "q1 = 0 \<and> 32 \<le> d1 \<or> q1 = 13 \<and> d1 \<le> 31"
        using 3 q d assms unfolding scalar_def by linarith
      with that [of 160 191] that [of 128 159] d show ?thesis by (auto simp: lead_def within_def)
    qed
    have "q1 * 4096 + d1 * 64 + d0 = r" using q by linarith
    then show ?thesis using cont [OF d(1)] cont [OF d(2)] m l w q1 by (simp add: e decode_rune_def)
  next
    case 4
    have e: "encode_rune r = [240 + q2, 128 + d2, 128 + d1, 128 + d0]"
      using 4 assms by (simp add: encode_rune_def r)
    have q2: "q2 \<le> 4" using 4 q d by linarith
    have m: "(240 + q2) mod 8 = q2" using mod_small_sum [of q2 8 30] q2 by simp
    obtain lo hi where l: "lead (240 + q2) = Some (4, lo, hi)" and w: "within lo hi (128 + d2)"
    proof (cases "q2 = 0 \<or> q2 = 4")
      case False
      with q2 that [of 128 191] cont [OF d(3)] show ?thesis by (simp add: lead_def)
    next
      case True
      then have "q2 = 0 \<and> 16 \<le> d2 \<or> q2 = 4 \<and> d2 \<le> 15" using 4 q d by linarith
      with that [of 144 191] that [of 128 143] d show ?thesis by (auto simp: lead_def within_def)
    qed
    have "q2 * 262144 + d2 * 4096 + d1 * 64 + d0 = r" using q by linarith
    then show ?thesis using cont [OF d(1)] cont [OF d(2)] cont [OF d(3)] m l w q2
      by (simp add: e decode_rune_def)
  qed
qed

lemma decode_encode_runes:
  assumes "list_all scalar rs"
  shows "decode_runes (concat (map encode_rune rs)) = map (\<lambda>r. (r, True)) rs"
  using assms
proof (induction rs)
  case Nil
  then show ?case by simp
next
  case (Cons r rs)
  let ?rest = "concat (map encode_rune rs)"
  from Cons.prems obtain b bs
    where e: "encode_rune r = b # bs" and d: "decode_rune b (bs @ ?rest) = (r, Suc (length bs), True)"
    using decode_encode_rune [of r ?rest] by auto
  from Cons show ?case by (simp add: e d)
qed

lemma encode_rune_bytes:
  assumes "b \<in> set (encode_rune r0)"
  shows "b < 256"
proof -
  define r where "r = (if scalar r0 then r0 else rune_error)"
  have top: "r \<le> 1114111" by (simp add: r_def scalar_def rune_error_def)
  obtain q0 q1 q2 d0 d1 d2 where q: "r = 64 * q0 + d0" "q0 = 64 * q1 + d1" "q1 = 64 * q2 + d2"
    and d: "d0 < 64" "d1 < 64" "d2 < 64"
    and r: "r mod 64 = d0" "r div 64 = q0" "q0 mod 64 = d1" "r div 4096 = q1"
      "q1 mod 64 = d2" "r div 262144 = q2"
    by (rule base64_digits)
  have "r < 128 \<and> b = r \<or> r < 2048 \<and> b = 192 + q0 \<or> r < 65536 \<and> b = 224 + q1 \<or> b = 240 + q2 \<or>
        b = 128 + d2 \<or> b = 128 + d1 \<or> b = 128 + d0"
    using assms unfolding encode_rune_def r_def [symmetric] Let_def r
    by (simp split: if_split_asm) blast+
  with q d top show ?thesis by auto
qed

lemma byte_list_of_runes: "byte_list (of_runes rs) = concat (map encode_rune rs)"
proof -
  have "map (of_char \<circ> (char_of :: nat \<Rightarrow> char)) xs = xs" if "\<forall>x \<in> set xs. x < (256::nat)" for xs
    using that by (induction xs) (simp_all add: of_char_mod_256 take_bit_eq_mod)
  moreover have "\<forall>x \<in> set (concat (map encode_rune rs)). x < 256"
    by (auto dest: encode_rune_bytes)
  ultimately show ?thesis by (simp add: byte_list_def of_runes_def)
qed

theorem runes_of_runes:
  assumes "list_all scalar rs"
  shows "runes (of_runes rs) = rs" and "valid_utf8 (of_runes rs)"
  using assms
  by (simp_all add: runes_def valid_utf8_def byte_list_of_runes decode_encode_runes comp_def list_all_iff)

text \<open>Decoding only ever yields scalars, whatever the bytes were.\<close>

lemma scalar_error [simp]: "scalar rune_error"
  by (simp add: scalar_def rune_error_def)

lemma mod_above: "k * m \<le> b \<Longrightarrow> b < k * m + m \<Longrightarrow> b mod m = b - k * (m :: nat)"
  using mod_small_sum [of "b - k * m" m k] by simp

lemma cont_mod: "128 \<le> b \<Longrightarrow> b \<le> 191 \<Longrightarrow> b mod 64 = b - (128 :: nat)"
  using mod_above [of 2 64 b] by simp

lemma scalar_two:
  assumes "lead b0 = Some (2, lo, hi)"
  shows "scalar (b0 mod 32 * 64 + b1 mod 64)"
proof -
  have "b0 mod 32 < 32" and "b1 mod 64 < 64" by simp_all
  then show ?thesis unfolding scalar_def by linarith
qed

lemma scalar_three:
  assumes "lead b0 = Some (3, lo, hi)" and "within lo hi b1"
  shows "scalar (b0 mod 16 * 4096 + b1 mod 64 * 64 + b2 mod 64)"
proof -
  have b: "b0 mod 16 < 16" "b1 mod 64 < 64" "b2 mod 64 < 64" by simp_all
  show ?thesis
  proof (cases "b0 mod 16 = 13")
    case False
    then have "b0 mod 16 \<le> 12 \<or> 14 \<le> b0 mod 16" by linarith
    with b show ?thesis unfolding scalar_def by linarith
  next
    case True
    moreover have "224 \<le> b0" "b0 \<le> 239" using assms(1) by (auto simp: lead_def split: if_splits)
    ultimately have "b0 = 237" using mod_above [of 14 16 b0] by simp
    with assms have "128 \<le> b1" "b1 \<le> 159" by (auto simp: lead_def within_def)
    then have "b1 mod 64 \<le> 31" using cont_mod [of b1] by simp
    with True b show ?thesis unfolding scalar_def by linarith
  qed
qed

lemma scalar_four:
  assumes "lead b0 = Some (4, lo, hi)" and "within lo hi b1"
  shows "scalar (b0 mod 8 * 262144 + b1 mod 64 * 4096 + b2 mod 64 * 64 + b3 mod 64)"
proof -
  have b: "b1 mod 64 < 64" "b2 mod 64 < 64" "b3 mod 64 < 64" by simp_all
  from assms(1) consider "b0 = 240" "lo = 144" "hi = 191" | "241 \<le> b0" "b0 \<le> 243" | "b0 = 244" "hi = 143"
    by (auto simp: lead_def split: if_splits)
  then show ?thesis
  proof cases
    case 1
    with assms(2) have "16 \<le> b1 mod 64" using cont_mod [of b1] by (auto simp: within_def)
    with 1 b show ?thesis unfolding scalar_def by simp
  next
    case 2
    then have "1 \<le> b0 mod 8" "b0 mod 8 \<le> 3" using mod_above [of 30 8 b0] by simp_all
    with b show ?thesis unfolding scalar_def by linarith
  next
    case 3
    with assms have "128 \<le> b1" "b1 \<le> 143" by (auto simp: lead_def within_def split: if_splits)
    then have "b1 mod 64 \<le> 15" using cont_mod [of b1] by simp
    with 3 b show ?thesis unfolding scalar_def by simp
  qed
qed

lemma lead_length: "lead b0 = Some (n, lo, hi) \<Longrightarrow> n = 2 \<or> n = 3 \<or> n = 4"
  by (auto simp: lead_def split: if_splits)

lemma decode_rune_scalar:
  assumes "decode_rune b bs = (r, n, ok)"
  shows "scalar r"
proof (cases "b < 128")
  case True
  with assms show ?thesis by (simp add: decode_rune_def scalar_def)
next
  case False
  show ?thesis
  proof (cases "lead b")
    case None
    with assms False show ?thesis by (auto simp: decode_rune_def)
  next
    case (Some p)
    obtain k lo hi where p: "lead b = Some (k, lo, hi)" using Some by (cases p) auto
    from lead_length [OF p] consider "k = 2" | "k = 3" | "k = 4" by blast
    then show ?thesis
    proof cases
      case 1
      with assms False p show ?thesis
        by (simp add: decode_rune_def split: list.split_asm if_split_asm)
           (use scalar_two p 1 in auto)
    next
      case 2
      with assms False p show ?thesis
        by (simp add: decode_rune_def split: list.split_asm if_split_asm)
           (use scalar_three p 2 in auto)
    next
      case 3
      with assms False p show ?thesis
        by (simp add: decode_rune_def split: list.split_asm if_split_asm)
           (use scalar_four p 3 in auto)
    qed
  qed
qed

lemma scalar_runes: "list_all scalar (runes s)"
proof -
  have "list_all (\<lambda>p. scalar (fst p)) (decode_runes bs)" for bs
    by (induction bs rule: decode_runes.induct)
       (auto split: prod.splits dest: decode_rune_scalar)
  then show ?thesis by (simp add: runes_def list_all_iff)
qed

text \<open>A rune below 128 is its own one byte: nothing longer decodes to it.\<close>

lemma decode_rune_big:
  assumes "decode_rune b bs = (r, n, ok)" and "\<not> b < 128"
  shows "128 \<le> r"
proof (cases "lead b")
  case None
  with assms show ?thesis by (auto simp: decode_rune_def rune_error_def)
next
  case (Some p)
  obtain k lo hi where p: "lead b = Some (k, lo, hi)" using Some by (cases p) auto
  have two: "128 \<le> b mod 32 * 64 + x" if "k = 2" for x
  proof -
    have "194 \<le> b" "b \<le> 223" using p that by (auto simp: lead_def split: if_splits)
    then have "2 \<le> b mod 32" using mod_above [of 6 32 b] by simp
    then show ?thesis by linarith
  qed
  have three: "128 \<le> b mod 16 * 4096 + b1 mod 64 * 64 + x" if "k = 3" "within lo hi b1" for b1 x
  proof (cases "b = 224")
    case True
    with p that have "160 \<le> b1" "b1 \<le> 191" by (auto simp: lead_def within_def)
    then have "32 \<le> b1 mod 64" using cont_mod [of b1] by simp
    then show ?thesis by linarith
  next
    case False
    with p that(1) have "225 \<le> b" "b \<le> 239" by (auto simp: lead_def split: if_splits)
    then have "1 \<le> b mod 16" using mod_above [of 14 16 b] by simp
    then show ?thesis by linarith
  qed
  have four: "128 \<le> b mod 8 * 262144 + b1 mod 64 * 4096 + x" if "k = 4" "within lo hi b1" for b1 x
  proof (cases "b = 240")
    case True
    with p that have "144 \<le> b1" "b1 \<le> 191" by (auto simp: lead_def within_def)
    then have "16 \<le> b1 mod 64" using cont_mod [of b1] by simp
    then show ?thesis by linarith
  next
    case False
    with p that(1) have "241 \<le> b" "b \<le> 244" by (auto simp: lead_def split: if_splits)
    then have "1 \<le> b mod 8" using mod_above [of 30 8 b] by simp
    then show ?thesis by linarith
  qed
  from lead_length [OF p] consider "k = 2" | "k = 3" | "k = 4" by blast
  then show ?thesis
  proof cases
    case 1
    with assms p two show ?thesis
      by (auto simp: decode_rune_def rune_error_def split: list.split_asm if_split_asm)
  next
    case 2
    with assms p show ?thesis
      by (simp add: decode_rune_def rune_error_def split: list.split_asm if_split_asm)
         (use three 2 in auto)
  next
    case 3
    with assms p show ?thesis
      by (simp add: decode_rune_def rune_error_def split: list.split_asm if_split_asm)
         (use four 3 in \<open>auto simp: add.assoc\<close>)
  qed
qed

lemma decode_runes_ascii:
  "list_all (\<lambda>p. fst p < 128) (decode_runes bs) \<Longrightarrow> list_all (\<lambda>b. b < 128) bs"
proof (induction bs rule: decode_runes.induct)
  case (2 b bs)
  obtain r n ok where d: "decode_rune b bs = (r, n, ok)" by (cases "decode_rune b bs") auto
  with 2(2) have "r < 128" by simp
  with decode_rune_big [OF d] have b: "b < 128" by linarith
  with d have "n = 1" by (simp add: decode_rune_def)
  with 2 d b show ?case by simp
qed simp

lemma runes_ascii: "list_all (\<lambda>r. r < 128) (runes s) \<Longrightarrow> list_all (\<lambda>b. b < 128) (byte_list s)"
  by (rule decode_runes_ascii) (simp add: runes_def list_all_iff)

section \<open>Numbers as text\<close>

text \<open>\<^verbatim>\<open>strconv.Itoa\<close>, \<^verbatim>\<open>strconv.FormatInt\<close> to the base ten and \<^verbatim>\<open>%d\<close>.\<close>

definition digit :: "nat \<Rightarrow> char" where
  "digit d = char_of (48 + d)"

fun digits :: "nat \<Rightarrow> gostr" where
  "digits n = (if n < 10 then [digit n] else digits (n div 10) @ [digit (n mod 10)])"

declare digits.simps [simp del]

definition itoa :: "int \<Rightarrow> gostr" where
  "itoa i = (if i < 0 then CHR ''-'' # digits (nat (- i)) else digits (nat i))"

definition digit_value :: "char \<Rightarrow> nat option" where
  "digit_value c = (if 48 \<le> (of_char c :: nat) \<and> (of_char c :: nat) \<le> 57 then Some (of_char c - 48) else None)"

text \<open>The value of a string of decimal digits; \<open>None\<close> when a byte is not one.\<close>

fun digits_value :: "nat \<Rightarrow> gostr \<Rightarrow> nat option" where
  "digits_value acc [] = Some acc"
| "digits_value acc (c # cs) =
     (case digit_value c of None \<Rightarrow> None | Some d \<Rightarrow> digits_value (10 * acc + d) cs)"

lemma digit_value_digit [simp]: "d < 10 \<Longrightarrow> digit_value (digit d) = Some d"
  by (simp add: digit_value_def digit_def)

lemma digits_nonempty [simp]: "digits n \<noteq> []"
  by (subst digits.simps) simp

lemma digits_are_digits: "c \<in> set (digits n) \<Longrightarrow> \<exists>d < 10. c = digit d"
proof (induction n rule: digits.induct)
  case (1 n)
  show ?case
  proof (cases "n < 10")
    case True
    with "1.prems" show ?thesis by (subst (asm) digits.simps) auto
  next
    case False
    with "1.prems" have "c \<in> set (digits (n div 10)) \<or> c = digit (n mod 10)"
      by (subst (asm) digits.simps) auto
    moreover have "n mod 10 < 10" by simp
    ultimately show ?thesis using "1.IH" [OF False] by blast
  qed
qed

lemma digits_value_append:
  "digits_value acc (xs @ ys) = (case digits_value acc xs of None \<Rightarrow> None | Some v \<Rightarrow> digits_value v ys)"
  by (induction xs arbitrary: acc) (auto split: option.splits)

lemma digits_value_digits: "digits_value 0 (digits n) = Some n"
proof (induction n rule: digits.induct)
  case (1 n)
  show ?case
  proof (cases "n < 10")
    case True
    then show ?thesis by (subst digits.simps) simp
  next
    case False
    with 1 show ?thesis by (subst digits.simps) (simp add: digits_value_append)
  qed
qed

lemma digit_value_sign [simp]: "digit_value CHR ''-'' = None" "digit_value CHR ''+'' = None"
  by (simp_all add: digit_value_def)

lemma hd_digits_not_sign: "hd (digits n) \<noteq> CHR ''-''" "hd (digits n) \<noteq> CHR ''+''"
proof -
  obtain d where "d < 10" and "hd (digits n) = digit d"
    using digits_are_digits [of "hd (digits n)" n] by auto
  then have "digit_value (hd (digits n)) = Some d" by simp
  then show "hd (digits n) \<noteq> CHR ''-''" "hd (digits n) \<noteq> CHR ''+''"
    by (metis digit_value_sign option.distinct(1))+
qed

section \<open>The helpers messages are built with\<close>

text \<open>
  \<open>shown\<close> trims a value a client chose to 80 runes and an ellipsis; \<open>count_of\<close> and
  \<open>postings_of\<close> pluralize.
\<close>

definition ellipsis :: gostr where
  "ellipsis = of_runes [8230]"

definition shown :: "gostr \<Rightarrow> gostr" where
  "shown s = (if rune_count s \<le> 80 then s else of_runes (take 80 (runes s)) @ ellipsis)"

definition count_of :: "int \<Rightarrow> gostr \<Rightarrow> gostr" where
  "count_of n thing = (if n = 1 then ''1 '' @ thing else itoa n @ '' '' @ thing @ ''s'')"

definition postings_of :: "int \<Rightarrow> gostr" where
  "postings_of n = count_of n ''posting''"

lemma of_runes_append: "of_runes (xs @ ys) = of_runes xs @ of_runes ys"
  by (simp add: of_runes_def)

lemma list_all_scalar_take: "list_all scalar (take n (runes s))"
  using scalar_runes [of s] by (auto simp: list_all_iff dest: in_set_takeD)

lemma shown_runes:
  "runes (shown s) = (if rune_count s \<le> 80 then runes s else take 80 (runes s) @ [8230])"
proof -
  have "list_all scalar (take 80 (runes s) @ [8230])"
    using list_all_scalar_take by (simp add: scalar_def)
  then show ?thesis
    by (simp add: shown_def ellipsis_def of_runes_append [symmetric] runes_of_runes)
qed

lemma shown_short: "rune_count (shown s) \<le> 81"
  unfolding rune_count_def shown_runes by (simp add: rune_count_def)

lemma shown_id: "rune_count s \<le> 80 \<Longrightarrow> shown s = s"
  by (simp add: shown_def)

section \<open>Taking strings apart\<close>

text \<open>\<^verbatim>\<open>strings.HasPrefix\<close>, \<^verbatim>\<open>TrimPrefix\<close>, \<^verbatim>\<open>TrimSuffix\<close> and \<^verbatim>\<open>Contains\<close>.\<close>

fun has_prefix :: "gostr \<Rightarrow> gostr \<Rightarrow> bool" where
  "has_prefix [] _ = True"
| "has_prefix (_ # _) [] = False"
| "has_prefix (p # ps) (c # cs) = (p = c \<and> has_prefix ps cs)"

definition trim_prefix :: "gostr \<Rightarrow> gostr \<Rightarrow> gostr" where
  "trim_prefix p s = (if has_prefix p s then drop (length p) s else s)"

definition trim_suffix :: "gostr \<Rightarrow> gostr \<Rightarrow> gostr" where
  "trim_suffix p s =
     (if has_prefix (rev p) (rev s) then take (length s - length p) s else s)"

fun contains :: "gostr \<Rightarrow> gostr \<Rightarrow> bool" where
  "contains p [] = has_prefix p []"
| "contains p (c # cs) = (has_prefix p (c # cs) \<or> contains p cs)"

lemma has_prefix_append [simp]: "has_prefix p (p @ s)"
  by (induction p) auto

lemma has_prefix_iff: "has_prefix p s \<longleftrightarrow> (\<exists>t. s = p @ t)"
  by (induction p s rule: has_prefix.induct) auto

lemma trim_prefix_append [simp]: "trim_prefix p (p @ s) = s"
  by (simp add: trim_prefix_def)

lemma trim_suffix_append [simp]: "trim_suffix p (s @ p) = s"
  by (simp add: trim_suffix_def)

lemma contains_iff: "contains p s \<longleftrightarrow> (\<exists>a b. s = a @ p @ b)"
proof (induction p s rule: contains.induct)
  case (1 p)
  then show ?case by (auto simp: has_prefix_iff)
next
  case (2 p c cs)
  have "(\<exists>a b. c # cs = a @ p @ b) \<longleftrightarrow> (\<exists>b. c # cs = p @ b) \<or> (\<exists>a b. cs = a @ p @ b)"
    by (metis append_Cons append_Nil list.sel(3) neq_Nil_conv)
  with 2 show ?case by (simp add: has_prefix_iff)
qed

end
