(* ===== verification/GoError.thy ===== *)
theory GoError
  imports GoText
begin

text \<open>
  Errors as Go has them: a tree of wrapped values, searched depth first by \<^verbatim>\<open>errors.Is\<close> and
  \<^verbatim>\<open>errors.As\<close>.  The sentinels and the two error types of \<^verbatim>\<open>internal/ledger\<close> are here, with
  the one of \<^verbatim>\<open>internal/ledgerhttp\<close>; the server's own refusal is a \<open>pg_error\<close>.
\<close>

section \<open>Values\<close>

text \<open>The sentinels the program tests for, its own and the standard library's.\<close>

datatype sentinel =
    ErrUnbalanced
  | ErrUnknownAccount
  | ErrCurrencyMismatch
  | ErrRejected
  | ErrUnknownTransaction
  | ErrBadTransactionID
  | ErrAccountExists
  | ErrUnknownKind
  | ErrKeyReused
  | ErrBadKey
  | ErrUsage
  | ErrNoRows
  | Canceled
  | DeadlineExceeded
  | ErrBadConn
  | ErrTxDone
  | ErrHelp
  | ErrServerClosed

fun sentinel_text :: "sentinel \<Rightarrow> gostr" where
  "sentinel_text ErrUnbalanced = ''transaction does not balance''"
| "sentinel_text ErrUnknownAccount = ''no such account''"
| "sentinel_text ErrCurrencyMismatch = ''account currency is not the transaction currency''"
| "sentinel_text ErrRejected = ''a rule in the schema refused it''"
| "sentinel_text ErrUnknownTransaction = ''no such transaction''"
| "sentinel_text ErrBadTransactionID = ''that is not a transaction id''"
| "sentinel_text ErrAccountExists = ''an account already holds that code''"
| "sentinel_text ErrUnknownKind = ''no such account kind''"
| "sentinel_text ErrKeyReused = ''the idempotency key was used for a different request''"
| "sentinel_text ErrBadKey = ''the ledger will not hold that idempotency key''"
| "sentinel_text ErrUsage = ''usage''"
| "sentinel_text ErrNoRows = ''sql: no rows in result set''"
| "sentinel_text Canceled = ''context canceled''"
| "sentinel_text DeadlineExceeded = ''context deadline exceeded''"
| "sentinel_text ErrBadConn = ''driver: bad connection''"
| "sentinel_text ErrTxDone = ''sql: transaction has already been committed or rolled back''"
| "sentinel_text ErrHelp = ''flag: help requested''"
| "sentinel_text ErrServerClosed = ''http: Server closed''"

text \<open>What \<^verbatim>\<open>pgconn.PgError\<close> carries of a refusal: the SQLSTATE, the message, and the names.\<close>

record pg_error =
  pg_code :: gostr
  pg_message :: gostr
  pg_table :: gostr
  pg_column :: gostr
  pg_constraint :: gostr

text \<open>The fields of a \<^verbatim>\<open>LegError\<close> beside the error it wraps.\<close>

record leg_fields =
  lf_index :: int
  lf_account :: gostr
  lf_amount :: int64
  lf_holds :: gostr

text \<open>
  \<open>Errorf\<close> keeps the pieces a \<^verbatim>\<open>fmt.Errorf\<close> was given: plain text, a value under \<^verbatim>\<open>%q\<close> and a
  cause under \<^verbatim>\<open>%w\<close>.  \<open>Joined\<close> is \<^verbatim>\<open>errors.Join\<close>.
\<close>

datatype err =
    Sentinel sentinel
  | PgErr pg_error
  | Errorf "part list"
  | Joined "err list"
  | LegErr leg_fields err
  | UnknownKindErr gostr "gostr list" "err option"
  | OverloadErr int
and part =
    Txt gostr
  | Quo gostr
  | Cause err

section \<open>Searching an error\<close>

text \<open>The errors in the order \<^verbatim>\<open>errors.Is\<close> and \<^verbatim>\<open>errors.As\<close> visit them.\<close>

primrec err_tree :: "err \<Rightarrow> err list" and part_tree :: "part \<Rightarrow> err list" where
  "err_tree (Sentinel s) = [Sentinel s]"
| "err_tree (PgErr p) = [PgErr p]"
| "err_tree (Errorf ps) = Errorf ps # concat (map part_tree ps)"
| "err_tree (Joined es) = Joined es # concat (map err_tree es)"
| "err_tree (LegErr f e) = LegErr f e # err_tree e"
| "err_tree (UnknownKindErr k v oe) =
     UnknownKindErr k v oe # Sentinel ErrUnknownKind #
       (case map_option err_tree oe of None \<Rightarrow> [] | Some t \<Rightarrow> t)"
| "err_tree (OverloadErr d) = [OverloadErr d]"
| "part_tree (Txt t) = []"
| "part_tree (Quo q) = []"
| "part_tree (Cause e) = err_tree e"

definition errors_is :: "err \<Rightarrow> sentinel \<Rightarrow> bool" where
  "errors_is e s \<longleftrightarrow> Sentinel s \<in> set (err_tree e)"

fun first_of :: "('a \<Rightarrow> 'b option) \<Rightarrow> 'a list \<Rightarrow> 'b option" where
  "first_of f [] = None"
| "first_of f (x # xs) = (case f x of None \<Rightarrow> first_of f xs | Some y \<Rightarrow> Some y)"

fun pg_of :: "err \<Rightarrow> pg_error option" where
  "pg_of (PgErr p) = Some p"
| "pg_of _ = None"

fun leg_of :: "err \<Rightarrow> leg_fields option" where
  "leg_of (LegErr f e) = Some f"
| "leg_of _ = None"

fun unknown_kind_of :: "err \<Rightarrow> (gostr \<times> gostr list) option" where
  "unknown_kind_of (UnknownKindErr k v oe) = Some (k, v)"
| "unknown_kind_of _ = None"

fun overload_of :: "err \<Rightarrow> int option" where
  "overload_of (OverloadErr d) = Some d"
| "overload_of _ = None"

definition as_pg :: "err \<Rightarrow> pg_error option" where
  "as_pg e = first_of pg_of (err_tree e)"

definition as_leg :: "err \<Rightarrow> leg_fields option" where
  "as_leg e = first_of leg_of (err_tree e)"

definition as_unknown_kind :: "err \<Rightarrow> (gostr \<times> gostr list) option" where
  "as_unknown_kind e = first_of unknown_kind_of (err_tree e)"

definition as_overload :: "err \<Rightarrow> int option" where
  "as_overload e = first_of overload_of (err_tree e)"

lemmas reading_errors [tree_simps] =
  errors_is_def as_pg_def as_leg_def as_unknown_kind_def as_overload_def

text \<open>\<open>sqlstate\<close> (\<^verbatim>\<open>code\<close>): the SQLSTATE the server answered with, or the empty string.\<close>

definition sqlstate :: "err \<Rightarrow> gostr" where
  "sqlstate e = (case as_pg e of Some p \<Rightarrow> pg_code p | None \<Rightarrow> '''')"

section \<open>What an error says\<close>

text \<open>
  Three verbs are the standard library's and the driver's: \<^verbatim>\<open>%q\<close>, a duration, and the
  server's refusal.  They are arguments.
\<close>

record printer =
  quoted :: "gostr \<Rightarrow> gostr"
  duration_text :: "int \<Rightarrow> gostr"
  pg_text :: "pg_error \<Rightarrow> gostr"

fun join :: "gostr \<Rightarrow> gostr list \<Rightarrow> gostr" where
  "join sep [] = []"
| "join sep [x] = x"
| "join sep (x # y # xs) = x @ sep @ join sep (y # xs)"

definition leg_error_text :: "leg_fields \<Rightarrow> gostr \<Rightarrow> gostr" where
  "leg_error_text f cause =
     ''leg '' @ itoa (lf_index f) @ '' ('' @ lf_account f @ '', '' @ itoa (sint (lf_amount f))
       @ '' minor units): '' @ cause"

definition unknown_kind_text :: "printer \<Rightarrow> gostr \<Rightarrow> gostr list \<Rightarrow> gostr option \<Rightarrow> gostr" where
  "unknown_kind_text p kind valid cause =
     (let msg = sentinel_text ErrUnknownKind @ '': '' @ quoted p (shown kind);
          msg = (if valid \<noteq> [] then msg @ '', which is not one of '' @ join '', '' valid else msg)
      in case cause of None \<Rightarrow> msg | Some c \<Rightarrow> msg @ '': '' @ c)"

definition overload_text :: "printer \<Rightarrow> int \<Rightarrow> gostr" where
  "overload_text p d = ''no connection out of the pool within '' @ duration_text p d"

primrec error_text :: "printer \<Rightarrow> err \<Rightarrow> gostr" and part_text :: "printer \<Rightarrow> part \<Rightarrow> gostr" where
  "error_text p (Sentinel s) = sentinel_text s"
| "error_text p (PgErr g) = pg_text p g"
| "error_text p (Errorf ps) = concat (map (part_text p) ps)"
| "error_text p (Joined es) = join ''\<newline>'' (map (error_text p) es)"
| "error_text p (LegErr f e) = leg_error_text f (error_text p e)"
| "error_text p (UnknownKindErr k v oe) = unknown_kind_text p k v (map_option (error_text p) oe)"
| "error_text p (OverloadErr d) = overload_text p d"
| "part_text p (Txt t) = t"
| "part_text p (Quo q) = quoted p q"
| "part_text p (Cause e) = error_text p e"

end
