(* ===== verification/Uuid.thy ===== *)
theory Uuid
  imports GoText
begin

text \<open>
  The text of a uuid, as the SQL in this repository uses it: \<open>uuid_out\<close> is what \<^verbatim>\<open>id::text\<close>
  and \<^verbatim>\<open>RETURNING id\<close> answer, \<open>uuid_in\<close> what the cast \<^verbatim>\<open>$1::uuid\<close> takes.  The cast takes
  more spellings than one: capitals, braces round the whole, and a hyphen or none after every
  group of four digits.
\<close>

section \<open>Hexadecimal digits\<close>

definition nibble :: "nat \<Rightarrow> char" where
  "nibble d = (if d < 10 then char_of (48 + d) else char_of (87 + d))"

definition nibble_value :: "char \<Rightarrow> nat option" where
  "nibble_value c =
     (let b = of_char c :: nat in
      if 48 \<le> b \<and> b \<le> 57 then Some (b - 48)
      else if 97 \<le> b \<and> b \<le> 102 then Some (b - 87)
      else if 65 \<le> b \<and> b \<le> 70 then Some (b - 55)
      else None)"

lemma nibble_value_nibble [simp]: "d < 16 \<Longrightarrow> nibble_value (nibble d) = Some d"
  by (auto simp: nibble_value_def nibble_def Let_def)

lemma nibble_value_hyphen [simp]: "nibble_value CHR ''-'' = None" "nibble_value (CHR 0x7B) = None"
  by (simp_all add: nibble_value_def)

lemma nibble_not_mark: "d < 16 \<Longrightarrow> nibble d \<noteq> CHR ''-''" "d < 16 \<Longrightarrow> nibble d \<noteq> CHR 0x7B"
  by (metis nibble_value_nibble nibble_value_hyphen option.distinct(1))+

text \<open>Sixteen bits as four digits.\<close>

definition hex4 :: "nat \<Rightarrow> gostr" where
  "hex4 n = [nibble (n div 4096 mod 16), nibble (n div 256 mod 16), nibble (n div 16 mod 16), nibble (n mod 16)]"

definition group :: "nat \<Rightarrow> nat \<Rightarrow> nat" where
  "group k n = n div 65536 ^ k mod 65536"

definition uuid_out :: "uuid \<Rightarrow> gostr" where
  "uuid_out u =
     (let n = unat u in
      hex4 (group 7 n) @ hex4 (group 6 n) @ ''-'' @ hex4 (group 5 n) @ ''-'' @ hex4 (group 4 n)
        @ ''-'' @ hex4 (group 3 n) @ ''-'' @ hex4 (group 2 n) @ hex4 (group 1 n) @ hex4 (group 0 n))"

section \<open>The cast\<close>

definition skip_hyphen :: "nat \<Rightarrow> gostr \<Rightarrow> gostr" where
  "skip_hyphen k s = (if 0 < k \<and> s \<noteq> [] \<and> hd s = CHR ''-'' then tl s else s)"

definition read_hex4 :: "gostr \<Rightarrow> (nat \<times> gostr) option" where
  "read_hex4 s =
     (case s of
        a # b # c # d # rest \<Rightarrow>
          (case (nibble_value a, nibble_value b, nibble_value c, nibble_value d) of
             (Some w, Some x, Some y, Some z) \<Rightarrow> Some (w * 4096 + x * 256 + y * 16 + z, rest)
           | _ \<Rightarrow> None)
      | _ \<Rightarrow> None)"

fun uuid_groups :: "nat \<Rightarrow> nat \<Rightarrow> gostr \<Rightarrow> (nat \<times> gostr) option" where
  "uuid_groups 0 acc s = Some (acc, s)"
| "uuid_groups (Suc k) acc s =
     (case read_hex4 s of
        None \<Rightarrow> None
      | Some (g, rest) \<Rightarrow> uuid_groups k (acc * 65536 + g) (skip_hyphen k rest))"

definition uuid_in :: "gostr \<Rightarrow> uuid option" where
  "uuid_in s =
     (let braces = s \<noteq> [] \<and> hd s = CHR 0x7B;
          body = (if braces then tl s else s)
      in case uuid_groups 8 0 body of
           Some (n, rest) \<Rightarrow>
             if rest = (if braces then [CHR 0x7D] else []) then Some (word_of_nat n) else None
         | None \<Rightarrow> None)"

section \<open>What is written is read back\<close>

lemma read_hex4_hex4:
  assumes "n < 65536"
  shows "read_hex4 (hex4 n @ rest) = Some (n, rest)"
proof -
  define q1 where "q1 = n div 16"
  define q2 where "q2 = q1 div 16"
  define q3 where "q3 = q2 div 16"
  have q: "n div 256 = q2" "n div 4096 = q3"
    unfolding q1_def q2_def q3_def by (simp_all add: div_mult2_eq [symmetric])
  have e: "n = q1 * 16 + n mod 16" "q1 = q2 * 16 + q1 mod 16" "q2 = q3 * 16 + q2 mod 16"
    unfolding q1_def q2_def q3_def by simp_all
  have "q3 < 16" using assms e by linarith
  then have "q3 mod 16 * 4096 + q2 mod 16 * 256 + q1 mod 16 * 16 + n mod 16 = n"
    using e by simp
  then show ?thesis by (simp add: hex4_def read_hex4_def q q1_def [symmetric])
qed

lemma skip_hyphen_hex4 [simp]: "skip_hyphen k (hex4 n @ rest) = hex4 n @ rest"
  by (simp add: skip_hyphen_def hex4_def nibble_not_mark)

lemma skip_hyphen_hyphen [simp]: "skip_hyphen (Suc k) (CHR ''-'' # rest) = rest"
  by (simp add: skip_hyphen_def)

lemma skip_hyphen_Nil [simp]: "skip_hyphen k [] = []"
  by (simp add: skip_hyphen_def)

lemma group_less [simp]: "group k n < 65536"
  by (simp add: group_def)

definition join_groups :: "nat \<Rightarrow> nat" where
  "join_groups n =
     ((((((group 7 n * 65536 + group 6 n) * 65536 + group 5 n) * 65536 + group 4 n) * 65536
       + group 3 n) * 65536 + group 2 n) * 65536 + group 1 n) * 65536 + group 0 n"

lemma group_step: "n div 65536 ^ Suc k * 65536 + group k n = n div 65536 ^ k"
proof -
  have "n div 65536 ^ Suc k = n div 65536 ^ k div 65536"
    by (simp only: power_Suc2 div_mult2_eq)
  then show ?thesis by (simp only: group_def div_mult_mod_eq)
qed

lemma join_groups_eq:
  assumes "n < 65536 ^ 8"
  shows "join_groups n = n"
proof -
  define r where "r k = n div 65536 ^ k" for k
  have step: "r (Suc k) * 65536 + group k n = r k" for k
    unfolding r_def by (rule group_step)
  have "r 8 = 0" using assms unfolding r_def by (rule div_less)
  then have "group 7 n = r 7" using step [of 7] by simp
  moreover have "r 7 * 65536 + group 6 n = r 6" using step [of 6] by simp
  moreover have "r 6 * 65536 + group 5 n = r 5" using step [of 5] by simp
  moreover have "r 5 * 65536 + group 4 n = r 4" using step [of 4] by simp
  moreover have "r 4 * 65536 + group 3 n = r 3" using step [of 3] by simp
  moreover have "r 3 * 65536 + group 2 n = r 2" using step [of 2] by simp
  moreover have "r 2 * 65536 + group 1 n = r 1" using step [of 1] by (simp add: numeral_2_eq_2)
  moreover have "r 1 * 65536 + group 0 n = r 0" using step [of 0] by simp
  ultimately have "join_groups n = r 0" by (simp only: join_groups_def)
  then show ?thesis by (simp add: r_def)
qed

lemma uuid_groups_step:
  "n < 65536 \<Longrightarrow>
     uuid_groups (Suc k) acc (hex4 n @ rest) = uuid_groups k (acc * 65536 + n) (skip_hyphen k rest)"
  by (simp add: read_hex4_hex4)

lemma uuid_groups_out: "uuid_groups 8 0 (uuid_out u) = Some (join_groups (unat u), [])"
proof -
  have n: "(8::nat) = Suc (Suc (Suc (Suc (Suc (Suc (Suc (Suc 0)))))))" by simp
  have "uuid_out u = hex4 (group 7 (unat u)) @ hex4 (group 6 (unat u)) @ CHR ''-'' # hex4 (group 5 (unat u))
     @ CHR ''-'' # hex4 (group 4 (unat u)) @ CHR ''-'' # hex4 (group 3 (unat u)) @ CHR ''-'' # hex4 (group 2 (unat u))
     @ hex4 (group 1 (unat u)) @ hex4 (group 0 (unat u)) @ []"
    by (simp add: uuid_out_def Let_def)
  then show ?thesis
    by (simp only: n uuid_groups_step group_less skip_hyphen_hex4 skip_hyphen_hyphen skip_hyphen_Nil
        uuid_groups.simps(1) join_groups_def mult_0 add_0)
qed

theorem uuid_in_out: "uuid_in (uuid_out u) = Some u"
proof -
  have "unat u < 65536 ^ 8" using unsigned_less [of u] by simp
  then have "word_of_nat (join_groups (unat u)) = u"
    by (simp add: join_groups_eq)
  moreover have "hd (uuid_out u) \<noteq> CHR 0x7B"
    by (simp add: uuid_out_def hex4_def nibble_not_mark Let_def)
  ultimately show ?thesis by (simp add: uuid_in_def uuid_groups_out)
qed

end
