(* ===== verification/Schema.thy ===== *)
theory Schema
  imports GoError Uuid
begin

text \<open>
  \<^verbatim>\<open>internal/schema/0001_ledger.sql\<close>: the tables, their CHECKs and keys, and the trigger
  functions, as functions on the contents of the tables.  When a trigger runs is the
  business of theory \<open>Session\<close>.
\<close>

section \<open>Text\<close>

text \<open>
  What the classes \<^verbatim>\<open>[:space:]\<close>, \<^verbatim>\<open>[:cntrl:]\<close> and \<^verbatim>\<open>[:graph:]\<close> hold beyond ASCII, and the
  order text sorts in, belong to the database a deployer created: they are arguments.
\<close>

record ctype =
  u_space :: "nat \<Rightarrow> bool"
  u_cntrl :: "nat \<Rightarrow> bool"
  u_graph :: "nat \<Rightarrow> bool"
  collate_le :: "gostr \<Rightarrow> gostr \<Rightarrow> bool"

definition is_space :: "ctype \<Rightarrow> nat \<Rightarrow> bool" where
  "is_space ct r = (if r < 128 then r = 32 \<or> within 9 13 r else u_space ct r)"

definition is_cntrl :: "ctype \<Rightarrow> nat \<Rightarrow> bool" where
  "is_cntrl ct r = (if r < 128 then r < 32 \<or> r = 127 else u_cntrl ct r)"

definition is_graph :: "ctype \<Rightarrow> nat \<Rightarrow> bool" where
  "is_graph ct r = (if r < 128 then within 33 126 r else u_graph ct r)"

definition is_blank :: "ctype \<Rightarrow> gostr \<Rightarrow> bool" where
  "is_blank ct s = list_all (is_space ct) (runes s)"

definition has_control_character :: "ctype \<Rightarrow> gostr \<Rightarrow> bool" where
  "has_control_character ct s = list_ex (is_cntrl ct) (runes s)"

text \<open>A text value the server takes at all: UTF-8, and no zero byte.\<close>

definition text_ok :: "gostr \<Rightarrow> bool" where
  "text_ok s \<longleftrightarrow> valid_utf8 s \<and> CHR 0x00 \<notin> set s"

lemma nibble_low: "d < 16 \<Longrightarrow> of_char (nibble d) < (128 :: nat)"
  by (simp add: nibble_def)

lemma nibble_nonzero: "d < 16 \<Longrightarrow> nibble d \<noteq> CHR 0x00"
proof
  have "nibble_value (CHR 0x00) = None" by code_simp
  then show False if "d < 16" "nibble d = CHR 0x00"
    using nibble_value_nibble [OF that(1)] that(2) by simp
qed

definition plain :: "char \<Rightarrow> bool" where
  "plain c \<longleftrightarrow> of_char c < (128 :: nat) \<and> c \<noteq> CHR 0x00"

lemma hex4_plain: "list_all plain (hex4 n)"
  by (simp add: hex4_def plain_def nibble_low nibble_nonzero)

lemma text_ok_uuid_out: "text_ok (uuid_out u)"
proof -
  have "plain CHR ''-''" by code_simp
  then have "list_all plain (uuid_out u)" by (simp add: uuid_out_def Let_def hex4_plain)
  then have all: "\<forall>c \<in> set (uuid_out u). plain c" by (simp add: list_all_iff)
  then have "valid_utf8 (uuid_out u)"
    by (intro ascii_valid) (auto simp: byte_list_def list_all_iff plain_def)
  with all show ?thesis by (auto simp: text_ok_def plain_def)
qed

text \<open>The regular expressions \<^verbatim>\<open>^[a-z][a-z0-9_.]{0,63}$\<close>, \<^verbatim>\<open>^[A-Z]{3}$\<close> and \<^verbatim>\<open>^[[:graph:]]{16,255}$\<close>.\<close>

definition code_rune :: "nat \<Rightarrow> bool" where
  "code_rune r \<longleftrightarrow> within 97 122 r \<or> within 48 57 r \<or> r = 95 \<or> r = 46"

definition code_check :: "gostr \<Rightarrow> bool" where
  "code_check s =
     (case runes s of
        [] \<Rightarrow> False
      | c # cs \<Rightarrow> within 97 122 c \<and> length cs \<le> 63 \<and> list_all code_rune cs)"

definition currency_check :: "gostr \<Rightarrow> bool" where
  "currency_check s \<longleftrightarrow> length (runes s) = 3 \<and> list_all (within 65 90) (runes s)"

lemma ascii_text_ok:
  assumes "list_all (\<lambda>r. 0 < r \<and> r < 128) (runes s)"
  shows "text_ok s"
proof -
  have a: "list_all (\<lambda>b. b < 128) (byte_list s)"
    by (rule runes_ascii) (use assms in \<open>simp add: list_all_iff\<close>)
  have "0 \<notin> set (byte_list s)"
    using assms ascii_runes [OF a] by (auto simp: list_all_iff)
  moreover have "0 \<in> set (byte_list s)" if "CHR 0x00 \<in> set s"
    using imageI [OF that, of of_char] by (simp add: byte_list_def)
  ultimately show ?thesis using ascii_valid [OF a] unfolding text_ok_def by blast
qed

lemma code_text_ok: "code_check s \<Longrightarrow> text_ok s"
  by (rule ascii_text_ok) (auto simp: code_check_def code_rune_def within_def list_all_iff split: list.splits)

lemma currency_text_ok: "currency_check s \<Longrightarrow> text_ok s"
  by (rule ascii_text_ok) (auto simp: currency_check_def within_def list_all_iff)

definition name_check :: "ctype \<Rightarrow> gostr \<Rightarrow> bool" where
  "name_check ct s \<longleftrightarrow> \<not> is_blank ct s \<and> \<not> has_control_character ct s \<and> rune_count s \<le> 100"

definition description_check :: "ctype \<Rightarrow> gostr \<Rightarrow> bool" where
  "description_check ct s \<longleftrightarrow>
     \<not> is_blank ct s \<and> \<not> has_control_character ct s \<and> rune_count s \<le> 500"

definition key_check :: "ctype \<Rightarrow> gostr \<Rightarrow> bool" where
  "key_check ct s \<longleftrightarrow>
     16 \<le> rune_count s \<and> rune_count s \<le> 255 \<and> list_all (is_graph ct) (runes s)"

section \<open>Tables\<close>

datatype account_kind = Asset | Liability | Equity | Revenue | Expense

fun kind_text :: "account_kind \<Rightarrow> gostr" where
  "kind_text Asset = ''asset''"
| "kind_text Liability = ''liability''"
| "kind_text Equity = ''equity''"
| "kind_text Revenue = ''revenue''"
| "kind_text Expense = ''expense''"

text \<open>\<^verbatim>\<open>enum_range(NULL::account_kind)\<close>, and the cast into the enum.\<close>

definition enum_range :: "account_kind list" where
  "enum_range = [Asset, Liability, Equity, Revenue, Expense]"

definition kind_in :: "gostr \<Rightarrow> account_kind option" where
  "kind_in s = List.find (\<lambda>k. kind_text k = s) enum_range"

record account_row =
  acc_id :: uuid
  acc_code :: gostr
  acc_name :: gostr
  acc_kind :: account_kind
  acc_currency :: gostr
  acc_created :: int

record transaction_row =
  txn_id :: uuid
  txn_currency :: gostr
  txn_description :: gostr
  txn_occurred :: int
  txn_created :: int

record posting_row =
  pst_id :: nat
  pst_txn :: uuid
  pst_account :: uuid
  pst_currency :: gostr
  pst_amount :: int64
  pst_created :: int

record key_row =
  key_key :: gostr
  key_hash :: gostr
  key_txn :: "uuid option"
  key_created :: int

text \<open>Rows are listed in the order they were written.\<close>

record book =
  accounts :: "account_row list"
  transactions :: "transaction_row list"
  postings :: "posting_row list"
  balance_checks :: "uuid list"
  idempotency_keys :: "key_row list"

definition empty_book :: book where
  "empty_book = \<lparr>accounts = [], transactions = [], postings = [], balance_checks = [],
     idempotency_keys = []\<rparr>"

section \<open>Refusals\<close>

text \<open>
  The server's own wording of a built-in refusal is not in this repository and nothing here
  reads it; the wording of the triggers' refusals is.
\<close>

definition check_violation :: "gostr \<Rightarrow> gostr \<Rightarrow> pg_error" where
  "check_violation t c = \<lparr>pg_code = ''23514'', pg_message = '''', pg_table = t, pg_column = '''',
     pg_constraint = c\<rparr>"

definition not_null_violation :: "gostr \<Rightarrow> gostr \<Rightarrow> pg_error" where
  "not_null_violation t c = \<lparr>pg_code = ''23502'', pg_message = '''', pg_table = t, pg_column = c,
     pg_constraint = ''''\<rparr>"

definition foreign_key_violation :: "gostr \<Rightarrow> gostr \<Rightarrow> pg_error" where
  "foreign_key_violation t c = \<lparr>pg_code = ''23503'', pg_message = '''', pg_table = t,
     pg_column = '''', pg_constraint = c\<rparr>"

definition unique_violation :: "gostr \<Rightarrow> gostr \<Rightarrow> pg_error" where
  "unique_violation t c = \<lparr>pg_code = ''23505'', pg_message = '''', pg_table = t, pg_column = '''',
     pg_constraint = c\<rparr>"

definition server_refusal :: "gostr \<Rightarrow> gostr \<Rightarrow> pg_error" where
  "server_refusal c m = \<lparr>pg_code = c, pg_message = m, pg_table = '''', pg_column = '''',
     pg_constraint = ''''\<rparr>"

abbreviation bad_text :: pg_error where
  "bad_text \<equiv> server_refusal ''22021'' ''''"

abbreviation bad_cast :: pg_error where
  "bad_cast \<equiv> server_refusal ''22P02'' ''''"

section \<open>Accounts\<close>

definition account_with_code :: "book \<Rightarrow> gostr \<Rightarrow> account_row option" where
  "account_with_code b c = List.find (\<lambda>a. acc_code a = c) (accounts b)"

text \<open>
  The constraints one row of \<^verbatim>\<open>accounts\<close> is held to: the CHECKs in the order of their names,
  then the unique indexes in the order they were made.
\<close>

definition account_refusal :: "ctype \<Rightarrow> book \<Rightarrow> account_row \<Rightarrow> pg_error option" where
  "account_refusal ct b a =
     (if \<not> code_check (acc_code a) then Some (check_violation ''accounts'' ''accounts_code_check'')
      else if \<not> currency_check (acc_currency a)
        then Some (check_violation ''accounts'' ''accounts_currency_check'')
      else if \<not> name_check ct (acc_name a)
        then Some (check_violation ''accounts'' ''accounts_name_check'')
      else if acc_id a \<in> acc_id ` set (accounts b)
        then Some (unique_violation ''accounts'' ''accounts_pkey'')
      else if acc_code a \<in> acc_code ` set (accounts b)
        then Some (unique_violation ''accounts'' ''accounts_code_key'')
      else None)"

definition insert_account ::
  "ctype \<Rightarrow> uuid \<Rightarrow> int \<Rightarrow> gostr \<Rightarrow> gostr \<Rightarrow> gostr \<Rightarrow> gostr \<Rightarrow> book \<Rightarrow> pg_error + book" where
  "insert_account ct u t code name kind currency b =
     (if \<not> text_ok code \<or> \<not> text_ok name \<or> \<not> text_ok kind then Inl bad_text
      else case kind_in kind of
        None \<Rightarrow> Inl bad_cast
      | Some k \<Rightarrow>
          if \<not> text_ok currency then Inl bad_text
          else
            let a = \<lparr>acc_id = u, acc_code = code, acc_name = name, acc_kind = k,
                     acc_currency = currency, acc_created = t\<rparr>
            in case account_refusal ct b a of
                 Some e \<Rightarrow> Inl e
               | None \<Rightarrow> Inr (b\<lparr>accounts := accounts b @ [a]\<rparr>))"

section \<open>Transactions and postings\<close>

definition transaction_refusal :: "ctype \<Rightarrow> book \<Rightarrow> transaction_row \<Rightarrow> pg_error option" where
  "transaction_refusal ct b t =
     (if \<not> currency_check (txn_currency t)
        then Some (check_violation ''transactions'' ''transactions_currency_check'')
      else if \<not> description_check ct (txn_description t)
        then Some (check_violation ''transactions'' ''transactions_description_check'')
      else if txn_id t \<in> txn_id ` set (transactions b)
        then Some (unique_violation ''transactions'' ''transactions_pkey'')
      else None)"

definition insert_transaction ::
  "ctype \<Rightarrow> uuid \<Rightarrow> int \<Rightarrow> gostr \<Rightarrow> gostr \<Rightarrow> int option \<Rightarrow> book \<Rightarrow> pg_error + book" where
  "insert_transaction ct u now currency description occurred b =
     (if \<not> text_ok currency \<or> \<not> text_ok description then Inl bad_text
      else
        let t = \<lparr>txn_id = u, txn_currency = currency, txn_description = description,
                 txn_occurred = (case occurred of Some o' \<Rightarrow> o' | None \<Rightarrow> now), txn_created = now\<rparr>
        in case transaction_refusal ct b t of
             Some e \<Rightarrow> Inl e
           | None \<Rightarrow> Inr (b\<lparr>transactions := transactions b @ [t]\<rparr>))"

text \<open>The composite keys both sides of a posting name.\<close>

definition has_transaction :: "book \<Rightarrow> uuid \<Rightarrow> gostr \<Rightarrow> bool" where
  "has_transaction b u c = list_ex (\<lambda>t. txn_id t = u \<and> txn_currency t = c) (transactions b)"

definition has_account :: "book \<Rightarrow> uuid \<Rightarrow> gostr \<Rightarrow> bool" where
  "has_account b u c = list_ex (\<lambda>a. acc_id a = u \<and> acc_currency a = c) (accounts b)"

text \<open>
  One row into \<^verbatim>\<open>postings\<close>: NOT NULL in column order, the CHECK, then the two foreign keys in
  the order they were declared.
\<close>

definition insert_posting ::
  "nat \<Rightarrow> int \<Rightarrow> uuid \<Rightarrow> uuid option \<Rightarrow> gostr option \<Rightarrow> int64 \<Rightarrow> book \<Rightarrow> pg_error + book" where
  "insert_posting i now txn acc currency amount b =
     (case acc of
        None \<Rightarrow> Inl (not_null_violation ''postings'' ''account_id'')
      | Some a \<Rightarrow>
          (case currency of
             None \<Rightarrow> Inl (not_null_violation ''postings'' ''currency'')
           | Some c \<Rightarrow>
               if amount = 0 then Inl (check_violation ''postings'' ''postings_amount_minor_check'')
               else if \<not> has_transaction b txn c
                 then Inl (foreign_key_violation ''postings'' ''postings_transaction_id_currency_fkey'')
               else if \<not> has_account b a c
                 then Inl (foreign_key_violation ''postings'' ''postings_account_id_currency_fkey'')
               else Inr (b\<lparr>postings := postings b @
                      [\<lparr>pst_id = i, pst_txn = txn, pst_account = a, pst_currency = c,
                        pst_amount = amount, pst_created = now\<rparr>]\<rparr>)))"

definition legs_of :: "book \<Rightarrow> uuid \<Rightarrow> posting_row list" where
  "legs_of b u = filter (\<lambda>p. pst_txn p = u) (postings b)"

definition net_of_transaction :: "book \<Rightarrow> uuid \<Rightarrow> int" where
  "net_of_transaction b u = sum_list (map (sint \<circ> pst_amount) (legs_of b u))"

definition assert_transaction_balances :: "book \<Rightarrow> uuid \<Rightarrow> pg_error option" where
  "assert_transaction_balances b u =
     (let legs = length (legs_of b u); net = net_of_transaction b u in
      if legs = 0 then
        Some (server_refusal ''LB001'' (''transaction '' @ uuid_out u @ '' has no postings''))
      else if net \<noteq> 0 then
        Some (server_refusal ''LB001''
          (''transaction '' @ uuid_out u @ '' does not balance: '' @ itoa (int legs)
             @ '' postings net to '' @ itoa net @ '' (want 0)''))
      else None)"

definition queue_a_balance_check :: "uuid \<Rightarrow> book \<Rightarrow> book" where
  "queue_a_balance_check u b =
     (if u \<in> set (balance_checks b) then b else b\<lparr>balance_checks := balance_checks b @ [u]\<rparr>)"

definition queued_balance_check :: "uuid \<Rightarrow> book \<Rightarrow> pg_error + book" where
  "queued_balance_check u b =
     (case assert_transaction_balances b u of
        Some e \<Rightarrow> Inl e
      | None \<Rightarrow> Inr (b\<lparr>balance_checks := filter (\<lambda>v. v \<noteq> u) (balance_checks b)\<rparr>))"

definition transactions_balance_check :: "uuid \<Rightarrow> book \<Rightarrow> pg_error + book" where
  "transactions_balance_check u b =
     (case assert_transaction_balances b u of Some e \<Rightarrow> Inl e | None \<Rightarrow> Inr b)"

definition reject_mutation :: "gostr \<Rightarrow> gostr \<Rightarrow> pg_error" where
  "reject_mutation table oper =
     server_refusal ''LB002'' (table @ '' is append-only: '' @ oper @ '' is not allowed'')"

section \<open>Idempotency keys\<close>

definition key_with :: "book \<Rightarrow> gostr \<Rightarrow> key_row option" where
  "key_with b k = List.find (\<lambda>r. key_key r = k) (idempotency_keys b)"

definition insert_key :: "ctype \<Rightarrow> int \<Rightarrow> gostr \<Rightarrow> gostr \<Rightarrow> book \<Rightarrow> pg_error + book" where
  "insert_key ct now k h b =
     (if \<not> text_ok k then Inl bad_text
      else if \<not> key_check ct k
        then Inl (check_violation ''idempotency_keys'' ''idempotency_keys_key_shape'')
      else if length h \<noteq> 32
        then Inl (check_violation ''idempotency_keys'' ''idempotency_keys_request_hash_check'')
      else if k \<in> key_key ` set (idempotency_keys b)
        then Inl (unique_violation ''idempotency_keys'' ''idempotency_keys_pkey'')
      else Inr (b\<lparr>idempotency_keys := idempotency_keys b @
             [\<lparr>key_key = k, key_hash = h, key_txn = None, key_created = now\<rparr>]\<rparr>))"

definition idempotency_key_names_a_transaction :: "gostr \<Rightarrow> book \<Rightarrow> pg_error + book" where
  "idempotency_key_names_a_transaction k b =
     (case key_with b k of
        None \<Rightarrow> Inr b
      | Some r \<Rightarrow>
          if key_txn r = None
          then Inl (server_refusal ''LB003''
                 (''idempotency key '' @ k @ '' was committed without a transaction''))
          else Inr b)"

definition idempotency_record_is_final :: "key_row \<Rightarrow> key_row \<Rightarrow> pg_error + key_row" where
  "idempotency_record_is_final old new =
     (if key_txn old \<noteq> None \<or> key_key new \<noteq> key_key old \<or> key_hash new \<noteq> key_hash old
      then Inl (server_refusal ''LB004'' (''idempotency key '' @ key_key old @ '' is already settled''))
      else Inr new)"

text \<open>
  \<^verbatim>\<open>UPDATE idempotency_keys SET transaction_id\<close> on the one row of a key: the row trigger, then
  the foreign key.
\<close>

definition set_key_transaction :: "gostr \<Rightarrow> uuid \<Rightarrow> book \<Rightarrow> pg_error + book" where
  "set_key_transaction k u b =
     (case key_with b k of
        None \<Rightarrow> Inr b
      | Some r \<Rightarrow>
          (case idempotency_record_is_final r (r\<lparr>key_txn := Some u\<rparr>) of
             Inl e \<Rightarrow> Inl e
           | Inr r' \<Rightarrow>
               if u \<notin> txn_id ` set (transactions b)
               then Inl (foreign_key_violation ''idempotency_keys'' ''idempotency_keys_transaction_id_fkey'')
               else Inr (b\<lparr>idempotency_keys :=
                      map (\<lambda>x. if key_key x = k then r' else x) (idempotency_keys b)\<rparr>)))"

section \<open>The view\<close>

record balance_row =
  bal_account :: account_row
  bal_minor :: int
  bal_postings :: nat

definition postings_on :: "book \<Rightarrow> uuid \<Rightarrow> posting_row list" where
  "postings_on b u = filter (\<lambda>p. pst_account p = u) (postings b)"

definition balance_row_of :: "book \<Rightarrow> account_row \<Rightarrow> balance_row" where
  "balance_row_of b a =
     \<lparr>bal_account = a,
      bal_minor = sum_list (map (sint \<circ> pst_amount) (postings_on b (acc_id a))),
      bal_postings = length (postings_on b (acc_id a))\<rparr>"

definition account_balances :: "book \<Rightarrow> balance_row list" where
  "account_balances b = map (balance_row_of b) (accounts b)"

end
