(* ===== verification/Minor.thy ===== *)
theory Minor
  imports GoError
begin

text \<open>
  \<^verbatim>\<open>internal/ledger/minor.go\<close>: an amount in minor units that no total of postings outgrows.
  A \<open>minor\<close> is an arbitrary-precision integer; a single posting's amount stays an
  \<open>int64\<close>.  The theory shows that a \<open>minor\<close> survives being written out and read back, and
  that a net taken with \<open>minor_add\<close> is the exact sum, wherever a 64-bit sum would wrap.
\<close>

section \<open>The type and its arithmetic\<close>

datatype minor = Minor (big: int)

definition minor_of :: "int64 \<Rightarrow> minor" where
  "minor_of v = Minor (sint v)"

definition minor_add :: "minor \<Rightarrow> minor \<Rightarrow> minor" where
  "minor_add m p = Minor (big m + big p)"

definition minor_neg :: "minor \<Rightarrow> minor" where
  "minor_neg m = Minor (- big m)"

definition minor_sign :: "minor \<Rightarrow> int" where
  "minor_sign m = sgn (big m)"

definition minor_is_zero :: "minor \<Rightarrow> bool" where
  "minor_is_zero m \<longleftrightarrow> minor_sign m = 0"

definition minor_equal :: "minor \<Rightarrow> minor \<Rightarrow> bool" where
  "minor_equal m p \<longleftrightarrow> big m = big p"

definition minor_string :: "minor \<Rightarrow> gostr" where
  "minor_string m = itoa (big m)"

definition marshal_minor :: "minor \<Rightarrow> gostr" where
  "marshal_minor m = itoa (big m)"

text \<open>\<^verbatim>\<open>big.Int.SetString\<close> to the base ten: a sign or none, then digits and nothing else.\<close>

definition set_string :: "gostr \<Rightarrow> int option" where
  "set_string s =
     (case s of
        [] \<Rightarrow> None
      | c # cs \<Rightarrow>
          if c = CHR ''-'' then (if cs = [] then None else map_option (\<lambda>v. - int v) (digits_value 0 cs))
          else if c = CHR ''+'' then (if cs = [] then None else map_option int (digits_value 0 cs))
          else map_option int (digits_value 0 s))"

definition unmarshal_minor :: "gostr \<Rightarrow> err + minor" where
  "unmarshal_minor b =
     (case set_string b of
        None \<Rightarrow> Inl (Errorf [Txt ''read '', Txt (shown b), Txt '' as a whole number of minor units''])
      | Some n \<Rightarrow> Inr (Minor n))"

text \<open>The values \<^verbatim>\<open>database/sql\<close> hands a scanner.\<close>

datatype driver_value =
    VNil
  | VInt64 int64
  | VFloat64
  | VBool bool
  | VBytes gostr
  | VString gostr
  | VTime int

fun type_name :: "driver_value \<Rightarrow> gostr" where
  "type_name VNil = ''<nil>''"
| "type_name (VInt64 v) = ''int64''"
| "type_name VFloat64 = ''float64''"
| "type_name (VBool b) = ''bool''"
| "type_name (VBytes b) = ''[]uint8''"
| "type_name (VString s) = ''string''"
| "type_name (VTime t) = ''time.Time''"

definition scan_digits :: "gostr \<Rightarrow> err + minor" where
  "scan_digits s =
     (case set_string s of
        None \<Rightarrow> Inl (Errorf [Txt ''read '', Quo (shown s), Txt '' as a whole number of minor units''])
      | Some n \<Rightarrow> Inr (Minor n))"

fun scan_minor :: "driver_value \<Rightarrow> err + minor" where
  "scan_minor VNil = Inr (Minor 0)"
| "scan_minor (VInt64 v) = Inr (Minor (sint v))"
| "scan_minor (VString s) = scan_digits s"
| "scan_minor (VBytes b) = scan_digits b"
| "scan_minor src = Inl (Errorf [Txt ''read '', Txt (type_name src), Txt '' as minor units''])"

section \<open>The library's classes\<close>

text \<open>
  Amounts are ordered and added like the integers they hold, so the library's sums over
  lists and its order apply to them.
\<close>

instantiation minor :: linorder
begin

definition less_eq_minor :: "minor \<Rightarrow> minor \<Rightarrow> bool" where
  "m \<le> p \<longleftrightarrow> big m \<le> big p"

definition less_minor :: "minor \<Rightarrow> minor \<Rightarrow> bool" where
  "m < p \<longleftrightarrow> big m < big p"

instance
  by standard (auto simp: less_eq_minor_def less_minor_def intro: minor.expand)

end

instantiation minor :: ab_group_add
begin

definition zero_minor :: minor where
  "0 = Minor 0"

definition plus_minor :: "minor \<Rightarrow> minor \<Rightarrow> minor" where
  "m + p = minor_add m p"

definition uminus_minor :: "minor \<Rightarrow> minor" where
  "- m = minor_neg m"

definition minus_minor :: "minor \<Rightarrow> minor \<Rightarrow> minor" where
  "m - p = minor_add m (minor_neg p)"

instance
  by standard
     (simp_all add: zero_minor_def plus_minor_def uminus_minor_def minus_minor_def
       minor_add_def minor_neg_def)

end

lemma big_zero [simp]: "big 0 = 0"
  and big_plus [simp]: "big (m + p) = big m + big p"
  and big_uminus [simp]: "big (- m) = - big m"
  and big_minor_add [simp]: "big (minor_add m p) = big m + big p"
  and big_minor_neg [simp]: "big (minor_neg m) = - big m"
  and big_minor_of [simp]: "big (minor_of v) = sint v"
  by (simp_all add: zero_minor_def plus_minor_def uminus_minor_def minor_add_def minor_neg_def
      minor_of_def)

lemma minor_is_zero_iff [simp]: "minor_is_zero m \<longleftrightarrow> big m = 0"
  by (simp add: minor_is_zero_def minor_sign_def sgn_0_0)

section \<open>A net is the exact sum\<close>

text \<open>
  The loop both \<^verbatim>\<open>Entry.net\<close> and \<^verbatim>\<open>transactionRequest.net\<close> run: from the zero \<open>minor\<close>, add
  \<open>minor_of\<close> of each leg.
\<close>

definition net_of :: "int64 list \<Rightarrow> minor" where
  "net_of vs = foldl (\<lambda>sum v. minor_add sum (minor_of v)) (Minor 0) vs"

lemma big_foldl_add:
  "big (foldl (\<lambda>sum v. minor_add sum (minor_of v)) m vs) = big m + sum_list (map sint vs)"
  by (induction vs arbitrary: m) simp_all

lemma big_net_of [simp]: "big (net_of vs) = sum_list (map sint vs)"
  by (simp add: net_of_def big_foldl_add)

section \<open>Written out and read back\<close>

lemma set_string_itoa: "set_string (itoa n) = Some n"
proof (cases "n < 0")
  case True
  then show ?thesis
    by (simp add: set_string_def itoa_def digits_value_digits)
next
  case False
  obtain c cs where d: "digits (nat n) = c # cs" by (cases "digits (nat n)") auto
  with hd_digits_not_sign [of "nat n"] have "c \<noteq> CHR ''-''" "c \<noteq> CHR ''+''" by simp_all
  with False d digits_value_digits [of "nat n"] show ?thesis
    by (simp add: set_string_def itoa_def)
qed

lemma unmarshal_marshal: "unmarshal_minor (marshal_minor m) = Inr m"
  by (simp add: unmarshal_minor_def marshal_minor_def set_string_itoa)

lemma scan_string:
  "scan_minor (VString (minor_string m)) = Inr m" "scan_minor (VBytes (minor_string m)) = Inr m"
  by (simp_all add: scan_digits_def minor_string_def set_string_itoa)

end
