(* ===== verification/Session.thy ===== *)
theory Session
  imports Schema Minor
begin

text \<open>
  One database transaction as the code drives it: what it has written so far, which deferred
  checks are waiting, the savepoints it holds, and whether the server has given up on it.
  \<open>round_trip\<close> is one statement sent and answered; it is the only way in, so a fault (a
  cancelled request, a lost connection, a server that refuses for reasons of its own) can
  happen at every statement and nowhere else.  When the triggers of
  \<^verbatim>\<open>internal/schema/0001_ledger.sql\<close> run is modelled here.
\<close>

section \<open>Deferred checks\<close>

datatype deferred_trigger =
    TransactionsMustBalance
  | BalanceChecksMustBalance
  | KeysMustBeSettled

datatype event =
    TransactionInserted uuid
  | BalanceCheckInserted uuid
  | KeyWritten gostr

fun trigger_of :: "event \<Rightarrow> deferred_trigger" where
  "trigger_of (TransactionInserted u) = TransactionsMustBalance"
| "trigger_of (BalanceCheckInserted u) = BalanceChecksMustBalance"
| "trigger_of (KeyWritten k) = KeysMustBeSettled"

fun fire :: "event \<Rightarrow> book \<Rightarrow> pg_error + book" where
  "fire (TransactionInserted u) b = transactions_balance_check u b"
| "fire (BalanceCheckInserted u) b = queued_balance_check u b"
| "fire (KeyWritten k) b = idempotency_key_names_a_transaction k b"

fun fire_all :: "event list \<Rightarrow> book \<Rightarrow> pg_error + book" where
  "fire_all [] b = Inr b"
| "fire_all (ev # evs) b = (case fire ev b of Inl e \<Rightarrow> Inl e | Inr b' \<Rightarrow> fire_all evs b')"

section \<open>The session\<close>

record snapshot =
  sn_book :: book
  sn_pending :: "event list"
  sn_modes :: "deferred_trigger \<Rightarrow> bool"

text \<open>
  What can go wrong with one statement beside the statement itself: the server refuses it, or
  the answer never arrives.  The flag of \<open>Lose\<close> says whether the server had carried the
  statement out; only a COMMIT makes anything of it.
\<close>

datatype fault = Refuse pg_error | Lose sentinel bool

record session =
  work :: book
  pending :: "event list"
  modes :: "deferred_trigger \<Rightarrow> bool" \<comment> \<open>true: checked at once\<close>
  saves :: "(gostr \<times> snapshot) list" \<comment> \<open>newest first\<close>
  failed :: bool
  lost :: "sentinel option"
  read_only :: bool
  ctype_of :: ctype
  now :: int
  next_posting :: nat
  uuid_supply :: "nat \<Rightarrow> uuid"
  drawn :: nat
  faults :: "fault option list"

type_synonym 'a act = "session \<Rightarrow> (err + 'a) \<times> session"

definition snapshot_of :: "session \<Rightarrow> snapshot" where
  "snapshot_of s = \<lparr>sn_book = work s, sn_pending = pending s, sn_modes = modes s\<rparr>"

definition restore :: "snapshot \<Rightarrow> session \<Rightarrow> session" where
  "restore sn s = s\<lparr>work := sn_book sn, pending := sn_pending sn, modes := sn_modes sn\<rparr>"

section \<open>Statements\<close>

text \<open>
  The first nine are every statement of \<^verbatim>\<open>internal/ledger\<close> that is not a read.  The rest are
  what another client of the same database can send: a posting of its own making, an attempt
  to change what is append-only, a key deleted or settled by hand, and a row of
  \<^verbatim>\<open>balance_checks\<close> renamed.
\<close>

datatype stmt =
    InsertAccount gostr gostr gostr gostr
  | InsertTransaction gostr gostr "int option"
  | InsertLeg gostr gostr int64
  | InsertKey gostr gostr
  | SettleKey gostr gostr
  | SetConstraints "deferred_trigger list" bool
  | Savepoint gostr
  | RollbackTo gostr
  | Release gostr
  | RawPosting uuid "uuid option" "gostr option" int64
  | MutateTransaction gostr uuid
  | MutatePosting gostr nat
  | Truncate gostr
  | DeleteKey gostr
  | RawSettle gostr uuid
  | RenameBalanceCheck uuid uuid

fun writes_rows :: "stmt \<Rightarrow> bool" where
  "writes_rows (SetConstraints cs im) = False"
| "writes_rows (Savepoint n) = False"
| "writes_rows (RollbackTo n) = False"
| "writes_rows (Release n) = False"
| "writes_rows _ = True"

fun is_rollback_to :: "stmt \<Rightarrow> bool" where
  "is_rollback_to (RollbackTo n) = True"
| "is_rollback_to _ = False"

text \<open>
  The rows a statement wrote raise their events: one whose trigger is checked at once runs at
  the end of the statement, any other waits.
\<close>

fun raise_events :: "event list \<Rightarrow> session \<Rightarrow> pg_error + session" where
  "raise_events [] s = Inr s"
| "raise_events (ev # evs) s =
     (if modes s (trigger_of ev)
      then (case fire ev (work s) of
              Inl e \<Rightarrow> Inl e
            | Inr b \<Rightarrow> raise_events evs (s\<lparr>work := b\<rparr>))
      else raise_events evs (s\<lparr>pending := pending s @ [ev]\<rparr>))"

definition write_rows ::
  "pg_error + book \<Rightarrow> event list \<Rightarrow> gostr \<Rightarrow> session \<Rightarrow> (pg_error + gostr) \<times> session" where
  "write_rows r evs ans s =
     (case r of
        Inl e \<Rightarrow> (Inl e, s)
      | Inr b \<Rightarrow>
          (case raise_events evs (s\<lparr>work := b\<rparr>) of
             Inl e \<Rightarrow> (Inl e, s)
           | Inr s' \<Rightarrow> (Inr ans, s')))"

definition draw :: "session \<Rightarrow> uuid \<times> session" where
  "draw s = (uuid_supply s (drawn s), s\<lparr>drawn := Suc (drawn s)\<rparr>)"

definition draw_posting :: "session \<Rightarrow> nat \<times> session" where
  "draw_posting s = (next_posting s, s\<lparr>next_posting := Suc (next_posting s)\<rparr>)"

text \<open>A posting that went in queues its transaction, once.\<close>

definition post_row :: "uuid \<Rightarrow> uuid option \<Rightarrow> gostr option \<Rightarrow> int64 \<Rightarrow> session \<Rightarrow> (pg_error + gostr) \<times> session" where
  "post_row txn acc currency amount s =
     (case draw_posting s of (i, s1) \<Rightarrow>
        write_rows
          (map_sum id (queue_a_balance_check txn) (insert_posting i (now s1) txn acc currency amount (work s1)))
          (if txn \<in> set (balance_checks (work s1)) then [] else [BalanceCheckInserted txn])
          '''' s1)"

definition new_modes :: "deferred_trigger list \<Rightarrow> bool \<Rightarrow> session \<Rightarrow> deferred_trigger \<Rightarrow> bool" where
  "new_modes cs im s t = (if t \<in> set cs then im else modes s t)"

definition set_constraints :: "deferred_trigger list \<Rightarrow> bool \<Rightarrow> session \<Rightarrow> (pg_error + gostr) \<times> session" where
  "set_constraints cs im s =
     (if im then
        (case fire_all (filter (\<lambda>e. new_modes cs im s (trigger_of e)) (pending s)) (work s) of
           Inl e \<Rightarrow> (Inl e, s)
         | Inr b \<Rightarrow>
             (Inr '''', s\<lparr>work := b, modes := new_modes cs im s,
                pending := filter (\<lambda>e. \<not> new_modes cs im s (trigger_of e)) (pending s)\<rparr>))
      else (Inr '''', s\<lparr>modes := new_modes cs im s\<rparr>))"

definition no_savepoint :: pg_error where
  "no_savepoint = server_refusal ''3B001'' ''''"

definition rollback_to :: "gostr \<Rightarrow> session \<Rightarrow> (pg_error + gostr) \<times> session" where
  "rollback_to n s =
     (case dropWhile (\<lambda>p. fst p \<noteq> n) (saves s) of
        [] \<Rightarrow> (Inl no_savepoint, s)
      | (m, sn) # rest \<Rightarrow> (Inr '''', (restore sn s)\<lparr>saves := (m, sn) # rest, failed := False\<rparr>))"

definition release :: "gostr \<Rightarrow> session \<Rightarrow> (pg_error + gostr) \<times> session" where
  "release n s =
     (case dropWhile (\<lambda>p. fst p \<noteq> n) (saves s) of
        [] \<Rightarrow> (Inl no_savepoint, s)
      | _ # rest \<Rightarrow> (Inr '''', s\<lparr>saves := rest\<rparr>))"

definition settle_key :: "gostr \<Rightarrow> gostr \<Rightarrow> session \<Rightarrow> (pg_error + gostr) \<times> session" where
  "settle_key k idt s =
     (if \<not> text_ok k then (Inl bad_text, s)
      else case uuid_in idt of
        None \<Rightarrow> (Inl bad_cast, s)
      | Some u \<Rightarrow>
          (case key_with (work s) k of
             None \<Rightarrow> (Inr '''', s)
           | Some r \<Rightarrow>
               if key_txn r \<noteq> None then (Inr '''', s)
               else write_rows (set_key_transaction k u (work s)) [KeyWritten k] '''' s))"

fun run_stmt :: "stmt \<Rightarrow> session \<Rightarrow> (pg_error + gostr) \<times> session" where
  "run_stmt (InsertAccount code name kind currency) s =
     (case draw s of (u, s1) \<Rightarrow>
        write_rows (insert_account (ctype_of s1) u (now s1) code name kind currency (work s1)) [] '''' s1)"
| "run_stmt (InsertTransaction currency description occurred) s =
     (case draw s of (u, s1) \<Rightarrow>
        write_rows (insert_transaction (ctype_of s1) u (now s1) currency description occurred (work s1))
          [TransactionInserted u] (uuid_out u) s1)"
| "run_stmt (InsertLeg idt account amount) s =
     (case uuid_in idt of
        None \<Rightarrow> (Inl bad_cast, s)
      | Some txn \<Rightarrow>
          if \<not> text_ok account then (Inl bad_text, s)
          else let a = account_with_code (work s) account
               in post_row txn (map_option acc_id a) (map_option acc_currency a) amount s)"
| "run_stmt (InsertKey k h) s = write_rows (insert_key (ctype_of s) (now s) k h (work s)) [KeyWritten k] '''' s"
| "run_stmt (SettleKey k idt) s = settle_key k idt s"
| "run_stmt (SetConstraints cs im) s = set_constraints cs im s"
| "run_stmt (Savepoint n) s = (Inr '''', s\<lparr>saves := (n, snapshot_of s) # saves s\<rparr>)"
| "run_stmt (RollbackTo n) s = rollback_to n s"
| "run_stmt (Release n) s = release n s"
| "run_stmt (RawPosting txn acc currency amount) s = post_row txn acc currency amount s"
| "run_stmt (MutateTransaction oper u) s =
     (if u \<in> txn_id ` set (transactions (work s)) then (Inl (reject_mutation ''transactions'' oper), s)
      else (Inr '''', s))"
| "run_stmt (MutatePosting oper i) s =
     (if i \<in> pst_id ` set (postings (work s)) then (Inl (reject_mutation ''postings'' oper), s)
      else (Inr '''', s))"
| "run_stmt (Truncate table) s = (Inl (reject_mutation table ''TRUNCATE''), s)"
| "run_stmt (DeleteKey k) s =
     (Inr '''', s\<lparr>work := (work s)\<lparr>idempotency_keys := filter (\<lambda>r. key_key r \<noteq> k) (idempotency_keys (work s))\<rparr>\<rparr>)"
| "run_stmt (RawSettle k u) s = write_rows (set_key_transaction k u (work s)) [KeyWritten k] '''' s"
| "run_stmt (RenameBalanceCheck u v) s =
     (if v \<in> set (balance_checks (work s)) \<and> u \<in> set (balance_checks (work s)) \<and> u \<noteq> v
      then (Inl (unique_violation ''balance_checks'' ''balance_checks_pkey''), s)
      else (Inr '''', s\<lparr>work := (work s)\<lparr>balance_checks := map (\<lambda>w. if w = u then v else w) (balance_checks (work s))\<rparr>\<rparr>))"

section \<open>A statement sent and answered\<close>

definition next_fault :: "session \<Rightarrow> fault option \<times> session" where
  "next_fault s = (case faults s of [] \<Rightarrow> (None, s) | f # fs \<Rightarrow> (f, s\<lparr>faults := fs\<rparr>))"

definition in_failed_transaction :: pg_error where
  "in_failed_transaction = server_refusal ''25P02'' ''''"

definition in_read_only_transaction :: pg_error where
  "in_read_only_transaction = server_refusal ''25006'' ''''"

definition round_trip :: "bool \<Rightarrow> (session \<Rightarrow> (pg_error + 'a) \<times> session) \<Rightarrow> 'a act" where
  "round_trip recovers f s =
     (case lost s of
        Some x \<Rightarrow> (Inl (Sentinel x), s)
      | None \<Rightarrow>
          (case next_fault s of
             (Some (Lose x landed), s1) \<Rightarrow> (Inl (Sentinel x), s1\<lparr>lost := Some x\<rparr>)
           | (Some (Refuse p), s1) \<Rightarrow> (Inl (PgErr p), s1\<lparr>failed := True\<rparr>)
           | (None, s1) \<Rightarrow>
               if failed s1 \<and> \<not> recovers then (Inl (PgErr in_failed_transaction), s1)
               else (case f s1 of
                       (Inl p, s2) \<Rightarrow> (Inl (PgErr p), s2\<lparr>failed := True\<rparr>)
                     | (Inr a, s2) \<Rightarrow> (Inr a, s2))))"

definition exec :: "stmt \<Rightarrow> gostr act" where
  "exec q = round_trip (is_rollback_to q)
     (\<lambda>s. if read_only s \<and> writes_rows q then (Inl in_read_only_transaction, s) else run_stmt q s)"

definition query :: "(session \<Rightarrow> pg_error + 'a) \<Rightarrow> 'a act" where
  "query f = round_trip False (\<lambda>s. (f s, s))"

text \<open>
  The shape of the code: run a step, leave through a handler when it answers an error, go on
  with its answer when it does not.
\<close>

definition attempt :: "'a act \<Rightarrow> (err \<Rightarrow> 'b act) \<Rightarrow> ('a \<Rightarrow> 'b act) \<Rightarrow> 'b act" where
  "attempt m h k s = (case m s of (Inl e, s') \<Rightarrow> h e s' | (Inr x, s') \<Rightarrow> k x s')"

definition ret :: "'a \<Rightarrow> 'a act" where
  "ret x s = (Inr x, s)"

definition fail :: "err \<Rightarrow> 'a act" where
  "fail e s = (Inl e, s)"

text \<open>\<^verbatim>\<open>fmt.Errorf("what: %w", err)\<close>.\<close>

definition wrapped :: "gostr \<Rightarrow> err \<Rightarrow> err" where
  "wrapped what e = Errorf [Txt (what @ '': ''), Cause e]"

section \<open>Begin\<close>

text \<open>
  A database between transactions, and the circumstances one transaction meets: the clock, the
  uuids the server will draw, and what will go wrong.
\<close>

record database =
  db_ctype :: ctype
  db_book :: book
  db_next_posting :: nat

record circumstances =
  c_now :: int
  c_ids :: "nat \<Rightarrow> uuid"
  c_faults :: "fault option list"

definition begin_tx :: "bool \<Rightarrow> circumstances \<Rightarrow> database \<Rightarrow> session" where
  "begin_tx ro c d =
     \<lparr>work = db_book d, pending = [], modes = (\<lambda>t. False), saves = [], failed = False, lost = None,
      read_only = ro, ctype_of = db_ctype d, now = c_now c, next_posting = db_next_posting d,
      uuid_supply = c_ids c, drawn = 0, faults = c_faults c\<rparr>"

section \<open>Commit\<close>

definition commit_unexpected :: err where
  "commit_unexpected = Errorf [Txt ''commit unexpectedly resulted in rollback'']"

text \<open>
  What COMMIT answers, and the book it left behind when it left one: every waiting check runs
  first, and one that refuses takes the whole transaction with it.
\<close>

definition commit :: "session \<Rightarrow> (err + unit) \<times> book option" where
  "commit s =
     (case lost s of
        Some x \<Rightarrow> (Inl (Sentinel x), None)
      | None \<Rightarrow>
          (case next_fault s of
             (f, s1) \<Rightarrow>
               (let checked = (if failed s1 then None else Some (fire_all (pending s1) (work s1))) in
                case f of
                  Some (Lose x landed) \<Rightarrow>
                    (Inl (Sentinel x), (case checked of Some (Inr b) \<Rightarrow> if landed then Some b else None | _ \<Rightarrow> None))
                | Some (Refuse p) \<Rightarrow> (Inl (PgErr p), None)
                | None \<Rightarrow>
                    (case checked of
                       None \<Rightarrow> (Inl commit_unexpected, None)
                     | Some (Inl p) \<Rightarrow> (Inl (PgErr p), None)
                     | Some (Inr b) \<Rightarrow> (Inr (), Some b)))))"

end
