(* ===== verification/SessionLaws.thy ===== *)
theory SessionLaws
  imports Session
begin

text \<open>
  What holds of every session however it is driven.  \<open>sql_steps\<close> is the sessions statements
  can lead to; \<open>via\<close> says that an operation touches the session through statements only.
  The locale \<open>session_law\<close> is the interface between a fact about books and the sessions that
  work on them: a fact each kind of write keeps holds of the work in hand, of every savepoint
  and of whatever COMMIT leaves behind.
\<close>

section \<open>Operations made of statements\<close>

inductive sql_steps :: "(stmt \<Rightarrow> bool) \<Rightarrow> session \<Rightarrow> session \<Rightarrow> bool" for A where
  none: "sql_steps A s s"
| stmt: "sql_steps A s s' \<Longrightarrow> A q \<Longrightarrow> sql_steps A s (snd (exec q s'))"
| read: "sql_steps A s s' \<Longrightarrow> sql_steps A s (snd (query (f :: session \<Rightarrow> pg_error + unit) s'))"

lemma sql_steps_trans: "sql_steps A s' s'' \<Longrightarrow> sql_steps A s s' \<Longrightarrow> sql_steps A s s''"
  by (induction rule: sql_steps.induct) (auto intro: sql_steps.intros)

text \<open>The statements of \<^verbatim>\<open>internal/ledger\<close>.\<close>

fun issued :: "stmt \<Rightarrow> bool" where
  "issued (RawPosting u a c m) = False"
| "issued (MutateTransaction oper u) = False"
| "issued (MutatePosting oper i) = False"
| "issued (Truncate t) = False"
| "issued (DeleteKey k) = False"
| "issued (RawSettle k u) = False"
| "issued (RenameBalanceCheck u v) = False"
| "issued _ = True"

definition via :: "(stmt \<Rightarrow> bool) \<Rightarrow> 'a act \<Rightarrow> bool" where
  "via A m \<longleftrightarrow> (\<forall>s. sql_steps A s (snd (m s)))"

lemma via_exec [via_intros]: "A q \<Longrightarrow> via A (exec q)"
  unfolding via_def by (blast intro: sql_steps.intros)

text \<open>What a read answers has no part in what it does to the session.\<close>

lemma snd_query: "snd (query f s) = snd (query (\<lambda>s. map_sum id (\<lambda>_. ()) (f s)) s)"
  by (auto simp: query_def round_trip_def split: option.split prod.split fault.split sum.split)

lemma via_query [via_intros]: "via A (query f)"
  unfolding via_def by (metis snd_query sql_steps.none sql_steps.read)

lemma via_ret [via_intros]: "via A (ret x)"
  by (simp add: via_def ret_def sql_steps.none)

lemma via_fail [via_intros]: "via A (fail e)"
  by (simp add: via_def fail_def sql_steps.none)

lemma via_attempt [via_intros]:
  assumes "via A m" and "\<And>e. via A (h e)" and "\<And>x. via A (k x)"
  shows "via A (attempt m h k)"
  unfolding via_def
proof
  fix s
  obtain r s' where m: "m s = (r, s')" by (cases "m s")
  then have "sql_steps A s s'" using assms(1) unfolding via_def by (metis snd_conv)
  moreover have "sql_steps A s' (snd (h e s'))" "sql_steps A s' (snd (k x s'))" for e x
    using assms(2,3) unfolding via_def by blast+
  ultimately show "sql_steps A s (snd (attempt m h k s))"
    by (cases r) (auto simp: attempt_def m intro: sql_steps_trans)
qed

lemma via_if [via_intros]: "(b \<Longrightarrow> via A m) \<Longrightarrow> (\<not> b \<Longrightarrow> via A m') \<Longrightarrow> via A (if b then m else m')"
  by simp

lemma via_option [via_intros]:
  "via A m \<Longrightarrow> (\<And>x. via A (k x)) \<Longrightarrow> via A (case v of None \<Rightarrow> m | Some x \<Rightarrow> k x)"
  by (cases v) auto

section \<open>The parts of a session statements leave alone\<close>

lemma raise_events_frame:
  "raise_events evs s = Inr s' \<Longrightarrow>
     ctype_of s' = ctype_of s \<and> now s' = now s \<and> next_posting s' = next_posting s \<and>
     saves s' = saves s \<and> modes s' = modes s \<and> failed s' = failed s \<and> lost s' = lost s \<and>
     read_only s' = read_only s \<and> uuid_supply s' = uuid_supply s \<and> drawn s' = drawn s \<and> faults s' = faults s"
  by (induction evs arbitrary: s) (fastforce split: if_splits sum.splits)+

lemma next_fault_frame [simp]:
  "work (snd (next_fault s)) = work s" "pending (snd (next_fault s)) = pending s"
  "saves (snd (next_fault s)) = saves s" "modes (snd (next_fault s)) = modes s"
  "failed (snd (next_fault s)) = failed s" "lost (snd (next_fault s)) = lost s"
  "read_only (snd (next_fault s)) = read_only s" "ctype_of (snd (next_fault s)) = ctype_of s"
  "now (snd (next_fault s)) = now s" "next_posting (snd (next_fault s)) = next_posting s"
  "uuid_supply (snd (next_fault s)) = uuid_supply s" "drawn (snd (next_fault s)) = drawn s"
  by (simp_all add: next_fault_def split: list.split)

section \<open>Facts every write keeps\<close>

text \<open>An event whose check has nothing left to find.\<close>

definition balanced :: "book \<Rightarrow> uuid \<Rightarrow> bool" where
  "balanced b u \<longleftrightarrow> legs_of b u \<noteq> [] \<and> net_of_transaction b u = 0"

lemma balanced_iff: "balanced b u \<longleftrightarrow> assert_transaction_balances b u = None"
  by (simp add: balanced_def assert_transaction_balances_def Let_def)

fun discharged :: "event \<Rightarrow> book \<Rightarrow> bool" where
  "discharged (TransactionInserted u) b = balanced b u"
| "discharged (BalanceCheckInserted u) b = (balanced b u \<and> u \<notin> set (balance_checks b))"
| "discharged (KeyWritten k) b = (\<forall>r. key_with b k = Some r \<longrightarrow> key_txn r \<noteq> None)"

text \<open>Firing leaves everything but the queue alone, and only ever shortens the queue.\<close>

lemma fire_cases:
  assumes "fire ev b = Inr b'"
  shows "\<exists>u. b' = b\<lparr>balance_checks := filter (\<lambda>v. v \<noteq> u) (balance_checks b)\<rparr> \<or> b' = b"
  using assms
  by (cases ev) (auto simp: transactions_balance_check_def queued_balance_check_def
      idempotency_key_names_a_transaction_def split: option.splits if_splits)

lemma fire_frame:
  assumes "fire ev b = Inr b'"
  shows "accounts b' = accounts b" "transactions b' = transactions b" "postings b' = postings b"
    "idempotency_keys b' = idempotency_keys b" "set (balance_checks b') \<subseteq> set (balance_checks b)"
  using fire_cases [OF assms] by auto

lemma balanced_cong: "postings b' = postings b \<Longrightarrow> balanced b' u = balanced b u"
  by (simp add: balanced_def legs_of_def net_of_transaction_def)

lemma discharged_fire_other:
  assumes "fire ev b = Inr b'" and "discharged ev' b"
  shows "discharged ev' b'"
  using fire_frame [OF assms(1)] assms(2) balanced_cong [of b' b]
  by (cases ev') (auto simp: key_with_def)

lemma fire_discharged: "fire ev b = Inr b' \<Longrightarrow> discharged ev b'"
proof (cases ev)
  case (TransactionInserted u)
  then show "fire ev b = Inr b' \<Longrightarrow> ?thesis"
    by (auto simp: transactions_balance_check_def balanced_iff split: option.splits)
next
  case (BalanceCheckInserted u)
  then show "fire ev b = Inr b' \<Longrightarrow> ?thesis"
    using balanced_cong [of b' b u]
    by (auto simp: queued_balance_check_def balanced_iff split: option.splits)
next
  case (KeyWritten k)
  then show "fire ev b = Inr b' \<Longrightarrow> ?thesis"
    by (auto simp: idempotency_key_names_a_transaction_def split: option.splits if_splits)
qed

lemma fire_all_discharged:
  "fire_all evs b = Inr b' \<Longrightarrow> \<forall>ev \<in> set evs. discharged ev b'"
proof -
  have keep: "fire_all evs b = Inr b' \<Longrightarrow> discharged ev b \<Longrightarrow> discharged ev b'" for evs b b' ev
    by (induction evs arbitrary: b) (auto split: sum.splits dest: discharged_fire_other)
  show "fire_all evs b = Inr b' \<Longrightarrow> ?thesis"
    by (induction evs arbitrary: b) (auto split: sum.splits intro: keep dest: fire_discharged)
qed

text \<open>
  A law: a fact about a book, the checks waiting on it and the next posting's number.  The
  assumptions are what each kind of write must keep, one per statement that changes a row.
\<close>

locale session_law =
  fixes ct :: ctype
    and R :: "nat \<Rightarrow> book \<Rightarrow> event list \<Rightarrow> bool"
    and allowed :: "stmt \<Rightarrow> bool"
  assumes mono: "R n b p \<Longrightarrow> n \<le> n' \<Longrightarrow> R n' b p"
    and fires: "R n b p \<Longrightarrow> fire ev b = Inr b' \<Longrightarrow> R n b' p"
    and drops: "R n b p \<Longrightarrow> set p' \<subseteq> set p \<Longrightarrow> (\<And>ev. ev \<in> set p - set p' \<Longrightarrow> discharged ev b) \<Longrightarrow> R n b p'"
    and account: "R n b p \<Longrightarrow> insert_account ct u t code name kind currency b = Inr b' \<Longrightarrow> R n b' p"
    and transaction: "R n b p \<Longrightarrow> insert_transaction ct u t currency description occurred b = Inr b' \<Longrightarrow>
      R n b' (p @ [TransactionInserted u])"
    and posting: "R n b p \<Longrightarrow> insert_posting n t txn acc cur amount b = Inr b' \<Longrightarrow>
      R (Suc n) (queue_a_balance_check txn b')
        (p @ (if txn \<in> set (balance_checks b) then [] else [BalanceCheckInserted txn]))"
    and key: "R n b p \<Longrightarrow> insert_key ct t k h b = Inr b' \<Longrightarrow> R n b' (p @ [KeyWritten k])"
    and settle: "R n b p \<Longrightarrow> set_key_transaction k u b = Inr b' \<Longrightarrow> R n b' (p @ [KeyWritten k])"
    and delete: "R n b p \<Longrightarrow> allowed (DeleteKey k) \<Longrightarrow>
      R n (b\<lparr>idempotency_keys := filter (\<lambda>r. key_key r \<noteq> k) (idempotency_keys b)\<rparr>) p"
    and rename: "R n b p \<Longrightarrow> allowed (RenameBalanceCheck u v) \<Longrightarrow>
      R n (b\<lparr>balance_checks := map (\<lambda>w. if w = u then v else w) (balance_checks b)\<rparr>) p"
begin

definition holds :: "session \<Rightarrow> bool" where
  "holds s \<longleftrightarrow> ctype_of s = ct \<and> R (next_posting s) (work s) (pending s) \<and>
     (\<forall>(m, sn) \<in> set (saves s). R (next_posting s) (sn_book sn) (sn_pending sn))"

lemma fire_all_keeps: "R n b p \<Longrightarrow> fire_all evs b = Inr b' \<Longrightarrow> R n b' p"
  by (induction evs arbitrary: b) (auto split: sum.splits intro: fires)

lemma raise_events_keeps:
  "R n (work s) (pending s @ evs) \<Longrightarrow> raise_events evs s = Inr s' \<Longrightarrow> R n (work s') (pending s')"
proof (induction evs arbitrary: s)
  case Nil
  then show ?case by simp
next
  case (Cons ev evs)
  show ?case
  proof (cases "modes s (trigger_of ev)")
    case False
    with Cons.prems Cons.IH [of "s\<lparr>pending := pending s @ [ev]\<rparr>"] show ?thesis by simp
  next
    case True
    with Cons.prems(2) obtain b where b: "fire ev (work s) = Inr b"
      and rest: "raise_events evs (s\<lparr>work := b\<rparr>) = Inr s'"
      by (auto split: sum.splits)
    have "R n b (pending s @ ev # evs)" using fires [OF Cons.prems(1) b] by simp
    then have "R n b (pending s @ evs)"
      by (rule drops) (use fire_discharged [OF b] in auto)
    then show ?thesis using rest by (intro Cons.IH [of "s\<lparr>work := b\<rparr>"]) simp_all
  qed
qed

lemma write_rows_keeps:
  assumes "holds s" and "\<And>b. r = Inr b \<Longrightarrow> R (next_posting s) b (pending s @ evs)"
  shows "holds (snd (write_rows r evs ans s))"
proof (cases r)
  case (Inl e)
  with assms(1) show ?thesis by (simp add: write_rows_def)
next
  case (Inr b)
  note b = this
  show ?thesis
  proof (cases "raise_events evs (s\<lparr>work := b\<rparr>)")
    case (Inl e)
    with b assms(1) show ?thesis by (simp add: write_rows_def)
  next
    case (Inr s')
    have "R (next_posting s) (work s') (pending s')"
      using raise_events_keeps [OF _ Inr] assms(2) [OF b] by simp
    with raise_events_frame [OF Inr] assms(1) b Inr show ?thesis
      by (simp add: write_rows_def holds_def)
  qed
qed

lemma holds_draw: "holds s \<Longrightarrow> holds (snd (draw s))"
  by (simp add: holds_def draw_def)

lemma holds_draw_posting: "holds s \<Longrightarrow> holds (snd (draw_posting s))"
  by (auto simp: holds_def draw_posting_def intro: mono [OF _ le_SucI [OF order_refl]])

lemma holds_now: "holds s \<Longrightarrow> R (next_posting s) (work s) (pending s)"
  by (simp add: holds_def)

lemma post_row_keeps:
  assumes "holds s"
  shows "holds (snd (post_row txn acc cur amount s))"
proof -
  have h: "holds (s\<lparr>next_posting := Suc (next_posting s)\<rparr>)"
    using holds_draw_posting [OF assms] by (simp add: draw_posting_def)
  note P = posting [OF holds_now [OF assms], of "now s" txn acc cur amount]
  show ?thesis
    unfolding post_row_def draw_posting_def prod.case
    by (rule write_rows_keeps [OF h])
       (use P in \<open>cases "insert_posting (next_posting s) (now s) txn acc cur amount (work s)";
          simp split del: if_split\<close>)
qed

lemma set_constraints_keeps:
  assumes "holds s"
  shows "holds (snd (set_constraints cs im s))"
proof -
  let ?go = "filter (\<lambda>e. new_modes cs im s (trigger_of e)) (pending s)"
  let ?stay = "filter (\<lambda>e. \<not> new_modes cs im s (trigger_of e)) (pending s)"
  have "R (next_posting s) b ?stay" if "fire_all ?go (work s) = Inr b" for b
    by (rule drops [OF fire_all_keeps [OF holds_now [OF assms] that]])
       (use fire_all_discharged [OF that] in auto)
  with assms show ?thesis
    unfolding set_constraints_def holds_def
    by (cases im; cases "fire_all ?go (work s)") simp_all
qed

lemma dropWhile_saves:
  "dropWhile f xs = x # rest \<Longrightarrow> set (x # rest) \<subseteq> set xs"
  by (metis set_dropWhileD subsetI)

lemma rollback_to_keeps:
  assumes "holds s"
  shows "holds (snd (rollback_to n s))"
proof (cases "dropWhile (\<lambda>p. fst p \<noteq> n) (saves s)")
  case Nil
  show ?thesis unfolding rollback_to_def Nil using assms by simp
next
  case (Cons x rest)
  obtain m sn where x: "x = (m, sn)" by (cases x)
  from dropWhile_saves [OF Cons] assms x show ?thesis
    unfolding rollback_to_def Cons by (auto simp: holds_def restore_def)
qed

lemma release_keeps:
  assumes "holds s"
  shows "holds (snd (release n s))"
proof (cases "dropWhile (\<lambda>p. fst p \<noteq> n) (saves s)")
  case Nil
  show ?thesis unfolding release_def Nil using assms by simp
next
  case (Cons x rest)
  from dropWhile_saves [OF Cons] assms show ?thesis
    unfolding release_def Cons by (auto simp: holds_def)
qed

lemma settle_key_keeps: "holds s \<Longrightarrow> holds (snd (settle_key k t s))"
  by (auto simp: settle_key_def split: option.split intro!: write_rows_keeps
      intro: settle holds_now)

lemma run_stmt_keeps:
  assumes "holds s" and "allowed q"
  shows "holds (snd (run_stmt q s))"
proof -
  have R: "R (next_posting s) (work s) (pending s)" using assms(1) by (rule holds_now)
  have c: "ctype_of s = ct" using assms(1) by (simp add: holds_def)
  have d: "holds (s\<lparr>drawn := Suc (drawn s)\<rparr>)" using holds_draw [OF assms(1)] by (simp add: draw_def)
  show ?thesis
  proof (cases q)
    case (InsertAccount code name kind currency)
    show ?thesis unfolding InsertAccount run_stmt.simps draw_def prod.case
      by (rule write_rows_keeps [OF d]) (simp add: c account [OF R])
  next
    case (InsertTransaction currency description occurred)
    show ?thesis unfolding InsertTransaction run_stmt.simps draw_def prod.case
      by (rule write_rows_keeps [OF d]) (simp add: c transaction [OF R])
  next
    case (InsertLeg t a m)
    with assms(1) show ?thesis by (auto simp: Let_def intro: post_row_keeps split: option.split)
  next
    case (InsertKey k h)
    show ?thesis unfolding InsertKey run_stmt.simps
      by (rule write_rows_keeps [OF assms(1)]) (simp add: c key [OF R])
  next
    case (RawSettle k u)
    with assms(1) R show ?thesis by (auto intro!: write_rows_keeps intro: settle)
  next
    case (DeleteKey k)
    with assms delete [OF R] show ?thesis by (simp add: holds_def)
  next
    case (RenameBalanceCheck u v)
    with assms rename [OF R] show ?thesis by (simp add: holds_def)
  next
    case (Savepoint n)
    with assms(1) show ?thesis by (simp add: holds_def snapshot_of_def)
  qed (use assms(1) in \<open>simp_all add: post_row_keeps set_constraints_keeps rollback_to_keeps
        release_keeps settle_key_keeps\<close>)
qed

lemma round_trip_keeps:
  assumes "holds s" and "\<And>s. holds s \<Longrightarrow> holds (snd (f s))"
  shows "holds (snd (round_trip r f s))"
proof -
  have e: "holds (s'\<lparr>failed := x\<rparr>) = holds s'" "holds (s'\<lparr>lost := y\<rparr>) = holds s'" for s' x y
    by (simp_all add: holds_def)
  obtain g s1 where n: "next_fault s = (g, s1)" by (cases "next_fault s")
  have "holds (snd (next_fault s))" using assms(1) by (simp add: holds_def)
  then have s1: "holds s1" by (simp add: n)
  obtain x s2 where f: "f s1 = (x, s2)" by (cases "f s1")
  with assms(2) [OF s1] have "holds s2" by simp
  with s1 f assms(1) show ?thesis
    by (auto simp: round_trip_def n e split: option.split fault.split sum.split)
qed

lemma exec_keeps: "holds s \<Longrightarrow> allowed q \<Longrightarrow> holds (snd (exec q s))"
  unfolding exec_def by (rule round_trip_keeps) (auto intro: run_stmt_keeps)

lemma query_keeps: "holds s \<Longrightarrow> holds (snd (query f s))"
  unfolding query_def by (rule round_trip_keeps) auto

lemma steps_keep: "sql_steps allowed s s' \<Longrightarrow> holds s \<Longrightarrow> holds s'"
  by (induction rule: sql_steps.induct) (auto intro: exec_keeps query_keeps)

lemma via_keeps: "via allowed m \<Longrightarrow> holds s \<Longrightarrow> holds (snd (m s))"
  unfolding via_def by (blast intro: steps_keep)

text \<open>What COMMIT leaves behind has been through every waiting check.\<close>

lemma commit_law:
  assumes "R (next_posting s) (work s) (pending s)" and "commit s = (r, Some b)"
  shows "R (next_posting s) b []"
proof -
  obtain f s1 where n: "next_fault s = (f, s1)" by (cases "next_fault s")
  have s1: "work s1 = work s" "pending s1 = pending s" using next_fault_frame [of s] by (simp_all add: n)
  have b: "fire_all (pending s) (work s) = Inr b"
    using assms(2) by (auto simp: commit_def n s1 Let_def split: option.splits fault.splits sum.splits if_splits)
  have "R (next_posting s) b (pending s)"
    using assms(1) b by (rule fire_all_keeps)
  then show ?thesis
    by (rule drops) (use fire_all_discharged [OF b] in auto)
qed

lemma commit_keeps: "holds s \<Longrightarrow> commit s = (r, Some b) \<Longrightarrow> R (next_posting s) b []"
  by (rule commit_law [OF holds_now])

end

end
