(* ===== verification/BookLaws.thy ===== *)
theory BookLaws
  imports SessionLaws "HOL-Library.Sublist"
begin

text \<open>
  The facts the schema keeps of a book, each an interpretation of \<open>session_law\<close>: the keys
  and CHECKs (\<open>wf_book\<close>), the numbering of postings, append-only (\<open>extends\<close>), and the one
  behind double entry: a transaction that does not balance has a check waiting on it
  (\<open>covered\<close>).
\<close>

section \<open>Keys and CHECKs\<close>

definition account_fine :: "ctype \<Rightarrow> account_row \<Rightarrow> bool" where
  "account_fine ct a \<longleftrightarrow>
     code_check (acc_code a) \<and> currency_check (acc_currency a) \<and> name_check ct (acc_name a)"

definition transaction_fine :: "ctype \<Rightarrow> transaction_row \<Rightarrow> bool" where
  "transaction_fine ct t \<longleftrightarrow> currency_check (txn_currency t) \<and> description_check ct (txn_description t)"

definition posting_fine :: "book \<Rightarrow> posting_row \<Rightarrow> bool" where
  "posting_fine b p \<longleftrightarrow>
     pst_amount p \<noteq> 0 \<and> has_transaction b (pst_txn p) (pst_currency p) \<and>
     has_account b (pst_account p) (pst_currency p)"

definition key_fine :: "ctype \<Rightarrow> book \<Rightarrow> key_row \<Rightarrow> bool" where
  "key_fine ct b r \<longleftrightarrow>
     key_check ct (key_key r) \<and> length (key_hash r) = 32 \<and>
     (\<forall>u. key_txn r = Some u \<longrightarrow> u \<in> txn_id ` set (transactions b))"

definition wf_book :: "ctype \<Rightarrow> book \<Rightarrow> bool" where
  "wf_book ct b \<longleftrightarrow>
     distinct (map acc_id (accounts b)) \<and> distinct (map acc_code (accounts b)) \<and>
     distinct (map txn_id (transactions b)) \<and> distinct (map key_key (idempotency_keys b)) \<and>
     (\<forall>a \<in> set (accounts b). account_fine ct a) \<and>
     (\<forall>t \<in> set (transactions b). transaction_fine ct t) \<and>
     (\<forall>p \<in> set (postings b). posting_fine b p) \<and>
     (\<forall>r \<in> set (idempotency_keys b). key_fine ct b r)"

lemma wf_bookD:
  assumes "wf_book ct b"
  shows "distinct (map acc_id (accounts b))" "distinct (map acc_code (accounts b))"
    "distinct (map txn_id (transactions b))" "distinct (map key_key (idempotency_keys b))"
    "\<And>a. a \<in> set (accounts b) \<Longrightarrow> account_fine ct a"
    "\<And>t. t \<in> set (transactions b) \<Longrightarrow> transaction_fine ct t"
    "\<And>p. p \<in> set (postings b) \<Longrightarrow> posting_fine b p"
    "\<And>r. r \<in> set (idempotency_keys b) \<Longrightarrow> key_fine ct b r"
  using assms unfolding wf_book_def by blast+

lemma wf_empty [simp]: "wf_book ct empty_book"
  by (simp add: wf_book_def empty_book_def)

text \<open>The two composite keys only see rows being added.\<close>

lemma has_transaction_mono:
  "set (transactions b) \<subseteq> set (transactions b') \<Longrightarrow> has_transaction b u c \<Longrightarrow> has_transaction b' u c"
  by (auto simp: has_transaction_def list_ex_iff)

lemma has_account_mono:
  "set (accounts b) \<subseteq> set (accounts b') \<Longrightarrow> has_account b u c \<Longrightarrow> has_account b' u c"
  by (auto simp: has_account_def list_ex_iff)

lemma posting_fine_mono:
  "set (transactions b) \<subseteq> set (transactions b') \<Longrightarrow> set (accounts b) \<subseteq> set (accounts b') \<Longrightarrow>
     posting_fine b p \<Longrightarrow> posting_fine b' p"
  using has_transaction_mono has_account_mono unfolding posting_fine_def by blast

lemma key_fine_mono:
  "set (transactions b) \<subseteq> set (transactions b') \<Longrightarrow> key_fine ct b r \<Longrightarrow> key_fine ct b' r"
  unfolding key_fine_def by blast

section \<open>What each write did\<close>

lemma insert_accountD:
  assumes "insert_account ct u t code name kind currency b = Inr b'"
  shows "\<exists>a. b' = b\<lparr>accounts := accounts b @ [a]\<rparr> \<and> account_fine ct a \<and>
    acc_id a = u \<and> acc_code a = code \<and> acc_name a = name \<and> kind_text (acc_kind a) = kind \<and>
    acc_currency a = currency \<and>
    acc_id a \<notin> acc_id ` set (accounts b) \<and> acc_code a \<notin> acc_code ` set (accounts b)"
  using assms
  by (auto simp: insert_account_def account_refusal_def account_fine_def Let_def kind_in_def
      dest!: find_SomeD split: if_splits option.splits)

lemma insert_transactionD:
  assumes "insert_transaction ct u t currency description occurred b = Inr b'"
  shows "\<exists>r. b' = b\<lparr>transactions := transactions b @ [r]\<rparr> \<and> transaction_fine ct r \<and>
    txn_id r = u \<and> txn_currency r = currency \<and> txn_description r = description \<and>
    u \<notin> txn_id ` set (transactions b)"
  using assms
  by (auto simp: insert_transaction_def transaction_refusal_def transaction_fine_def Let_def
      split: if_splits option.splits)

lemma insert_postingD:
  assumes "insert_posting i t txn acc cur amount b = Inr b'"
  shows "\<exists>p. b' = b\<lparr>postings := postings b @ [p]\<rparr> \<and> posting_fine b p \<and>
    pst_id p = i \<and> pst_txn p = txn \<and> acc = Some (pst_account p) \<and> cur = Some (pst_currency p) \<and>
    pst_amount p = amount"
  using assms
  by (auto simp: insert_posting_def posting_fine_def split: if_splits option.splits)

lemma insert_keyD:
  assumes "insert_key ct t k h b = Inr b'"
  shows "\<exists>r. b' = b\<lparr>idempotency_keys := idempotency_keys b @ [r]\<rparr> \<and> key_fine ct b r \<and>
    key_key r = k \<and> key_hash r = h \<and> key_txn r = None \<and> k \<notin> key_key ` set (idempotency_keys b)"
  using assms by (auto simp: insert_key_def key_fine_def split: if_splits)

text \<open>A key is settled once: the row it lands on had no transaction, and keeps its key and hash.\<close>

lemma set_key_transactionD:
  assumes "set_key_transaction k u b = Inr b'"
  shows "b' = b \<and> key_with b k = None \<or>
    (\<exists>r. key_with b k = Some r \<and> key_txn r = None \<and> u \<in> txn_id ` set (transactions b) \<and>
      b' = b\<lparr>idempotency_keys := map (\<lambda>x. if key_key x = k then r\<lparr>key_txn := Some u\<rparr> else x) (idempotency_keys b)\<rparr>)"
  using assms
  by (auto simp: set_key_transaction_def idempotency_record_is_final_def split: option.splits if_splits)

lemma key_withD: "key_with b k = Some r \<Longrightarrow> r \<in> set (idempotency_keys b) \<and> key_key r = k"
  by (auto simp: key_with_def dest: find_SomeD)

lemma key_with_None: "key_with b k = None \<longleftrightarrow> k \<notin> key_key ` set (idempotency_keys b)"
  by (auto simp: key_with_def find_None_iff)

lemma key_with_unique:
  assumes "distinct (map key_key (idempotency_keys b))" and "r \<in> set (idempotency_keys b)"
  shows "key_with b (key_key r) = Some r"
  unfolding key_with_def using assms by (rule find_map_inj_key)

lemma queue_frame [simp]:
  "accounts (queue_a_balance_check u b) = accounts b"
  "transactions (queue_a_balance_check u b) = transactions b"
  "postings (queue_a_balance_check u b) = postings b"
  "idempotency_keys (queue_a_balance_check u b) = idempotency_keys b"
  "set (balance_checks (queue_a_balance_check u b)) = insert u (set (balance_checks b))"
  by (auto simp: queue_a_balance_check_def)

lemma wf_cong:
  assumes "accounts b' = accounts b" "transactions b' = transactions b" "postings b' = postings b"
    "idempotency_keys b' = idempotency_keys b"
  shows "wf_book ct b' = wf_book ct b"
  unfolding wf_book_def posting_fine_def key_fine_def has_transaction_def has_account_def assms ..

lemma wf_insert_account:
  assumes "wf_book ct b" and "insert_account ct u t code name kind currency b = Inr b'"
  shows "wf_book ct b'"
proof -
  obtain a where "b' = b\<lparr>accounts := accounts b @ [a]\<rparr>" "account_fine ct a"
    "acc_id a \<notin> acc_id ` set (accounts b)" "acc_code a \<notin> acc_code ` set (accounts b)"
    using insert_accountD [OF assms(2)] by blast
  moreover from this have "set (accounts b) \<subseteq> set (accounts b')" "set (transactions b) \<subseteq> set (transactions b')"
    by auto
  moreover note posting_fine_mono [OF this(2,1)] key_fine_mono [OF this(2), of ct]
  ultimately show ?thesis using assms(1) by (auto simp: wf_book_def)
qed

lemma wf_insert_transaction:
  assumes "wf_book ct b" and "insert_transaction ct u t currency description occurred b = Inr b'"
  shows "wf_book ct b'"
proof -
  obtain r where "b' = b\<lparr>transactions := transactions b @ [r]\<rparr>" "transaction_fine ct r"
    "txn_id r \<notin> txn_id ` set (transactions b)"
    using insert_transactionD [OF assms(2)] by blast
  moreover from this have "set (accounts b) \<subseteq> set (accounts b')" "set (transactions b) \<subseteq> set (transactions b')"
    by auto
  moreover note posting_fine_mono [OF this(2,1)] key_fine_mono [OF this(2), of ct]
  ultimately show ?thesis using assms(1) by (auto simp: wf_book_def)
qed

lemma wf_insert_posting:
  assumes "wf_book ct b" and "insert_posting i t txn acc cur amount b = Inr b'"
  shows "wf_book ct b'"
proof -
  obtain p where "b' = b\<lparr>postings := postings b @ [p]\<rparr>" "posting_fine b p"
    using insert_postingD [OF assms(2)] by blast
  moreover from this have "set (accounts b) \<subseteq> set (accounts b')" "set (transactions b) \<subseteq> set (transactions b')"
    by auto
  moreover note posting_fine_mono [OF this(2,1)] key_fine_mono [OF this(2), of ct]
  ultimately show ?thesis using assms(1) by (auto simp: wf_book_def)
qed

lemma wf_insert_key:
  assumes "wf_book ct b" and "insert_key ct t k h b = Inr b'"
  shows "wf_book ct b'"
proof -
  obtain r where "b' = b\<lparr>idempotency_keys := idempotency_keys b @ [r]\<rparr>" "key_fine ct b r"
    "key_key r \<notin> key_key ` set (idempotency_keys b)"
    using insert_keyD [OF assms(2)] by blast
  moreover from this have "set (accounts b) \<subseteq> set (accounts b')" "set (transactions b) \<subseteq> set (transactions b')"
    by auto
  moreover note posting_fine_mono [OF this(2,1)] key_fine_mono [OF this(2), of ct]
  ultimately show ?thesis using assms(1) by (auto simp: wf_book_def)
qed

lemma wf_set_key:
  assumes "wf_book ct b" and "set_key_transaction k u b = Inr b'"
  shows "wf_book ct b'"
  using set_key_transactionD [OF assms(2)]
proof (elim disjE exE conjE)
  assume "b' = b"
  with assms(1) show ?thesis by simp
next
  fix r
  assume r: "key_with b k = Some r" "u \<in> txn_id ` set (transactions b)"
    and b': "b' = b\<lparr>idempotency_keys :=
      map (\<lambda>x. if key_key x = k then r\<lparr>key_txn := Some u\<rparr> else x) (idempotency_keys b)\<rparr>"
  have k: "map key_key (idempotency_keys b') = map key_key (idempotency_keys b)"
    using key_withD [OF r(1)] by (auto simp: b')
  have "key_fine ct b r" using wf_bookD(8) [OF assms(1)] key_withD [OF r(1)] by blast
  then have "key_fine ct b' r'" if "r' \<in> set (idempotency_keys b')" for r'
    using that r(2) wf_bookD(8) [OF assms(1)] by (auto simp: b' key_fine_def)
  moreover have "posting_fine b' p = posting_fine b p" for p
    by (simp add: b' posting_fine_def has_transaction_def has_account_def)
  ultimately show ?thesis
    using assms(1) unfolding wf_book_def k by (simp add: b')
qed

lemma wf_filter_keys:
  "wf_book ct b \<Longrightarrow> wf_book ct (b\<lparr>idempotency_keys := filter P (idempotency_keys b)\<rparr>)"
  unfolding wf_book_def posting_fine_def key_fine_def has_transaction_def has_account_def
  by (auto intro: distinct_map_filter)

interpretation wf_law: session_law ct "\<lambda>n b p. wf_book ct b" "\<lambda>q. True" for ct
proof (unfold_locales, goal_cases)
  case (2 n b p ev b')
  then show ?case using fire_frame [OF 2(2)] by (metis wf_cong)
next
  case (6 n b p t txn acc cur amount b')
  then have "wf_book ct b'" by (blast intro: wf_insert_posting)
  then show ?case using wf_cong [of "queue_a_balance_check txn b'" b' ct] by simp
next
  case (10 n b p u v)
  then show ?case
    using wf_cong [of "b\<lparr>balance_checks := map (\<lambda>w. if w = u then v else w) (balance_checks b)\<rparr>" b ct]
    by simp
qed (blast intro: wf_insert_account wf_insert_transaction wf_insert_key wf_set_key wf_filter_keys)+

section \<open>Numbering\<close>

definition numbered :: "nat \<Rightarrow> book \<Rightarrow> bool" where
  "numbered n b \<longleftrightarrow>
     sorted_wrt (<) (map pst_id (postings b)) \<and> (\<forall>p \<in> set (postings b). pst_id p < n)"

lemma numbered_cong: "postings b' = postings b \<Longrightarrow> numbered n b' = numbered n b"
  by (simp add: numbered_def)

lemma insert_postings_only:
  "insert_account ct u t code name kind currency b = Inr b' \<Longrightarrow> postings b' = postings b"
  "insert_transaction ct u t currency description occurred b = Inr b' \<Longrightarrow> postings b' = postings b"
  "insert_key ct t k h b = Inr b' \<Longrightarrow> postings b' = postings b"
  "set_key_transaction k u b = Inr b' \<Longrightarrow> postings b' = postings b"
  by (auto dest!: insert_accountD insert_transactionD insert_keyD set_key_transactionD)

interpretation number_law: session_law ct "\<lambda>n b p. numbered n b" "\<lambda>q. True" for ct
proof (unfold_locales, goal_cases)
  case (6 n b p t txn acc cur amount b')
  obtain q where "b' = b\<lparr>postings := postings b @ [q]\<rparr>" "pst_id q = n"
    using insert_postingD [OF 6(2)] by blast
  with 6(1) show ?case by (auto simp: numbered_def sorted_wrt_append)
qed (auto simp: numbered_def dest: insert_postings_only fire_frame(3) less_le_trans)

section \<open>Append-only\<close>

text \<open>\<open>b\<close> holds every row of \<open>base\<close> that is append-only, in place, and every account.\<close>

definition extends :: "book \<Rightarrow> book \<Rightarrow> bool" where
  "extends base b \<longleftrightarrow>
     prefix (accounts base) (accounts b) \<and> prefix (transactions base) (transactions b) \<and>
     prefix (postings base) (postings b)"

lemma extends_refl [simp]: "extends b b"
  by (simp add: extends_def)

lemma extends_trans: "extends a b \<Longrightarrow> extends b c \<Longrightarrow> extends a c"
  by (auto simp: extends_def)

lemma extends_keep:
  assumes "extends base b" and "prefix (accounts b) (accounts b')"
    "prefix (transactions b) (transactions b')" "prefix (postings b) (postings b')"
  shows "extends base b'"
  using assms by (auto simp: extends_def)

interpretation append_law: session_law ct "\<lambda>n b p. extends base b" "\<lambda>q. True" for ct base
proof (unfold_locales, goal_cases)
  case (2 n b p ev b')
  then show ?case using fire_frame [OF 2(2)] by (intro extends_keep [OF 2(1)]) simp_all
next
  case (4 n b p u t code name kind currency b')
  then show ?case using insert_accountD [OF 4(2)] by (intro extends_keep [OF 4(1)]) auto
next
  case (5 n b p u t currency description occurred b')
  then show ?case using insert_transactionD [OF 5(2)] by (intro extends_keep [OF 5(1)]) auto
next
  case (6 n b p t txn acc cur amount b')
  then show ?case using insert_postingD [OF 6(2)] by (intro extends_keep [OF 6(1)]) auto
next
  case (7 n b p t k h b')
  then show ?case using insert_keyD [OF 7(2)] by (intro extends_keep [OF 7(1)]) auto
next
  case (8 n b p k u b')
  then show ?case using set_key_transactionD [OF 8(2)] by (intro extends_keep [OF 8(1)]) auto
qed (auto simp: extends_def)

section \<open>Nothing unbalanced goes unwatched\<close>

definition watched :: "event list \<Rightarrow> uuid \<Rightarrow> bool" where
  "watched p u \<longleftrightarrow> TransactionInserted u \<in> set p \<or> BalanceCheckInserted u \<in> set p"

text \<open>
  A transaction that does not balance is watched; a queued balance check has its event; a key
  with no transaction has its own.
\<close>

definition covered :: "book \<Rightarrow> event list \<Rightarrow> bool" where
  "covered b p \<longleftrightarrow>
     (\<forall>u \<in> txn_id ` set (transactions b). balanced b u \<or> watched p u) \<and>
     (\<forall>u \<in> set (balance_checks b). BalanceCheckInserted u \<in> set p) \<and>
     (\<forall>r \<in> set (idempotency_keys b). key_txn r = None \<longrightarrow> KeyWritten (key_key r) \<in> set p) \<and>
     distinct (map key_key (idempotency_keys b))"

text \<open>The statements that keep it: all but a hand on the queue itself.\<close>

fun leaves_the_queue :: "stmt \<Rightarrow> bool" where
  "leaves_the_queue (RenameBalanceCheck u v) = False"
| "leaves_the_queue _ = True"

lemma issued_leaves_the_queue: "issued q \<Longrightarrow> leaves_the_queue q"
  by (cases q) auto

lemma watched_append [simp]: "watched (p @ q) u \<longleftrightarrow> watched p u \<or> watched q u"
  by (auto simp: watched_def)

lemma covered_fire:
  assumes "covered b p" and "fire ev b = Inr b'"
  shows "covered b' p"
  using assms(1) fire_frame [OF assms(2)] balanced_cong [of b' b] by (auto simp: covered_def)

lemma covered_drop:
  assumes "covered b p" and "set p' \<subseteq> set p"
    and "\<And>ev. ev \<in> set p - set p' \<Longrightarrow> discharged ev b"
  shows "covered b p'"
proof -
  have "balanced b u \<or> watched p' u" if "watched p u" for u
    using assms(3) [of "TransactionInserted u"] assms(3) [of "BalanceCheckInserted u"] that
    by (auto simp: watched_def)
  moreover have "BalanceCheckInserted u \<in> set p'"
    if "u \<in> set (balance_checks b)" "BalanceCheckInserted u \<in> set p" for u
    using assms(3) [of "BalanceCheckInserted u"] that by auto
  moreover have "KeyWritten (key_key r) \<in> set p'"
    if "r \<in> set (idempotency_keys b)" "key_txn r = None" "KeyWritten (key_key r) \<in> set p" for r
    using assms(1) assms(3) [of "KeyWritten (key_key r)"] that key_with_unique [of b r]
    by (auto simp: covered_def)
  ultimately show ?thesis using assms(1) unfolding covered_def by blast
qed

lemma balanced_other_posting:
  assumes "b' = b\<lparr>postings := postings b @ [p]\<rparr>" and "pst_txn p \<noteq> u"
  shows "balanced b' u = balanced b u"
  using assms by (simp add: balanced_def legs_of_def net_of_transaction_def)

lemma covered_posting:
  assumes c: "covered b p" and i: "insert_posting n t txn acc cur amount b = Inr b'"
  shows "covered (queue_a_balance_check txn b')
    (p @ (if txn \<in> set (balance_checks b) then [] else [BalanceCheckInserted txn]))"
proof -
  obtain q where b': "b' = b\<lparr>postings := postings b @ [q]\<rparr>" and q: "pst_txn q = txn"
    using insert_postingD [OF i] by blast
  let ?p = "p @ (if txn \<in> set (balance_checks b) then [] else [BalanceCheckInserted txn])"
  have w: "BalanceCheckInserted txn \<in> set ?p" using c by (auto simp: covered_def)
  have "balanced (queue_a_balance_check txn b') u \<or> watched ?p u"
    if "u \<in> txn_id ` set (transactions b)" for u
  proof (cases "u = txn")
    case True
    with w show ?thesis by (simp only: watched_def) simp
  next
    case False
    with that c balanced_other_posting [OF b'] q balanced_cong [of "queue_a_balance_check txn b'" b' u]
    show ?thesis by (auto simp: covered_def)
  qed
  with c w show ?thesis unfolding covered_def by (auto simp: b')
qed

lemma covered_set_key:
  assumes "covered b p" and "set_key_transaction k u b = Inr b'"
  shows "covered b' (p @ [KeyWritten k])"
  using set_key_transactionD [OF assms(2)]
proof (elim disjE exE conjE)
  assume "b' = b"
  with assms(1) show ?thesis by (auto simp: covered_def)
next
  fix r
  assume r: "key_with b k = Some r"
    and b': "b' = b\<lparr>idempotency_keys :=
      map (\<lambda>x. if key_key x = k then r\<lparr>key_txn := Some u\<rparr> else x) (idempotency_keys b)\<rparr>"
  have k: "map key_key (idempotency_keys b') = map key_key (idempotency_keys b)"
    using key_withD [OF r] by (auto simp: b')
  have "balanced b' v = balanced b v" for v by (rule balanced_cong) (simp add: b')
  with assms(1) show ?thesis unfolding covered_def k by (auto simp: b')
qed

interpretation cover_law: session_law ct "\<lambda>n b p. covered b p" leaves_the_queue for ct
proof (unfold_locales, goal_cases)
  case (2 n b p ev b')
  then show ?case by (rule covered_fire)
next
  case (3 n b p p')
  then show ?case by (rule covered_drop)
next
  case (4 n b p u t code name kind currency b')
  then obtain a where b': "b' = b\<lparr>accounts := accounts b @ [a]\<rparr>" using insert_accountD by blast
  have "balanced b' v = balanced b v" for v by (rule balanced_cong) (simp add: b')
  with 4(1) show ?case by (simp add: covered_def b')
next
  case (5 n b p u t currency description occurred b')
  then obtain r where b': "b' = b\<lparr>transactions := transactions b @ [r]\<rparr>" and "txn_id r = u"
    using insert_transactionD by blast
  moreover have "balanced b' v = balanced b v" for v by (rule balanced_cong) (simp add: b')
  ultimately show ?case using 5(1) by (auto simp: covered_def watched_def)
next
  case (6 n b p t txn acc cur amount b')
  then show ?case by (rule covered_posting)
next
  case (7 n b p t k h b')
  then obtain r where b': "b' = b\<lparr>idempotency_keys := idempotency_keys b @ [r]\<rparr>" and "key_key r = k"
    "k \<notin> key_key ` set (idempotency_keys b)"
    using insert_keyD by blast
  moreover have "balanced b' v = balanced b v" for v by (rule balanced_cong) (simp add: b')
  ultimately show ?case using 7(1) by (auto simp: covered_def)
next
  case (8 n b p k u b')
  then show ?case by (rule covered_set_key)
next
  case (9 n b p k)
  have "balanced (b\<lparr>idempotency_keys := f\<rparr>) v = balanced b v" for f v by (rule balanced_cong) simp
  with 9 show ?case by (auto simp: covered_def intro: distinct_map_filter)
qed simp_all

section \<open>What a committed book is\<close>

text \<open>
  A book between transactions: the schema's keys and CHECKs, every transaction balanced, no
  check left queued, every key settled.
\<close>

definition consistent :: "ctype \<Rightarrow> book \<Rightarrow> bool" where
  "consistent ct b \<longleftrightarrow>
     wf_book ct b \<and> (\<forall>t \<in> set (transactions b). balanced b (txn_id t)) \<and>
     balance_checks b = [] \<and> (\<forall>r \<in> set (idempotency_keys b). key_txn r \<noteq> None)"

lemma consistent_iff: "consistent ct b \<longleftrightarrow> wf_book ct b \<and> covered b []"
  by (auto simp: consistent_def covered_def watched_def wf_book_def)

lemma consistent_empty [simp]: "consistent ct empty_book"
  by (simp add: consistent_iff) (simp add: covered_def empty_book_def)

text \<open>A whole database: its book, and postings numbered in the order they were written.\<close>

definition sound :: "database \<Rightarrow> bool" where
  "sound d \<longleftrightarrow> consistent (db_ctype d) (db_book d) \<and> numbered (db_next_posting d) (db_book d)"

lemma begin_holds:
  assumes "sound d"
  shows "wf_law.holds (db_ctype d) (begin_tx ro c d)"
    and "number_law.holds (db_ctype d) (begin_tx ro c d)"
    and "cover_law.holds (db_ctype d) (begin_tx ro c d)"
    and "append_law.holds (db_ctype d) (db_book d) (begin_tx ro c d)"
  using assms
  by (simp_all add: sound_def consistent_iff begin_tx_def wf_law.holds_def number_law.holds_def
      cover_law.holds_def append_law.holds_def)

lemma steps_mono:
  "sql_steps A s s' \<Longrightarrow> (\<And>q. A q \<Longrightarrow> B q) \<Longrightarrow> sql_steps B s s'"
  by (induction rule: sql_steps.induct) (auto intro: sql_steps.intros)

text \<open>
  Whatever statements a transaction sends, short of a hand on the queue, and whatever goes wrong
  with them, what it commits is consistent, and nothing that was in the book before is gone.
\<close>

lemma commit_sound:
  assumes "sound d" and "sql_steps leaves_the_queue (begin_tx ro c d) s" and "commit s = (r, Some b)"
  shows "consistent (db_ctype d) b" and "numbered (next_posting s) b" and "extends (db_book d) b"
proof -
  have all: "sql_steps (\<lambda>q. True) (begin_tx ro c d) s" using assms(2) by (rule steps_mono) simp
  show "consistent (db_ctype d) b"
    unfolding consistent_iff
    using wf_law.commit_keeps [OF wf_law.steps_keep [OF all begin_holds(1) [OF assms(1)]] assms(3)]
      cover_law.commit_keeps [OF cover_law.steps_keep [OF assms(2) begin_holds(3) [OF assms(1)]] assms(3)]
    by blast
  show "numbered (next_posting s) b"
    by (rule number_law.commit_keeps [OF number_law.steps_keep [OF all begin_holds(2) [OF assms(1)]] assms(3)])
  show "extends (db_book d) b"
    by (rule append_law.commit_keeps [OF append_law.steps_keep [OF all begin_holds(4) [OF assms(1)]] assms(3)])
qed

end
