(* ===== verification/Savepoints.thy ===== *)
theory Savepoints
  imports BookLaws
begin

text \<open>
  The savepoint discipline \<^verbatim>\<open>Post\<close>, \<^verbatim>\<open>Open\<close> and \<^verbatim>\<open>Once\<close> share: take a savepoint, do the
  work, and on a refusal roll back to it.  The interface is the locale \<open>savepoint_body\<close>: what
  the work must promise of the savepoint stack, and what the caller may then rely on.  The
  theory also has what an operation does in a session nothing goes wrong in.
\<close>

section \<open>A session nothing goes wrong in\<close>

definition healthy :: "session \<Rightarrow> bool" where
  "healthy s \<longleftrightarrow> \<not> failed s \<and> lost s = None \<and> faults s = [] \<and> \<not> read_only s"

text \<open>The session an operation was refused in, with its counters where the refusal left them.\<close>

lemma exec_healthy:
  "healthy s \<Longrightarrow> exec q s =
     (case run_stmt q s of
        (Inl p, s2) \<Rightarrow> (Inl (PgErr p), s2\<lparr>failed := True\<rparr>)
      | (Inr a, s2) \<Rightarrow> (Inr a, s2))"
  by (simp add: exec_def round_trip_def healthy_def next_fault_def)

lemma query_healthy:
  "healthy s \<Longrightarrow> query f s =
     (case f s of Inl p \<Rightarrow> (Inl (PgErr p), s\<lparr>failed := True\<rparr>) | Inr a \<Rightarrow> (Inr a, s))"
  by (simp add: query_def round_trip_def healthy_def next_fault_def split: sum.split)

text \<open>A read asks less of the session: it may be one that cannot write.\<close>

definition readable :: "session \<Rightarrow> bool" where
  "readable s \<longleftrightarrow> \<not> failed s \<and> lost s = None \<and> faults s = []"

lemma healthy_readable: "healthy s \<Longrightarrow> readable s"
  by (simp add: healthy_def readable_def)

lemma query_readable:
  "readable s \<Longrightarrow> query f s =
     (case f s of Inl p \<Rightarrow> (Inl (PgErr p), s\<lparr>failed := True\<rparr>) | Inr a \<Rightarrow> (Inr a, s))"
  by (simp add: query_def round_trip_def readable_def next_fault_def split: sum.split)

lemma rollback_healthy:
  "lost s = None \<Longrightarrow> faults s = [] \<Longrightarrow> exec (RollbackTo n) s =
     (case rollback_to n s of
        (Inl p, s2) \<Rightarrow> (Inl (PgErr p), s2\<lparr>failed := True\<rparr>)
      | (Inr a, s2) \<Rightarrow> (Inr a, s2))"
  by (simp add: exec_def round_trip_def next_fault_def)

lemma healthy_updates [simp]:
  "healthy (s\<lparr>work := b\<rparr>) = healthy s" "healthy (s\<lparr>pending := p\<rparr>) = healthy s"
  "healthy (s\<lparr>modes := t\<rparr>) = healthy s" "healthy (s\<lparr>saves := st\<rparr>) = healthy s"
  "healthy (s\<lparr>drawn := n\<rparr>) = healthy s" "healthy (s\<lparr>next_posting := n\<rparr>) = healthy s"
  by (simp_all add: healthy_def)

lemma healthyD:
  "healthy s \<Longrightarrow> \<not> failed s \<and> lost s = None \<and> faults s = [] \<and> \<not> read_only s"
  by (simp add: healthy_def)

text \<open>A savepoint found again at the top of the stack, and let go of there.\<close>

lemma rollback_top:
  assumes "saves s = (n, sn) # rest" and "lost s = None" and "faults s = []"
  shows "exec (RollbackTo n) s = (Inr '''', (restore sn s)\<lparr>failed := False\<rparr>)"
  using assms by (simp add: rollback_healthy rollback_to_def restore_def)

lemma release_top:
  assumes "healthy s" and "saves s = (n, sn) # rest"
  shows "exec (Release n) s = (Inr '''', s\<lparr>saves := rest\<rparr>)"
  using assms by (simp add: exec_healthy release_def)

lemma savepoint_healthy:
  "healthy s \<Longrightarrow> exec (Savepoint n) s = (Inr '''', s\<lparr>saves := (n, snapshot_of s) # saves s\<rparr>)"
  by (simp add: exec_healthy)

section \<open>What no statement changes\<close>

text \<open>
  The locale of the database, the clock, the server's supply of uuids and whether the
  transaction may write are settled at BEGIN; a number drawn is never drawn again.
\<close>

definition same_setting :: "session \<Rightarrow> session \<Rightarrow> bool" where
  "same_setting s s' \<longleftrightarrow>
     ctype_of s' = ctype_of s \<and> now s' = now s \<and> uuid_supply s' = uuid_supply s \<and>
     read_only s' = read_only s \<and> next_posting s \<le> next_posting s' \<and> drawn s \<le> drawn s' \<and>
     (\<exists>used. faults s = used @ faults s')"

lemma same_setting_refl: "same_setting s s"
  by (simp add: same_setting_def)

lemma same_setting_trans: "same_setting s s' \<Longrightarrow> same_setting s' s'' \<Longrightarrow> same_setting s s''"
  by (auto simp: same_setting_def)

lemma write_rows_setting: "same_setting s (snd (write_rows r evs ans s))"
  by (auto simp: write_rows_def same_setting_def dest: raise_events_frame split: sum.split)

lemma setting_counters:
  "same_setting s (s\<lparr>drawn := Suc (drawn s)\<rparr>)" "same_setting s (s\<lparr>next_posting := Suc (next_posting s)\<rparr>)"
  by (simp_all add: same_setting_def)

lemma post_row_setting: "same_setting s (snd (post_row txn acc cur amount s))"
  unfolding post_row_def draw_posting_def prod.case
  by (rule same_setting_trans [OF setting_counters(2) write_rows_setting])

lemma settle_key_setting: "same_setting s (snd (settle_key k t s))"
  by (auto simp: settle_key_def same_setting_refl write_rows_setting split: option.split)

lemma run_stmt_setting: "same_setting s (snd (run_stmt q s))"
proof (cases q)
  case (InsertAccount code name kind currency)
  show ?thesis unfolding InsertAccount run_stmt.simps draw_def prod.case
    by (rule same_setting_trans [OF setting_counters(1) write_rows_setting])
next
  case (InsertTransaction currency description occurred)
  show ?thesis unfolding InsertTransaction run_stmt.simps draw_def prod.case
    by (rule same_setting_trans [OF setting_counters(1) write_rows_setting])
next
  case (SetConstraints cs im)
  then show ?thesis by (simp add: set_constraints_def same_setting_def split: sum.split)
next
  case (RollbackTo n)
  then show ?thesis by (simp add: rollback_to_def restore_def same_setting_def split: list.split prod.split)
next
  case (Release n)
  then show ?thesis by (simp add: release_def same_setting_def split: list.split)
next
  case (Savepoint n)
  then show ?thesis by (simp add: same_setting_def)
next
  case (DeleteKey k)
  then show ?thesis by (simp add: same_setting_def)
next
  case (RenameBalanceCheck u v)
  then show ?thesis by (simp add: same_setting_def)
qed (auto simp: Let_def same_setting_refl post_row_setting write_rows_setting settle_key_setting
    split: option.split)

lemma round_trip_setting:
  assumes "\<And>s. same_setting s (snd (f s))"
  shows "same_setting s (snd (round_trip r f s))"
proof -
  have n: "same_setting s (snd (next_fault s))"
    by (auto simp: same_setting_def next_fault_def split: list.split)
  have e: "same_setting s (s'\<lparr>failed := x\<rparr>) = same_setting s s'" "same_setting s (s'\<lparr>lost := y\<rparr>) = same_setting s s'"
    for s s' x y by (simp_all add: same_setting_def)
  obtain g s1 where g: "next_fault s = (g, s1)" by (cases "next_fault s")
  obtain x s2 where f: "f s1 = (x, s2)" by (cases "f s1")
  have "same_setting s s1" "same_setting s1 s2" using n assms [of s1] by (simp_all add: g f)
  then show ?thesis
    by (auto simp: round_trip_def g f e same_setting_refl intro: same_setting_trans
        split: option.split fault.split sum.split)
qed

lemma exec_setting: "same_setting s (snd (exec q s))"
  unfolding exec_def by (rule round_trip_setting) (simp add: run_stmt_setting same_setting_refl)

lemma query_setting: "same_setting s (snd (query f s))"
  unfolding query_def by (rule round_trip_setting) (simp add: same_setting_refl)

lemma steps_setting: "sql_steps A s s' \<Longrightarrow> same_setting s s'"
  by (induction rule: sql_steps.induct)
     (auto intro: same_setting_refl same_setting_trans exec_setting query_setting)

lemma via_setting: "via A m \<Longrightarrow> same_setting s (snd (m s))"
  unfolding via_def by (blast intro: steps_setting)

section \<open>The stack\<close>

named_theorems stack_intros \<open>an operation only adds to the savepoint stack\<close>

text \<open>
  \<open>stacks ns m\<close>: whatever \<open>m\<close> leaves on the stack above what it found carries a name of \<open>ns\<close>.
\<close>

definition stacks :: "gostr set \<Rightarrow> 'a act \<Rightarrow> bool" where
  "stacks ns m \<longleftrightarrow> (\<forall>s. \<exists>extra. saves (snd (m s)) = extra @ saves s \<and> fst ` set extra \<subseteq> ns)"

lemma stacksD: "stacks ns m \<Longrightarrow> \<exists>extra. saves (snd (m s)) = extra @ saves s \<and> fst ` set extra \<subseteq> ns"
  by (simp add: stacks_def)

lemma stacks_mono: "stacks ns m \<Longrightarrow> ns \<subseteq> ms \<Longrightarrow> stacks ms m"
  unfolding stacks_def by (meson order_trans)

lemma stacks_ret [stack_intros]: "stacks ns (ret x)"
  by (simp add: stacks_def ret_def)

lemma stacks_fail [stack_intros]: "stacks ns (fail e)"
  by (simp add: stacks_def fail_def)

lemma stacks_attempt [stack_intros]:
  assumes "stacks ns m" and "\<And>e. stacks ns (h e)" and "\<And>x. stacks ns (k x)"
  shows "stacks ns (attempt m h k)"
  unfolding stacks_def
proof
  fix s
  obtain r s1 where m: "m s = (r, s1)" by (cases "m s")
  obtain x1 where x1: "saves s1 = x1 @ saves s" "fst ` set x1 \<subseteq> ns"
    using stacksD [OF assms(1), of s] by (auto simp: m)
  have "\<exists>extra. saves (snd (attempt m h k s)) = extra @ saves s1 \<and> fst ` set extra \<subseteq> ns"
    by (cases r) (auto simp: attempt_def m intro: stacksD [OF assms(2)] stacksD [OF assms(3)])
  then obtain x2 where "saves (snd (attempt m h k s)) = x2 @ saves s1" "fst ` set x2 \<subseteq> ns" by blast
  with x1 show "\<exists>extra. saves (snd (attempt m h k s)) = extra @ saves s \<and> fst ` set extra \<subseteq> ns"
    by (intro exI [of _ "x2 @ x1"]) auto
qed

lemma stacks_if [stack_intros]: "stacks ns m \<Longrightarrow> stacks ns m' \<Longrightarrow> stacks ns (if b then m else m')"
  by simp

lemma stacks_option [stack_intros]:
  "stacks ns m \<Longrightarrow> (\<And>x. stacks ns (k x)) \<Longrightarrow> stacks ns (case v of None \<Rightarrow> m | Some x \<Rightarrow> k x)"
  by (cases v) auto

lemma round_trip_saves:
  assumes "\<And>s. saves (snd (f s)) = saves s"
  shows "saves (snd (round_trip r f s)) = saves s"
proof -
  obtain g s1 where g: "next_fault s = (g, s1)" by (cases "next_fault s")
  obtain x s2 where f: "f s1 = (x, s2)" by (cases "f s1")
  have "saves s1 = saves s" using next_fault_frame(3) [of s] by (simp add: g)
  moreover have "saves s2 = saves s1" using assms [of s1] by (simp add: f)
  ultimately show ?thesis
    by (simp add: round_trip_def g f split: option.split fault.split sum.split)
qed

fun moves_the_stack :: "stmt \<Rightarrow> bool" where
  "moves_the_stack (Savepoint n) = True"
| "moves_the_stack (RollbackTo n) = True"
| "moves_the_stack (Release n) = True"
| "moves_the_stack _ = False"

lemma write_rows_saves: "saves (snd (write_rows r evs ans s)) = saves s"
  by (auto simp: write_rows_def dest: raise_events_frame split: sum.split)

lemma run_stmt_saves: "\<not> moves_the_stack q \<Longrightarrow> saves (snd (run_stmt q s)) = saves s"
  by (cases q) (auto simp: draw_def draw_posting_def post_row_def settle_key_def set_constraints_def Let_def
      write_rows_saves split: option.split sum.split)

lemma exec_saves: "\<not> moves_the_stack q \<Longrightarrow> saves (snd (exec q s)) = saves s"
  unfolding exec_def by (rule round_trip_saves) (simp add: run_stmt_saves)

lemma query_saves: "saves (snd (query f s)) = saves s"
  unfolding query_def by (rule round_trip_saves) simp

lemma stacks_exec [stack_intros]: "\<not> moves_the_stack q \<Longrightarrow> stacks ns (exec q)"
  by (simp add: stacks_def exec_saves)

lemma stacks_query [stack_intros]: "stacks ns (query f)"
  by (simp add: stacks_def query_saves)

section \<open>Rolling back to a savepoint, and releasing it\<close>

lemma round_trip_Inr:
  assumes "round_trip r f s = (Inr x, s')"
  shows "lost s = None \<and> f (snd (next_fault s)) = (Inr x, s') \<and> (r \<or> \<not> failed s)"
proof -
  obtain g s1 where g: "next_fault s = (g, s1)" by (cases "next_fault s")
  have "failed s1 = failed s" using next_fault_frame(5) [of s] by (simp add: g)
  with assms show ?thesis
    by (auto simp: round_trip_def g split: option.splits prod.splits fault.splits sum.splits if_splits)
qed

lemma exec_Inr:
  assumes "exec q s = (Inr x, s')"
  shows "lost s = None \<and> run_stmt q (snd (next_fault s)) = (Inr x, s') \<and> (is_rollback_to q \<or> \<not> failed s)"
  using round_trip_Inr [OF assms [unfolded exec_def]] by (auto split: if_splits)

lemma query_Inr:
  assumes "query f s = (Inr x, s')"
  shows "lost s = None \<and> \<not> failed s \<and> f (snd (next_fault s)) = Inr x \<and> s' = snd (next_fault s)"
  using round_trip_Inr [OF assms [unfolded query_def]] by auto

lemma dropWhile_above:
  "n \<notin> fst ` set extra \<Longrightarrow> dropWhile (\<lambda>p. fst p \<noteq> n) (extra @ (n, sn) # rest) = (n, sn) # rest"
  by (induction extra) auto

locale savepoint_body =
  fixes n :: gostr and names :: "gostr set" and m :: "'a act"
  assumes stack: "stacks names m" and fresh: "n \<notin> names"
begin

text \<open>Under a savepoint of that name, the work leaves it in reach.\<close>

lemma in_reach:
  assumes "m s = (r, s')" and "saves s = (n, sn) # rest"
  shows "dropWhile (\<lambda>p. fst p \<noteq> n) (saves s') = (n, sn) # rest"
proof -
  obtain extra where "saves s' = extra @ saves s" "fst ` set extra \<subseteq> names"
    using stacksD [OF stack, of s] assms(1) by auto
  with fresh assms(2) show ?thesis by (auto intro: dropWhile_above)
qed

lemma rolled_back:
  assumes "m s = (r, s')" and "saves s = (n, sn) # rest" and "exec (RollbackTo n) s' = (Inr x, s'')"
  shows "work s'' = sn_book sn \<and> pending s'' = sn_pending sn \<and> modes s'' = sn_modes sn \<and>
    saves s'' = (n, sn) # rest \<and> \<not> failed s'' \<and> lost s'' = None"
proof -
  let ?t = "snd (next_fault s')"
  have t: "run_stmt (RollbackTo n) ?t = (Inr x, s'')" "lost ?t = None"
    using exec_Inr [OF assms(3)] by simp_all
  have "dropWhile (\<lambda>p. fst p \<noteq> n) (saves ?t) = (n, sn) # rest" using in_reach [OF assms(1,2)] by simp
  with t show ?thesis by (auto simp: rollback_to_def restore_def)
qed

lemma rollback_works:
  assumes "m s = (r, s')" and "saves s = (n, sn) # rest" and "lost s' = None" and "faults s' = []"
  shows "exec (RollbackTo n) s' = (Inr '''', (restore sn s')\<lparr>saves := (n, sn) # rest, failed := False\<rparr>)"
  using in_reach [OF assms(1,2)] assms(3,4) by (simp add: rollback_healthy rollback_to_def)

lemma released:
  assumes "m s = (r, s')" and "saves s = (n, sn) # rest" and "exec (Release n) s' = (Inr x, s'')"
  shows "saves s'' = rest \<and> work s'' = work s' \<and> pending s'' = pending s' \<and> modes s'' = modes s' \<and>
    failed s'' = failed s' \<and> lost s'' = lost s'"
proof -
  let ?t = "snd (next_fault s')"
  have t: "run_stmt (Release n) ?t = (Inr x, s'')" using exec_Inr [OF assms(3)] by simp
  have "dropWhile (\<lambda>p. fst p \<noteq> n) (saves ?t) = (n, sn) # rest" using in_reach [OF assms(1,2)] by simp
  with t show ?thesis by (auto simp: release_def)
qed

end

section \<open>A success owes nothing to what might have gone wrong\<close>

text \<open>
  \<open>calm s\<close> is \<open>s\<close> with nothing left to go wrong.  An operation whose handlers never recover
  answers success in \<open>s\<close> only where it answers the same success in \<open>calm s\<close>, so what is
  shown of a quiet session carries over to every success.
\<close>

definition calm :: "session \<Rightarrow> session" where
  "calm s = s\<lparr>faults := []\<rparr>"

lemma calm_frame [simp]:
  "work (calm s) = work s" "pending (calm s) = pending s" "saves (calm s) = saves s"
  "modes (calm s) = modes s" "failed (calm s) = failed s" "lost (calm s) = lost s"
  "read_only (calm s) = read_only s" "ctype_of (calm s) = ctype_of s" "now (calm s) = now s"
  "next_posting (calm s) = next_posting s" "uuid_supply (calm s) = uuid_supply s"
  "drawn (calm s) = drawn s" "faults (calm s) = []" "calm (calm s) = calm s"
  by (simp_all add: calm_def)

lemma calm_updates:
  "(calm s)\<lparr>work := b\<rparr> = calm (s\<lparr>work := b\<rparr>)" "(calm s)\<lparr>pending := p\<rparr> = calm (s\<lparr>pending := p\<rparr>)"
  "(calm s)\<lparr>modes := t\<rparr> = calm (s\<lparr>modes := t\<rparr>)" "(calm s)\<lparr>saves := st\<rparr> = calm (s\<lparr>saves := st\<rparr>)"
  "(calm s)\<lparr>failed := f\<rparr> = calm (s\<lparr>failed := f\<rparr>)" "(calm s)\<lparr>drawn := n\<rparr> = calm (s\<lparr>drawn := n\<rparr>)"
  "(calm s)\<lparr>next_posting := n\<rparr> = calm (s\<lparr>next_posting := n\<rparr>)"
  by (simp_all add: calm_def)

lemma new_modes_calm [simp]: "new_modes cs im (calm s) = new_modes cs im s"
  by (simp add: fun_eq_iff new_modes_def)

lemma healthy_calm: "healthy s \<Longrightarrow> calm s = s"
  by (simp add: healthy_def calm_def)

lemma raise_events_calm:
  "raise_events evs (calm s) = map_sum id calm (raise_events evs s)"
  by (induction evs arbitrary: s) (simp_all add: calm_updates split: sum.split)

lemma write_rows_calm: "write_rows r evs ans (calm s) = map_prod id calm (write_rows r evs ans s)"
  by (simp add: write_rows_def calm_updates raise_events_calm split: sum.split)

lemma post_row_calm: "post_row txn acc cur m (calm s) = map_prod id calm (post_row txn acc cur m s)"
  by (simp add: post_row_def draw_posting_def calm_updates write_rows_calm)

lemma settle_key_calm: "settle_key k t (calm s) = map_prod id calm (settle_key k t s)"
  by (simp add: settle_key_def write_rows_calm split: option.split)

lemma run_stmt_calm: "run_stmt q (calm s) = map_prod id calm (run_stmt q s)"
  by (cases q)
     (simp_all add: draw_def calm_updates write_rows_calm post_row_calm settle_key_calm Let_def
       set_constraints_def rollback_to_def restore_def release_def snapshot_of_def del: dropWhile_eq_Nil_conv
       split: option.split sum.split list.split prod.split)

definition faultless :: "'a act \<Rightarrow> bool" where
  "faultless m \<longleftrightarrow> (\<forall>s x s'. m s = (Inr x, s') \<longrightarrow> m (calm s) = (Inr x, calm s'))"

named_theorems faultless_intros \<open>a success is the quiet session's success\<close>

lemma faultlessD: "faultless m \<Longrightarrow> m s = (Inr x, s') \<Longrightarrow> m (calm s) = (Inr x, calm s')"
  by (simp add: faultless_def)

lemma calm_next_fault [simp]: "calm (snd (next_fault s)) = calm s"
  by (simp add: next_fault_def calm_def split: list.split)

lemma round_trip_faultless:
  assumes "\<And>s x s'. f s = (Inr x, s') \<Longrightarrow> f (calm s) = (Inr x, calm s')"
  shows "faultless (round_trip r f)"
  unfolding faultless_def
proof (intro allI impI)
  fix s x s'
  assume a: "round_trip r f s = (Inr x, s')"
  then have "lost s = None" "r \<or> \<not> failed s" and "f (snd (next_fault s)) = (Inr x, s')"
    using round_trip_Inr [OF a] by auto
  moreover from assms [OF this(3)] have "f (calm s) = (Inr x, calm s')" by simp
  moreover have "next_fault (calm s) = (None, calm s)" by (simp add: next_fault_def)
  ultimately show "round_trip r f (calm s) = (Inr x, calm s')" by (auto simp: round_trip_def)
qed

lemma faultless_exec [faultless_intros]: "faultless (exec q)"
  unfolding exec_def by (rule round_trip_faultless) (auto simp: run_stmt_calm split: if_splits)

lemma faultless_query [faultless_intros]:
  "(\<And>s. f (calm s) = f s) \<Longrightarrow> faultless (query f)"
  unfolding query_def by (rule round_trip_faultless) auto

lemma faultless_ret [faultless_intros]: "faultless (ret x)"
  by (simp add: faultless_def ret_def)

definition refuses :: "'a act \<Rightarrow> bool" where
  "refuses m \<longleftrightarrow> (\<forall>s. \<exists>e s'. m s = (Inl e, s'))"

lemma refuses_fail [faultless_intros]: "refuses (fail e)"
  by (simp add: refuses_def fail_def)

lemma refuses_attempt [faultless_intros]:
  "(\<And>e. refuses (h e)) \<Longrightarrow> (\<And>x. refuses (k x)) \<Longrightarrow> refuses (attempt m h k)"
  unfolding refuses_def attempt_def by (auto split: prod.split sum.split)

lemma refuses_if [faultless_intros]: "refuses m \<Longrightarrow> refuses m' \<Longrightarrow> refuses (if b then m else m')"
  by simp

lemma faultless_refuses: "refuses m \<Longrightarrow> faultless m"
  unfolding refuses_def faultless_def by (metis Inl_Inr_False prod.inject)

lemmas faultless_fail [faultless_intros] = faultless_refuses [OF refuses_fail]

lemma faultless_attempt [faultless_intros]:
  assumes "faultless m" and "\<And>e. refuses (h e)" and "\<And>x. faultless (k x)"
  shows "faultless (attempt m h k)"
  unfolding faultless_def
proof (intro allI impI)
  fix s x s'
  assume a: "attempt m h k s = (Inr x, s')"
  obtain r s1 where m: "m s = (r, s1)" by (cases "m s")
  show "attempt m h k (calm s) = (Inr x, calm s')"
  proof (cases r)
    case (Inl e)
    obtain e' s2 where "h e s1 = (Inl e', s2)" using assms(2) unfolding refuses_def by blast
    with a m Inl show ?thesis by (simp add: attempt_def)
  next
    case (Inr y)
    with a m have "k y s1 = (Inr x, s')" by (simp add: attempt_def)
    then show ?thesis
      using faultlessD [OF assms(1), of s y s1] faultlessD [OF assms(3), of y s1] m Inr
      by (simp add: attempt_def)
  qed
qed

lemma faultless_if [faultless_intros]: "faultless m \<Longrightarrow> faultless m' \<Longrightarrow> faultless (if b then m else m')"
  by simp

lemma attempt_Inr:
  assumes "attempt m h k s = (Inr y, s')" and "\<And>e. refuses (h e)"
  shows "\<exists>x s1. m s = (Inr x, s1) \<and> k x s1 = (Inr y, s')"
proof -
  obtain r s1 where m: "m s = (r, s1)" by (cases "m s")
  show ?thesis
  proof (cases r)
    case (Inl e)
    obtain e' s2 where "h e s1 = (Inl e', s2)" using assms(2) unfolding refuses_def by blast
    with assms(1) m Inl show ?thesis by (simp add: attempt_def)
  next
    case (Inr x)
    with assms(1) m show ?thesis by (auto simp: attempt_def)
  qed
qed

section \<open>Reading only\<close>

definition observes :: "'a act \<Rightarrow> bool" where
  "observes m \<longleftrightarrow> (\<forall>s. work (snd (m s)) = work s \<and> pending (snd (m s)) = pending s \<and>
     modes (snd (m s)) = modes s \<and> saves (snd (m s)) = saves s)"

named_theorems observe_intros \<open>an operation that only reads\<close>

lemma observesD:
  "observes m \<Longrightarrow> m s = (r, s') \<Longrightarrow>
     work s' = work s \<and> pending s' = pending s \<and> modes s' = modes s \<and> saves s' = saves s"
  unfolding observes_def by (metis snd_conv)

lemma observes_query [observe_intros]: "observes (query f)"
  unfolding observes_def
proof
  fix s
  obtain g s1 where g: "next_fault s = (g, s1)" by (cases "next_fault s")
  have "work s1 = work s" "pending s1 = pending s" "modes s1 = modes s" "saves s1 = saves s"
    using next_fault_frame [of s] by (simp_all add: g)
  then show "work (snd (query f s)) = work s \<and> pending (snd (query f s)) = pending s \<and>
      modes (snd (query f s)) = modes s \<and> saves (snd (query f s)) = saves s"
    by (simp add: query_def round_trip_def g split: option.split fault.split sum.split)
qed

lemma observes_ret [observe_intros]: "observes (ret x)"
  by (simp add: observes_def ret_def)

lemma observes_fail [observe_intros]: "observes (fail e)"
  by (simp add: observes_def fail_def)

lemma observes_attempt [observe_intros]:
  assumes "observes m" and "\<And>e. observes (h e)" and "\<And>x. observes (k x)"
  shows "observes (attempt m h k)"
  unfolding observes_def
proof
  fix s
  obtain r s1 where m: "m s = (r, s1)" by (cases "m s")
  show "work (snd (attempt m h k s)) = work s \<and> pending (snd (attempt m h k s)) = pending s \<and>
      modes (snd (attempt m h k s)) = modes s \<and> saves (snd (attempt m h k s)) = saves s"
    using observesD [OF assms(1) m] assms(2,3) unfolding observes_def
    by (cases r) (simp_all add: attempt_def m)
qed

lemma observes_if [observe_intros]: "observes m \<Longrightarrow> observes m' \<Longrightarrow> observes (if b then m else m')"
  by simp

lemma observes_option [observe_intros]:
  "observes m \<Longrightarrow> (\<And>x. observes (k x)) \<Longrightarrow> observes (case v of None \<Rightarrow> m | Some x \<Rightarrow> k x)"
  by (cases v) auto

section \<open>After an error\<close>

text \<open>An error of one statement leaves the session failed or lost.\<close>

lemma round_trip_Inl: "round_trip r f s = (Inl e, s') \<Longrightarrow> failed s' \<or> lost s' \<noteq> None"
proof -
  obtain g s1 where g: "next_fault s = (g, s1)" by (cases "next_fault s")
  have "failed s1 = failed s" using next_fault_frame(5) [of s] by (simp add: g)
  then show "round_trip r f s = (Inl e, s') \<Longrightarrow> ?thesis"
    by (auto simp: round_trip_def g split: option.splits prod.splits fault.splits sum.splits if_splits)
qed

lemma exec_Inl: "exec q s = (Inl e, s') \<Longrightarrow> failed s' \<or> lost s' \<noteq> None"
  unfolding exec_def by (rule round_trip_Inl)

lemma query_Inl: "query f s = (Inl e, s') \<Longrightarrow> failed s' \<or> lost s' \<noteq> None"
  unfolding query_def by (rule round_trip_Inl)

lemma run_stmt_saves_Inl: "run_stmt q s = (Inl p, s') \<Longrightarrow> saves s' = saves s"
proof (cases "moves_the_stack q")
  case False
  then show "run_stmt q s = (Inl p, s') \<Longrightarrow> ?thesis" using run_stmt_saves [OF False, of s] by simp
next
  case True
  then show "run_stmt q s = (Inl p, s') \<Longrightarrow> ?thesis"
    by (cases q) (auto simp: rollback_to_def release_def split: list.splits)
qed

lemma exec_Inl_saves:
  assumes "exec q s = (Inl e, s')"
  shows "saves s' = saves s"
proof -
  obtain g s1 where g: "next_fault s = (g, s1)" by (cases "next_fault s")
  have "saves s1 = saves s" using next_fault_frame(3) [of s] by (simp add: g)
  then show ?thesis
    using assms run_stmt_saves_Inl [of q s1]
    by (auto simp: exec_def round_trip_def g split: option.splits fault.splits sum.splits prod.splits if_splits)
qed

text \<open>A session a caller may go on with, and what it held when the work started.\<close>

definition usable :: "session \<Rightarrow> bool" where
  "usable s \<longleftrightarrow> \<not> failed s \<and> lost s = None"

definition untouched :: "session \<Rightarrow> session \<Rightarrow> bool" where
  "untouched s s' \<longleftrightarrow> work s' = work s \<and> pending s' = pending s \<and> modes s' = modes s"

lemma exec_savepoint_Inr:
  assumes "exec (Savepoint n) s = (Inr x, s1)"
  shows "saves s1 = (n, snapshot_of s) # saves s \<and> work s1 = work s \<and> pending s1 = pending s \<and> modes s1 = modes s"
  using exec_Inr [OF assms] by (auto simp: snapshot_of_def)

text \<open>
  \<open>guarded\<close> is the shape \<^verbatim>\<open>Open\<close> and \<^verbatim>\<open>Post\<close> have: the work under a savepoint, rolled back to
  it on an error before \<open>look\<close> says what the error was, released from it on success.
\<close>

definition guarded ::
  "gostr \<Rightarrow> 'a act \<Rightarrow> (err \<Rightarrow> err) \<Rightarrow> (err \<Rightarrow> err \<Rightarrow> err) \<Rightarrow> (err \<Rightarrow> 'b act) \<Rightarrow> (err \<Rightarrow> err) \<Rightarrow> ('a \<Rightarrow> 'b) \<Rightarrow> 'b act"
  where
  "guarded n m f g look h y =
     attempt (exec (Savepoint n)) (\<lambda>e. fail (f e)) (\<lambda>_.
     attempt m
       (\<lambda>e. attempt (exec (RollbackTo n)) (\<lambda>rb. fail (g e rb)) (\<lambda>_. look e))
       (\<lambda>x. attempt (exec (Release n)) (\<lambda>e. fail (h e)) (\<lambda>_. ret (y x))))"

lemma faultless_guarded:
  assumes "faultless m" and "\<And>e. refuses (look e)"
  shows "faultless (guarded n m f g look h y)"
  unfolding guarded_def using assms by (intro faultless_intros)

context savepoint_body
begin

text \<open>Work refused under a savepoint and rolled back to it.\<close>

lemma undone:
  assumes "exec (Savepoint n) s = (Inr x, s1)" and "m s1 = (Inl e, s2)"
    and "exec (RollbackTo n) s2 = (Inr y, s3)" and "observes look" and "look s3 = (r, s')"
  shows "untouched s s'"
  using rolled_back [OF assms(2) _ assms(3), of "snapshot_of s" "saves s"]
    exec_savepoint_Inr [OF assms(1)] observesD [OF assms(4,5)]
  by (simp add: untouched_def snapshot_of_def)

lemma guarded_refused:
  assumes "guarded n m f g look h y s = (Inl e, s')" and "usable s'" and "\<And>e. observes (look e)"
  shows "untouched s s'"
proof -
  obtain r1 s1 where s1: "exec (Savepoint n) s = (r1, s1)" by (cases "exec (Savepoint n) s")
  show ?thesis
  proof (cases r1)
    case (Inl e1)
    with assms(1,2) s1 exec_Inl [of "Savepoint n" s e1 s1] show ?thesis
      by (auto simp: guarded_def attempt_def fail_def usable_def)
  next
    case (Inr x1)
    note s1 = s1 [unfolded Inr]
    obtain r2 s2 where s2: "m s1 = (r2, s2)" by (cases "m s1")
    show ?thesis
    proof (cases r2)
      case (Inr x2)
      with assms(1,2) s1 s2 exec_Inl [of "Release n" s2] show ?thesis
        by (auto simp: guarded_def attempt_def fail_def ret_def usable_def split: prod.splits sum.splits)
    next
      case (Inl e2)
      obtain r3 s3 where s3: "exec (RollbackTo n) s2 = (r3, s3)" by (cases "exec (RollbackTo n) s2")
      from assms(1,2) s1 s2 s3 Inl exec_Inl [of "RollbackTo n" s2 _ s3]
      obtain x3 where "r3 = Inr x3" "look e2 s3 = (Inl e, s')"
        by (cases r3) (auto simp: guarded_def attempt_def fail_def usable_def)
      with undone [OF s1 s2 [unfolded Inl] _ assms(3)] s3 show ?thesis by simp
    qed
  qed
qed

text \<open>Whichever way it ends, what is left above the stack it found carries its name or the work's.\<close>

lemma guarded_stacks:
  assumes "\<And>e. observes (look e)"
  shows "stacks (insert n names) (guarded n m f g look h y)"
  unfolding stacks_def
proof
  fix s :: session
  let ?ok = "\<lambda>s'. \<exists>extra. saves s' = extra @ saves s \<and> fst ` set extra \<subseteq> insert n names"
  obtain r1 s1 where s1: "exec (Savepoint n) s = (r1, s1)" by (cases "exec (Savepoint n) s")
  show "?ok (snd (guarded n m f g look h y s))"
  proof (cases r1)
    case (Inl e)
    then have "snd (guarded n m f g look h y s) = s1" using s1 by (simp add: guarded_def attempt_def fail_def)
    moreover have "saves s1 = saves s"
      using s1 Inl exec_Inl_saves by simp
    ultimately show ?thesis by (intro exI [of _ "[]"]) simp
  next
    case (Inr x)
    note top = exec_savepoint_Inr [OF s1 [unfolded Inr]]
    obtain r2 s2 where s2: "m s1 = (r2, s2)" by (cases "m s1")
    obtain extra where e: "saves s2 = extra @ saves s1" "fst ` set extra \<subseteq> names"
      using stacksD [OF stack, of s1] s2 by auto
    have kept: "?ok s'" if "saves s' = saves s2" for s'
      using that e top by (intro exI [of _ "extra @ [(n, snapshot_of s)]"]) auto
    have top1: "saves s1 = (n, snapshot_of s) # saves s" using top by simp
    show ?thesis
    proof (cases r2)
      case (Inl e2)
      obtain r3 s3 where s3: "exec (RollbackTo n) s2 = (r3, s3)" by (cases "exec (RollbackTo n) s2")
      show ?thesis
      proof (cases r3)
        case (Inl e3)
        have "snd (guarded n m f g look h y s) = s3"
          using s1 s2 s3 Inr Inl \<open>r2 = Inl e2\<close> by (simp add: guarded_def attempt_def fail_def)
        moreover have "saves s3 = saves s2"
          using s3 Inl exec_Inl_saves by simp
        ultimately show ?thesis using kept [of s3] by simp
      next
        case (Inr z)
        have "snd (guarded n m f g look h y s) = snd (look e2 s3)"
          using s1 s2 s3 \<open>r1 = Inr x\<close> Inr \<open>r2 = Inl e2\<close> by (simp add: guarded_def attempt_def)
        moreover have "saves (snd (look e2 s3)) = saves s3" using assms unfolding observes_def by blast
        moreover have "saves s3 = (n, snapshot_of s) # saves s"
          using rolled_back [OF s2 top1 s3 [unfolded Inr]] by simp
        ultimately show ?thesis by (intro exI [of _ "[(n, snapshot_of s)]"]) simp
      qed
    next
      case (Inr z)
      obtain r3 s3 where s3: "exec (Release n) s2 = (r3, s3)" by (cases "exec (Release n) s2")
      have g: "snd (guarded n m f g look h y s) = s3"
        using s1 s2 s3 \<open>r1 = Inr x\<close> Inr by (cases r3) (simp_all add: guarded_def attempt_def fail_def ret_def)
      show ?thesis
      proof (cases r3)
        case (Inl e3)
        have "saves s3 = saves s2"
          using s3 Inl exec_Inl_saves by simp
        with kept [of s3] g show ?thesis by simp
      next
        case (Inr z')
        have "saves s3 = saves s" using released [OF s2 top1 s3 [unfolded Inr]] by simp
        with g show ?thesis by (intro exI [of _ "[]"]) simp
      qed
    qed
  qed
qed

text \<open>In a session nothing goes wrong in, both ways out are known to the last field.\<close>

lemma guarded_done:
  assumes "healthy s" and "m (s\<lparr>saves := (n, snapshot_of s) # saves s\<rparr>) = (Inr x, s2)" and "healthy s2"
  shows "guarded n m f g look h y s = (Inr (y x), s2\<lparr>saves := saves s\<rparr>)"
  using assms(2) in_reach [OF assms(2)]
  by (simp add: guarded_def attempt_def savepoint_healthy [OF assms(1)] exec_healthy [OF assms(3)]
      release_def ret_def)

lemma guarded_undone:
  assumes "healthy s" and "m (s\<lparr>saves := (n, snapshot_of s) # saves s\<rparr>) = (Inl e, s2\<lparr>failed := True\<rparr>)"
    and "healthy s2"
  shows "guarded n m f g look h y s =
    look e (s2\<lparr>work := work s, pending := pending s, modes := modes s,
      saves := (n, snapshot_of s) # saves s\<rparr>)"
proof (cases s2)
  case (fields w p t st f l ro ct nw np us dr fl)
  show ?thesis
    using assms(2) rollback_works [OF assms(2)] healthyD [OF assms(3)]
    by (simp add: guarded_def attempt_def savepoint_healthy [OF assms(1)] restore_def snapshot_of_def fields)
qed

end

end
