(* ===== verification/Samples.thy ===== *)
theory Samples
  imports Savepoints
begin

text \<open>
  Concrete inputs the development's theorems are tried on: a database made with the locale
  \<^verbatim>\<open>C\<close>, empty, and a transaction on it that nothing goes wrong in.
\<close>

definition c_locale :: ctype where
  "c_locale = \<lparr>u_space = (\<lambda>r. False), u_cntrl = (\<lambda>r. False), u_graph = (\<lambda>r. False), collate_le = bytes_le\<rparr>"

definition quiet :: circumstances where
  "quiet = \<lparr>c_now = 1000, c_ids = (\<lambda>n. word_of_nat (Suc n)), c_faults = []\<rparr>"

definition database_of :: "book \<Rightarrow> database" where
  "database_of b = \<lparr>db_ctype = c_locale, db_book = b, db_next_posting = Suc (length (postings b))\<rparr>"

definition quiet_session :: "book \<Rightarrow> session" where
  "quiet_session b = begin_tx False quiet (database_of b)"

lemma quiet_healthy [simp]: "healthy (quiet_session b)"
  by (simp add: quiet_session_def begin_tx_def healthy_def quiet_def)

lemma quiet_readable [simp]: "readable (quiet_session b)"
  by (rule healthy_readable) simp

lemma quiet_frame [simp]:
  "work (quiet_session b) = b" "pending (quiet_session b) = []" "saves (quiet_session b) = []"
  "modes (quiet_session b) = (\<lambda>t. False)" "ctype_of (quiet_session b) = c_locale"
  "drawn (quiet_session b) = 0" "now (quiet_session b) = 1000"
  "uuid_supply (quiet_session b) = (\<lambda>n. word_of_nat (Suc n))"
  "next_posting (quiet_session b) = Suc (length (postings b))"
  by (simp_all add: quiet_session_def begin_tx_def quiet_def database_of_def)

text \<open>A chart of three accounts, two in one currency and one in another.\<close>

definition sample_account :: "nat \<Rightarrow> gostr \<Rightarrow> account_kind \<Rightarrow> gostr \<Rightarrow> account_row" where
  "sample_account i c k cur =
     \<lparr>acc_id = word_of_nat (100 + i), acc_code = c, acc_name = ''Name'', acc_kind = k,
      acc_currency = cur, acc_created = 0\<rparr>"

definition sample_book :: book where
  "sample_book = empty_book\<lparr>accounts :=
     [sample_account 0 ''assets.cash'' Asset ''USD'', sample_account 1 ''equity'' Equity ''USD'',
      sample_account 2 ''assets.bank'' Asset ''EUR'']\<rparr>"

lemma sample_book_wf: "wf_book c_locale sample_book"
  by code_simp

lemma sample_consistent: "consistent c_locale sample_book"
  by (simp add: consistent_def sample_book_wf) (simp add: sample_book_def empty_book_def)

end
