(* ===== verification/Accounts.thy ===== *)
theory Accounts
  imports Samples
begin

text \<open>
  \<^verbatim>\<open>internal/ledger/accounts.go\<close>, with \<^verbatim>\<open>accountKinds\<close> of \<^verbatim>\<open>balance.go\<close> it calls: adding an
  account to the chart under a savepoint, and what a refusal of the schema is turned into.
  The theory shows exactly what \<open>open_account\<close> answers and leaves behind in a session nothing
  goes wrong in, and that under any fault a refused open leaves no trace in a usable one.
\<close>

section \<open>Opening an account\<close>

record account =
  ac_code :: gostr
  ac_name :: gostr
  ac_kind :: gostr
  ac_currency :: gostr

definition open_savepoint :: gostr where
  "open_savepoint = ''ledger_open''"

text \<open>A \<open>refusal\<close>: who holds the code, as the pieces it is written with, and the kinds there are.\<close>

record refusal =
  rf_holder :: "part list"
  rf_kinds :: "gostr list"

definition no_refusal :: refusal where
  "no_refusal = \<lparr>rf_holder = [], rf_kinds = []\<rparr>"

text \<open>\<^verbatim>\<open>SELECT unnest(enum_range(NULL::account_kind))::text\<close>.\<close>

definition account_kinds :: "gostr list act" where
  "account_kinds = query (\<lambda>s. Inr (map kind_text enum_range))"

text \<open>A row or none, the way \<^verbatim>\<open>QueryRowContext\<close> and \<^verbatim>\<open>Scan\<close> answer it.\<close>

definition scan_row :: "'a option \<Rightarrow> 'a act" where
  "scan_row v = (case v of None \<Rightarrow> fail (Sentinel ErrNoRows) | Some x \<Rightarrow> ret x)"

definition query_row :: "(session \<Rightarrow> pg_error + 'a option) \<Rightarrow> 'a act" where
  "query_row f = attempt (query f) fail scan_row"

definition holder_query :: "gostr \<Rightarrow> session \<Rightarrow> pg_error + account_row option" where
  "holder_query c s = (if \<not> text_ok c then Inl bad_text else Inr (account_with_code (work s) c))"

definition holder_text :: "account_row \<Rightarrow> part list" where
  "holder_text r =
     [Quo (shown (acc_name r)), Txt '' ('', Txt (kind_text (acc_kind r)), Txt '', '', Txt (acc_currency r), Txt '')'']"

definition holder_of :: "gostr \<Rightarrow> part list act" where
  "holder_of c = attempt (query_row (holder_query c)) (\<lambda>e. ret []) (\<lambda>r. ret (holder_text r))"

definition second_look :: "err \<Rightarrow> account \<Rightarrow> refusal act" where
  "second_look e a =
     (if sqlstate e = ''23505'' then
        attempt (holder_of (ac_code a)) fail (\<lambda>h. ret (no_refusal\<lparr>rf_holder := h\<rparr>))
      else if sqlstate e = ''22P02'' then
        attempt account_kinds (\<lambda>e. ret no_refusal) (\<lambda>ks. ret (no_refusal\<lparr>rf_kinds := ks\<rparr>))
      else ret no_refusal)"

definition classify_open :: "err \<Rightarrow> account \<Rightarrow> refusal \<Rightarrow> err" where
  "classify_open e a look =
     (case as_pg e of
        None \<Rightarrow> Errorf [Txt ''open account '', Quo (shown (ac_code a)), Txt '': '', Cause e]
      | Some p \<Rightarrow>
          if pg_code p = ''23505'' then
            (if rf_holder look = []
             then Errorf [Cause (Sentinel ErrAccountExists), Txt '': '', Quo (shown (ac_code a)),
                    Txt '' is taken: '', Cause (PgErr p)]
             else Errorf ([Cause (Sentinel ErrAccountExists), Txt '': '', Quo (shown (ac_code a)),
                    Txt '' is held by ''] @ rf_holder look @ [Txt '': '', Cause (PgErr p)]))
          else if pg_code p = ''22P02'' then UnknownKindErr (ac_kind a) (rf_kinds look) (Some (PgErr p))
          else Errorf [Cause (Sentinel ErrRejected), Txt '': code '', Quo (shown (ac_code a)),
                 Txt '', name '', Quo (shown (ac_name a)), Txt '', kind '', Quo (shown (ac_kind a)),
                 Txt '', currency '', Quo (shown (ac_currency a)), Txt '': '', Cause (PgErr p)])"

definition open_account :: "account \<Rightarrow> unit act" where
  "open_account a =
     attempt (exec (Savepoint open_savepoint)) (\<lambda>e. fail (wrapped ''savepoint'' e)) (\<lambda>_.
     attempt (exec (InsertAccount (ac_code a) (ac_name a) (ac_kind a) (ac_currency a)))
       (\<lambda>e. attempt (exec (RollbackTo open_savepoint))
              (\<lambda>rb. fail (Joined [classify_open e a no_refusal, wrapped ''rollback to savepoint'' rb]))
              (\<lambda>_. attempt (second_look e a) fail (\<lambda>look. fail (classify_open e a look))))
       (\<lambda>_. attempt (exec (Release open_savepoint)) (\<lambda>e. fail (wrapped ''release savepoint'' e))
              (\<lambda>_. ret ())))"

section \<open>Touching the session through statements only\<close>

lemma via_scan_row [via_intros]: "via A (scan_row v)"
  unfolding scan_row_def by (intro via_intros)

lemma via_query_row [via_intros]: "via A (query_row f)"
  unfolding query_row_def by (intro via_intros)

lemma via_account_kinds [via_intros]: "via A account_kinds"
  unfolding account_kinds_def by (intro via_intros)

lemma via_holder_of [via_intros]: "via A (holder_of c)"
  unfolding holder_of_def by (intro via_intros)

lemma via_second_look [via_intros]: "via A (second_look e a)"
  unfolding second_look_def by (intro via_intros)

lemma via_open [via_intros]: "via issued (open_account a)"
  unfolding open_account_def by (intro via_intros) simp_all

section \<open>In a session nothing goes wrong in\<close>

lemma query_row_readable:
  "readable s \<Longrightarrow> query_row f s =
     (case f s of
        Inl p \<Rightarrow> (Inl (PgErr p), s\<lparr>failed := True\<rparr>)
      | Inr None \<Rightarrow> (Inl (Sentinel ErrNoRows), s)
      | Inr (Some x) \<Rightarrow> (Inr x, s))"
  by (simp add: query_row_def attempt_def query_readable fail_def ret_def scan_row_def
      split: sum.split option.split)

lemmas query_row_healthy = query_row_readable [OF healthy_readable]

lemma account_kinds_readable:
  "readable s \<Longrightarrow> account_kinds s = (Inr (map kind_text enum_range), s)"
  by (simp add: account_kinds_def query_readable)

lemmas account_kinds_healthy = account_kinds_readable [OF healthy_readable]

text \<open>What a second look finds, as a function of the book.\<close>

definition look_at :: "book \<Rightarrow> pg_error \<Rightarrow> account \<Rightarrow> refusal" where
  "look_at b p a =
     (if pg_code p = ''23505'' then
        (case account_with_code b (ac_code a) of
           None \<Rightarrow> no_refusal
         | Some r \<Rightarrow> no_refusal\<lparr>rf_holder := holder_text r\<rparr>)
      else if pg_code p = ''22P02'' then no_refusal\<lparr>rf_kinds := map kind_text enum_range\<rparr>
      else no_refusal)"

lemma sqlstate_pg [simp]: "sqlstate (PgErr p) = pg_code p"
  by (simp add: sqlstate_def as_pg_def)

lemma second_look_healthy:
  assumes "healthy s" and "pg_code p = ''23505'' \<Longrightarrow> text_ok (ac_code a)"
  shows "second_look (PgErr p) a s = (Inr (look_at (work s) p a), s)"
  using assms
  by (simp add: second_look_def look_at_def holder_of_def attempt_def query_row_healthy holder_query_def
      account_kinds_healthy ret_def no_refusal_def split: option.split)

lemma insert_account_refusals:
  assumes "insert_account ct u t code name kind currency b = Inl p"
  shows "pg_code p \<in> {''22021'', ''22P02'', ''23514'', ''23505''}" and
    "pg_code p = ''23505'' \<Longrightarrow> text_ok code \<and>
       (u \<in> acc_id ` set (accounts b) \<or> code \<in> acc_code ` set (accounts b))" and
    "pg_code p = ''22P02'' \<longleftrightarrow> text_ok code \<and> text_ok name \<and> text_ok kind \<and> kind_in kind = None"
  using assms
  by (auto simp: insert_account_def account_refusal_def check_violation_def unique_violation_def
      server_refusal_def Let_def split: if_splits option.splits)

interpretation open_work: savepoint_body open_savepoint "{}" "exec (InsertAccount c n k cur)" for c n k cur
  by unfold_locales (auto intro: stack_intros)

lemma open_guarded:
  "open_account a =
     guarded open_savepoint (exec (InsertAccount (ac_code a) (ac_name a) (ac_kind a) (ac_currency a)))
       (wrapped ''savepoint'')
       (\<lambda>e rb. Joined [classify_open e a no_refusal, wrapped ''rollback to savepoint'' rb])
       (\<lambda>e. attempt (second_look e a) fail (\<lambda>look. fail (classify_open e a look)))
       (wrapped ''release savepoint'') (\<lambda>_. ())"
  by (simp add: open_account_def guarded_def)

lemma open_account_healthy:
  assumes "healthy s"
  defines "u \<equiv> uuid_supply s (drawn s)"
  shows "open_account a s =
    (case insert_account (ctype_of s) u (now s) (ac_code a) (ac_name a) (ac_kind a) (ac_currency a) (work s) of
       Inr b \<Rightarrow> (Inr (), s\<lparr>drawn := Suc (drawn s), work := b\<rparr>)
     | Inl p \<Rightarrow> (Inl (classify_open (PgErr p) a (look_at (work s) p a)),
                 s\<lparr>drawn := Suc (drawn s), saves := (open_savepoint, snapshot_of s) # saves s\<rparr>))"
    (is "_ = (case ?ins of Inr b \<Rightarrow> _ | Inl p \<Rightarrow> _)")
proof -
  let ?s1 = "s\<lparr>saves := (open_savepoint, snapshot_of s) # saves s\<rparr>"
  let ?m = "exec (InsertAccount (ac_code a) (ac_name a) (ac_kind a) (ac_currency a))"
  have h1: "healthy ?s1" using assms(1) by simp
  show ?thesis
  proof (cases ?ins)
    case (Inr b)
    have "?m ?s1 = (Inr '''', ?s1\<lparr>drawn := Suc (drawn s), work := b\<rparr>)"
      using Inr by (simp add: exec_healthy [OF h1] draw_def write_rows_def u_def)
    from open_work.guarded_done [OF assms(1) this] Inr assms(1) show ?thesis
      by (simp add: open_guarded)
  next
    case (Inl p)
    let ?s3 = "s\<lparr>drawn := Suc (drawn s), saves := (open_savepoint, snapshot_of s) # saves s\<rparr>"
    have "?m ?s1 = (Inl (PgErr p), ?s3\<lparr>failed := True\<rparr>)"
      using Inl by (simp add: exec_healthy [OF h1] draw_def write_rows_def u_def)
    from open_work.guarded_undone [OF assms(1) this] assms(1)
    have "open_account a s =
        attempt (second_look (PgErr p) a) fail (\<lambda>look. fail (classify_open (PgErr p) a look)) ?s3"
      by (simp add: open_guarded)
    moreover have "second_look (PgErr p) a ?s3 = (Inr (look_at (work ?s3) p a), ?s3)"
      by (rule second_look_healthy) (use assms(1) insert_account_refusals(2) [OF Inl] in simp_all)
    ultimately show ?thesis using Inl by (simp add: attempt_def fail_def)
  qed
qed

section \<open>Which accounts the chart takes\<close>

text \<open>
  The contract in the client's terms: an account is opened when its text is fit to store, its
  kind is one of the five, its currency, code and name pass their CHECKs and nobody holds the
  code; otherwise exactly one sentinel says why.
\<close>

definition open_verdict :: "ctype \<Rightarrow> book \<Rightarrow> account \<Rightarrow> sentinel option" where
  "open_verdict ct b a =
     (if \<not> text_ok (ac_code a) \<or> \<not> text_ok (ac_name a) \<or> \<not> text_ok (ac_kind a) then Some ErrRejected
      else if kind_in (ac_kind a) = None then Some ErrUnknownKind
      else if \<not> text_ok (ac_currency a) \<or> \<not> code_check (ac_code a) \<or> \<not> currency_check (ac_currency a)
              \<or> \<not> name_check ct (ac_name a) then Some ErrRejected
      else if account_with_code b (ac_code a) \<noteq> None then Some ErrAccountExists
      else None)"

definition open_sentinels :: "sentinel set" where
  "open_sentinels = {ErrRejected, ErrUnknownKind, ErrAccountExists}"

lemma account_with_code_None: "account_with_code b c = None \<longleftrightarrow> c \<notin> acc_code ` set (accounts b)"
  by (auto simp: account_with_code_def find_None_iff)

lemma account_with_codeD: "account_with_code b c = Some r \<Longrightarrow> r \<in> set (accounts b) \<and> acc_code r = c"
  by (auto simp: account_with_code_def dest: find_SomeD)

lemma insert_account_verdict:
  assumes "u \<notin> acc_id ` set (accounts b)"
  shows "(case insert_account ct u t (ac_code a) (ac_name a) (ac_kind a) (ac_currency a) b of
       Inr b' \<Rightarrow> open_verdict ct b a = None
     | Inl p \<Rightarrow> open_verdict ct b a =
         Some (if pg_code p = ''23505'' then ErrAccountExists
               else if pg_code p = ''22P02'' then ErrUnknownKind else ErrRejected))"
  using assms
  by (auto simp: insert_account_def account_refusal_def open_verdict_def Let_def account_with_code_None
      check_violation_def unique_violation_def server_refusal_def split: option.split)

lemma holder_silent: "part \<in> set (rf_holder (look_at b p a)) \<Longrightarrow> part_tree part = []"
  by (auto simp: look_at_def holder_text_def no_refusal_def split: if_splits option.splits)

lemma classify_open_tree:
  "errors_is (classify_open (PgErr p) a (look_at b p a)) x \<longleftrightarrow>
     x = (if pg_code p = ''23505'' then ErrAccountExists
          else if pg_code p = ''22P02'' then ErrUnknownKind else ErrRejected)"
  using holder_silent [of _ b p a]
  by (auto simp: classify_open_def errors_is_def as_pg_def)

text \<open>
  C9. \<open>Open\<close> in a session nothing goes wrong in.  It answers success exactly for an account the
  contract accepts, and then the account is in the chart; for any other the error is the one
  sentinel the contract names and no other, and an unknown kind comes with the kind given and
  all five there are.
\<close>

theorem open_verdict_decides:
  assumes "healthy s" and "uuid_supply s (drawn s) \<notin> acc_id ` set (accounts (work s))"
  shows "case open_account a s of
      (Inr u, s') \<Rightarrow> open_verdict (ctype_of s) (work s) a = None \<and>
         (\<exists>r. accounts (work s') = accounts (work s) @ [r] \<and> acc_code r = ac_code a \<and>
           acc_name r = ac_name a \<and> kind_text (acc_kind r) = ac_kind a \<and> acc_currency r = ac_currency a)
    | (Inl e, s') \<Rightarrow>
         (\<forall>x. errors_is e x \<longleftrightarrow> open_verdict (ctype_of s) (work s) a = Some x) \<and>
         as_unknown_kind e = (if open_verdict (ctype_of s) (work s) a = Some ErrUnknownKind
           then Some (ac_kind a, map kind_text enum_range) else None)"
proof (cases "insert_account (ctype_of s) (uuid_supply s (drawn s)) (now s) (ac_code a) (ac_name a)
    (ac_kind a) (ac_currency a) (work s)")
  case (Inr b)
  with insert_account_verdict [OF assms(2), where a = a and ct = "ctype_of s" and t = "now s"] show ?thesis
    by (auto simp: open_account_healthy [OF assms(1)] dest: insert_accountD)
next
  case (Inl p)
  have "as_unknown_kind (classify_open (PgErr p) a (look_at (work s) p a)) =
      (if pg_code p = ''22P02'' then Some (ac_kind a, map kind_text enum_range) else None)"
    using holder_silent [of _ "work s" p a]
    by (auto simp: classify_open_def as_pg_def as_unknown_kind_def look_at_def no_refusal_def
        holder_text_def split: option.split)
  with Inl insert_account_verdict [OF assms(2), where a = a and ct = "ctype_of s" and t = "now s"] show ?thesis
    by (auto simp: open_account_healthy [OF assms(1)] classify_open_tree)
qed

definition sample_request :: account where
  "sample_request = \<lparr>ac_code = ''liabilities.card'', ac_name = ''Card'', ac_kind = ''liability'', ac_currency = ''USD''\<rparr>"

theorem open_verdict_decides_witness:
  "open_verdict c_locale sample_book sample_request = None \<and>
   (case open_account (sample_request\<lparr>ac_kind := ''asse''\<rparr>) (quiet_session sample_book) of
      (Inr u, s') \<Rightarrow> False
    | (Inl e, s') \<Rightarrow> errors_is e ErrUnknownKind \<and>
        as_unknown_kind e = Some (''asse'', map kind_text enum_range))"
proof -
  have v: "open_verdict c_locale sample_book sample_request = None"
    "open_verdict c_locale sample_book (sample_request\<lparr>ac_kind := ''asse''\<rparr>) = Some ErrUnknownKind"
    by code_simp+
  have f: "uuid_supply (quiet_session sample_book) (drawn (quiet_session sample_book)) \<notin> acc_id ` set (accounts (work (quiet_session sample_book)))"
    by simp code_simp
  show ?thesis
    using open_verdict_decides [OF quiet_healthy f, of "sample_request\<lparr>ac_kind := ''asse''\<rparr>"] v
    by (auto simp: sample_request_def split: prod.splits sum.splits)
qed

section \<open>Under any fault\<close>

lemma observes_second_look: "observes (second_look e a)"
  unfolding second_look_def holder_of_def query_row_def scan_row_def account_kinds_def
  by (intro observe_intros)

text \<open>
  Whatever goes wrong while an account is opened, an \<open>Open\<close> that answers an error in a
  session that can still be used has left the book, the waiting checks and their modes as it
  found them.
\<close>

theorem refused_open_leaves_nothing:
  assumes "open_account a s = (Inl e, s')" and "usable s'"
  shows "untouched s s'"
  using assms unfolding open_guarded
  by (rule open_work.guarded_refused) (intro observe_intros observes_second_look)

theorem refused_open_leaves_nothing_witness:
  "\<exists>e s'. open_account (sample_request\<lparr>ac_kind := ''asse''\<rparr>) (quiet_session sample_book) = (Inl e, s') \<and>
     usable s' \<and> untouched (quiet_session sample_book) s'"
proof -
  let ?a = "sample_request\<lparr>ac_kind := ''asse''\<rparr>"
  have "\<exists>p. insert_account c_locale 1 1000 (ac_code ?a) (ac_name ?a) (ac_kind ?a) (ac_currency ?a) sample_book = Inl p"
    by (auto simp: insert_account_def sample_request_def kind_in_def enum_range_def)
  then obtain e where e: "open_account ?a (quiet_session sample_book) = (Inl e, (quiet_session sample_book)
      \<lparr>drawn := Suc (drawn (quiet_session sample_book)),
       saves := (open_savepoint, snapshot_of (quiet_session sample_book)) # saves (quiet_session sample_book)\<rparr>)"
    using open_account_healthy [OF quiet_healthy, of ?a sample_book] by auto
  moreover have u: "usable ((quiet_session sample_book)\<lparr>drawn := Suc (drawn (quiet_session sample_book)),
       saves := (open_savepoint, snapshot_of (quiet_session sample_book)) # saves (quiet_session sample_book)\<rparr>)"
    using healthyD [OF quiet_healthy, of sample_book] by (simp add: usable_def)
  ultimately show ?thesis using refused_open_leaves_nothing [OF e u] by blast
qed

end
