(* ===== verification/Entries.thy ===== *)
theory Entries
  imports Accounts
begin

text \<open>
  \<^verbatim>\<open>internal/ledger/ledger.go\<close>: writing an entry and reading one back.  \<open>post_inner\<close> is the
  work, \<open>post\<close> the work under its savepoint.  The theory gives the contract in the client's
  terms (\<open>entry_verdict\<close>) and shows that \<open>post\<close> decides it, in the order the code finds things
  out; that what it wrote is what \<open>entry_of\<close> reads back; and that a refusal leaves no trace.
\<close>

section \<open>Entries\<close>

record leg =
  lg_account :: gostr
  lg_amount :: int64

text \<open>
  A \<^verbatim>\<open>time.Time\<close> is its instant, in nanoseconds from the zero time; a \<^verbatim>\<open>timestamptz\<close> column
  keeps whole microseconds of it.
\<close>

type_synonym instant = int

definition time_is_zero :: "instant \<Rightarrow> bool" where
  "time_is_zero t \<longleftrightarrow> t = 0"

definition timestamptz :: "instant \<Rightarrow> instant" where
  "timestamptz t = 1000 * (t div 1000)"

record entry =
  en_currency :: gostr
  en_description :: gostr
  en_legs :: "leg list"
  en_occurred :: instant

definition entry_net :: "entry \<Rightarrow> minor \<times> int" where
  "entry_net e = (net_of (map lg_amount (en_legs e)), int (length (en_legs e)))"

definition balance_constraints :: "deferred_trigger list" where
  "balance_constraints = [TransactionsMustBalance, BalanceChecksMustBalance]"

definition post_savepoint :: gostr where
  "post_savepoint = ''ledger_post''"

definition no_leg :: leg where
  "no_leg = \<lparr>lg_account = '''', lg_amount = 0\<rparr>"

section \<open>What a refusal is turned into\<close>

definition unbalanced :: "entry \<Rightarrow> pg_error \<Rightarrow> err" where
  "unbalanced e p =
     (case entry_net e of (net, legs) \<Rightarrow>
        if legs = 0 then
          Errorf [Cause (Sentinel ErrUnbalanced),
            Txt '': the entry carried no postings, and an entry needs at least two that cancel: '',
            Cause (PgErr p)]
        else
          Errorf [Cause (Sentinel ErrUnbalanced), Txt '': '', Txt (postings_of legs), Txt '' in '',
            Txt (shown (en_currency e)), Txt '' net to '', Txt (minor_string net),
            Txt '' minor units, want 0: '', Cause (PgErr p)])"

definition leg_err :: "int \<Rightarrow> leg \<Rightarrow> sentinel \<Rightarrow> pg_error \<Rightarrow> err" where
  "leg_err i l reason p =
     LegErr \<lparr>lf_index = i, lf_account = lg_account l, lf_amount = lg_amount l, lf_holds = ''''\<rparr>
       (Errorf [Cause (Sentinel reason), Txt '': '', Cause (PgErr p)])"

definition classify :: "err \<Rightarrow> entry \<Rightarrow> int \<Rightarrow> leg \<Rightarrow> err" where
  "classify x e i l =
     (case as_pg x of
        None \<Rightarrow> x
      | Some p \<Rightarrow>
          if pg_code p = ''LB001'' then unbalanced e p
          else if pg_code p = ''23502'' \<and> pg_column p = ''account_id'' then leg_err i l ErrUnknownAccount p
          else if pg_code p = ''23503'' \<and> contains ''transaction_id'' (pg_constraint p)
            then leg_err i l ErrCurrencyMismatch p
          else if 0 \<le> i then leg_err i l ErrRejected p
          else Errorf [Cause (Sentinel ErrRejected), Txt '': currency '', Quo (shown (en_currency e)),
                 Txt '', description '', Quo (shown (en_description e)), Txt '', over '',
                 Txt (postings_of (int (length (en_legs e)))), Txt '': '', Cause (PgErr p)])"

text \<open>
  \<^verbatim>\<open>explain\<close> answers an error to return: here it returns it.  \<^verbatim>\<open>errors.As\<close> finds the first
  \<^verbatim>\<open>LegError\<close> of the error and \<^verbatim>\<open>errors.Is\<close> asks the whole of it.
\<close>

definition holds_query :: "gostr \<Rightarrow> session \<Rightarrow> pg_error + gostr option" where
  "holds_query c s =
     (if \<not> text_ok c then Inl bad_text else Inr (map_option acc_currency (account_with_code (work s) c)))"

definition explain :: "err \<Rightarrow> entry \<Rightarrow> gostr act" where
  "explain x e =
     (case as_leg x of
        None \<Rightarrow> fail x
      | Some l \<Rightarrow>
          if \<not> errors_is x ErrCurrencyMismatch then fail x
          else case as_pg x of
            None \<Rightarrow> fail x
          | Some p \<Rightarrow>
              attempt (query_row (holds_query (lf_account l))) (\<lambda>_. fail x) (\<lambda>held.
                fail (LegErr \<lparr>lf_index = lf_index l, lf_account = lf_account l,
                              lf_amount = lf_amount l, lf_holds = held\<rparr>
                  (Errorf [Cause (Sentinel ErrCurrencyMismatch), Txt '': '', Txt (lf_account l),
                     Txt '' holds '', Txt held, Txt '' and the entry is in '',
                     Txt (shown (en_currency e)), Txt '': '', Cause (PgErr p)]))))"

section \<open>Posting\<close>

fun insert_legs :: "gostr \<Rightarrow> entry \<Rightarrow> int \<Rightarrow> leg list \<Rightarrow> unit act" where
  "insert_legs idt e i [] = ret ()"
| "insert_legs idt e i (l # ls) =
     attempt (exec (InsertLeg idt (lg_account l) (lg_amount l)))
       (\<lambda>x. fail (classify x e i l))
       (\<lambda>_. insert_legs idt e (i + 1) ls)"

definition occurred_at :: "entry \<Rightarrow> instant option" where
  "occurred_at e = (if time_is_zero (en_occurred e) then None else Some (timestamptz (en_occurred e)))"

definition post_inner :: "entry \<Rightarrow> gostr act" where
  "post_inner e =
     attempt (exec (SetConstraints balance_constraints False))
       (\<lambda>x. fail (wrapped ''defer the balance check'' x)) (\<lambda>_.
     attempt (exec (InsertTransaction (en_currency e) (en_description e) (occurred_at e)))
       (\<lambda>x. fail (classify x e (- 1) no_leg)) (\<lambda>idt.
     attempt (insert_legs idt e 0 (en_legs e)) fail (\<lambda>_.
     attempt (exec (SetConstraints balance_constraints True))
       (\<lambda>x. fail (classify x e (- 1) no_leg)) (\<lambda>_.
     attempt (exec (SetConstraints balance_constraints False))
       (\<lambda>x. fail (wrapped ''re-defer the balance check'' x)) (\<lambda>_.
     ret idt)))))"

definition post :: "entry \<Rightarrow> gostr act" where
  "post e =
     attempt (exec (Savepoint post_savepoint)) (\<lambda>x. fail (wrapped ''savepoint'' x)) (\<lambda>_.
     attempt (post_inner e)
       (\<lambda>x. attempt (exec (RollbackTo post_savepoint))
              (\<lambda>rb. fail (Joined [x, wrapped ''rollback to savepoint'' rb]))
              (\<lambda>_. explain x e))
       (\<lambda>idt. attempt (exec (Release post_savepoint)) (\<lambda>x. fail (wrapped ''release savepoint'' x))
              (\<lambda>_. ret idt)))"

section \<open>Reading an entry back\<close>

definition id_shape :: gostr where
  "id_shape = ''the uuid POST /v1/transactions answered with''"

definition transaction_query :: "gostr \<Rightarrow> session \<Rightarrow> pg_error + transaction_row option" where
  "transaction_query idt s =
     (if \<not> text_ok idt then Inl bad_text
      else case uuid_in idt of
        None \<Rightarrow> Inl bad_cast
      | Some u \<Rightarrow> Inr (List.find (\<lambda>t. txn_id t = u) (transactions (work s))))"

definition legs_joined :: "book \<Rightarrow> uuid \<Rightarrow> leg list" where
  "legs_joined b u =
     [\<lparr>lg_account = acc_code a, lg_amount = pst_amount p\<rparr>.
        p \<leftarrow> sort_key pst_id (legs_of b u), a \<leftarrow> accounts b, acc_id a = pst_account p]"

definition legs_query :: "gostr \<Rightarrow> session \<Rightarrow> pg_error + leg list" where
  "legs_query held s =
     (case uuid_in held of None \<Rightarrow> Inl bad_cast | Some u \<Rightarrow> Inr (legs_joined (work s) u))"

definition entry_of :: "gostr \<Rightarrow> (gostr \<times> entry) act" where
  "entry_of idt =
     attempt (query_row (transaction_query idt))
       (\<lambda>x. fail
          (if errors_is x ErrNoRows
           then Errorf [Cause (Sentinel ErrUnknownTransaction), Txt '': '', Quo (shown idt)]
           else if sqlstate x = ''22P02''
           then Errorf [Cause (Sentinel ErrBadTransactionID), Txt '': '', Quo (shown idt),
                  Txt '' is not '', Txt id_shape, Txt '': '', Cause x]
           else Errorf [Txt ''read transaction '', Txt idt, Txt '': '', Cause x]))
       (\<lambda>t. let held = uuid_out (txn_id t) in
          attempt (query (legs_query held))
            (\<lambda>x. fail (Errorf [Txt ''read the legs of '', Txt held, Txt '': '', Cause x]))
            (\<lambda>legs. ret (held, \<lparr>en_currency = txn_currency t, en_description = txn_description t,
                                en_legs = legs, en_occurred = txn_occurred t\<rparr>)))"

section \<open>Touching the session through statements only\<close>

lemma via_explain [via_intros]: "via A (explain x e)"
  unfolding explain_def by (intro via_intros)

lemma via_insert_legs [via_intros]: "via issued (insert_legs idt e i ls)"
  by (induction ls arbitrary: i) (auto intro!: via_intros)

lemma via_post_inner [via_intros]: "via issued (post_inner e)"
  unfolding post_inner_def by (intro via_intros) simp_all

lemma via_post [via_intros]: "via issued (post e)"
  unfolding post_def by (intro via_intros) simp_all

lemma via_entry_of [via_intros]: "via A (entry_of idt)"
  unfolding entry_of_def Let_def by (intro via_intros)

lemma observes_query_row [observe_intros]: "observes (query_row f)"
  unfolding query_row_def scan_row_def by (intro observe_intros)

lemma observes_explain: "observes (explain x e)"
  unfolding explain_def by (intro observe_intros)

lemma observes_entry_of: "observes (entry_of idt)"
  unfolding entry_of_def Let_def by (intro observe_intros)

lemma refuses_option [faultless_intros]:
  "refuses m \<Longrightarrow> (\<And>x. refuses (k x)) \<Longrightarrow> refuses (case v of None \<Rightarrow> m | Some x \<Rightarrow> k x)"
  by (cases v) auto

lemma refuses_explain [faultless_intros]: "refuses (explain x e)"
  unfolding explain_def by (intro faultless_intros)

lemma stacks_insert_legs [stack_intros]: "stacks ns (insert_legs idt e i ls)"
  by (induction ls arbitrary: i) (auto intro!: stack_intros)

lemma faultless_insert_legs [faultless_intros]: "faultless (insert_legs idt e i ls)"
  by (induction ls arbitrary: i) (auto intro!: faultless_intros)

lemma stacks_post_inner: "stacks {} (post_inner e)"
  unfolding post_inner_def by (intro stack_intros) simp_all

interpretation post_work: savepoint_body post_savepoint "{}" "post_inner e" for e
  by unfold_locales (simp_all add: stacks_post_inner)

lemma post_guarded:
  "post e = guarded post_savepoint (post_inner e) (wrapped ''savepoint'')
     (\<lambda>x rb. Joined [x, wrapped ''rollback to savepoint'' rb]) (\<lambda>x. explain x e)
     (wrapped ''release savepoint'') (\<lambda>idt. idt)"
  by (simp add: post_def guarded_def)

lemma faultless_post [faultless_intros]: "faultless (post e)"
  unfolding post_guarded post_inner_def by (intro faultless_guarded faultless_intros)

end
