(* ===== verification/Wire.thy ===== *)
theory Wire
  imports Entries
begin

text \<open>
  What goes over the wire: \<^verbatim>\<open>internal/ledgerhttp/decode.go\<close>, the field helpers of
  \<^verbatim>\<open>transactions.go\<close>, and the bodies and helpers of \<^verbatim>\<open>ledgerhttp.go\<close> every refusal is built
  with.  A request body is the tree the json reader makes of it (or the way that reader gave
  up); a request type is a \<open>gotype\<close>, which is what the code asks \<^verbatim>\<open>reflect\<close> about.  What
  the decoder does is stated in \<open>WireLaws\<close>.
\<close>

section \<open>What the code takes from elsewhere\<close>

text \<open>
  The functions of the standard library the handlers call whose results they do not look into:
  \<^verbatim>\<open>strconv.Quote\<close>, the reading and writing of an RFC 3339 timestamp, a duration's text,
  \<^verbatim>\<open>mime.ParseMediaType\<close> and SHA-256.  A moment is an instant and the
  offset from UTC it was written with, in seconds.
\<close>

type_synonym moment = "instant \<times> int"

record library =
  quote :: "gostr \<Rightarrow> gostr"
  read_time :: "gostr \<Rightarrow> moment option"
  show_time :: "moment \<Rightarrow> gostr option"
  show_duration :: "int \<Rightarrow> gostr"
  media_type :: "gostr \<Rightarrow> gostr option"
  sha256 :: "gostr \<Rightarrow> gostr"

section \<open>The rules, in words\<close>

definition not_blank :: gostr where
  "not_blank = ''at least one that is not a space, a tab or a line break, and no control characters''"

definition amount_shape :: gostr where
  "amount_shape = ''a whole number of minor units, so 100.50 is 10050, from '' @ itoa (- (2 ^ 63)) @ '' to '' @ itoa (2 ^ 63 - 1)"

definition time_shape :: gostr where
  "time_shape = ''an RFC 3339 timestamp, as in 2026-09-07T14:30:00Z''"

definition max_code :: nat where "max_code = 64"

definition max_name :: nat where "max_name = 100"

definition max_description :: nat where "max_description = 500"

definition code_shape :: gostr where
  "code_shape = ''1 to '' @ itoa (int max_code) @
     '' characters: a lower-case letter, then lower-case letters, digits, underscores and dots''"

definition name_shape :: gostr where
  "name_shape = ''1 to '' @ itoa (int max_name) @ '' characters, '' @ not_blank"

definition description_shape :: gostr where
  "description_shape = ''1 to '' @ itoa (int max_description) @ '' characters, '' @ not_blank"

definition docs_home :: gostr where
  "docs_home = ''github.com/mgballou/pacioli '' @ of_runes [8212] @
     '' README.md and docs/DESIGN.md, or run `pacioli --help`''"

section \<open>Bodies of answers\<close>

record bad_field =
  bf_parameter :: gostr
  bf_value :: gostr
  bf_expected :: gostr
  bf_valid :: "gostr list"
  bf_unknown :: bool

record error_body =
  eb_error :: gostr
  eb_code :: gostr
  eb_parameter :: gostr
  eb_value :: gostr
  eb_expected :: gostr
  eb_characters :: int
  eb_valid :: "gostr list"
  eb_fields :: "bad_field list"
  eb_see :: gostr

record posting_body =
  pb_account :: gostr
  pb_amount :: int64

record transaction_body =
  tb_transaction :: gostr
  tb_currency :: gostr
  tb_description :: gostr
  tb_postings :: "posting_body list"

record balance_body =
  bb_account :: gostr
  bb_name :: gostr
  bb_kind :: gostr
  bb_currency :: gostr
  bb_balance :: minor
  bb_postings :: nat

record trial_body =
  yb_currency :: gostr
  yb_debits :: minor
  yb_credits :: minor
  yb_net :: minor
  yb_balanced :: bool
  yb_accounts :: nat
  yb_postings :: nat

record unbalanced_body =
  ub_error :: gostr
  ub_net :: minor
  ub_postings :: int
  ub_expected :: gostr
  ub_see :: gostr

record account_list_body =
  al_accounts :: "balance_body list"
  al_next :: gostr

datatype body =
    Refused error_body
  | Unbalanced unbalanced_body
  | TransactionIs transaction_body
  | BalanceIs balance_body
  | AccountsAre account_list_body
  | TrialIs "trial_body list"

record reply =
  rp_status :: nat
  rp_headers :: "(gostr \<times> gostr) list"
  rp_body :: body

definition json_media_type :: gostr where
  "json_media_type = ''application/json''"

text \<open>\<^verbatim>\<open>errorBody{}\<close>, and one that names the rule and where it is written down.\<close>

definition error_body0 :: error_body where
  "error_body0 = \<lparr>eb_error = '''', eb_code = '''', eb_parameter = '''', eb_value = '''', eb_expected = '''',
     eb_characters = 0, eb_valid = [], eb_fields = [], eb_see = ''''\<rparr>"

definition error_said :: "gostr \<Rightarrow> error_body" where
  "error_said e = error_body0\<lparr>eb_error := e, eb_see := docs_home\<rparr>"

text \<open>
  \<^verbatim>\<open>write\<close>: every answer is json, and says so.  None of the bodies can fail to encode, so the
  branch for one that does is not there; its length, which depends on the encoding alone, is
  not either.
\<close>

definition write_reply :: "(gostr \<times> gostr) list \<Rightarrow> nat \<Rightarrow> body \<Rightarrow> reply" where
  "write_reply hs status v =
     \<lparr>rp_status = status, rp_headers = hs @ [(''Content-Type'', json_media_type)], rp_body = v\<rparr>"

abbreviation refuse_with :: "nat \<Rightarrow> error_body \<Rightarrow> reply" where
  "refuse_with status b \<equiv> write_reply [] status (Refused b)"

section \<open>Json, and the types it is read into\<close>

text \<open>
  A string keeps the text between its quotes, which is what a timestamp is read from, beside
  the string that text denotes; a number keeps its literal.
\<close>

datatype json =
    JNull
  | JBool bool
  | JNumber gostr
  | JString gostr gostr
  | JArray "json list"
  | JObject "(gostr \<times> json) list"

text \<open>
  The types the requests are made of.  A field of a struct carries its json tag.  A slice that
  was never made is \<open>VSlice None\<close>.
\<close>

datatype gotype = TString | TInt64 | TTime | TSlice gotype | TStruct "(gostr \<times> gotype) list"

datatype govalue =
    VString gostr
  | VInt64 int64
  | VTime moment
  | VSlice "govalue list option"
  | VStruct "govalue list"

primrec zero_of :: "gotype \<Rightarrow> govalue" where
  "zero_of TString = VString ''''"
| "zero_of TInt64 = VInt64 0"
| "zero_of TTime = VTime (0, 0)"
| "zero_of (TSlice t) = VSlice None"
| "zero_of (TStruct fs) = VStruct (map (\<lambda>p. snd p) (map (map_prod id zero_of) fs))"

text \<open>\<^verbatim>\<open>strings.Cut(tag, ",")\<close>, and which fields a struct takes.\<close>

definition json_name :: "gostr \<Rightarrow> gostr" where
  "json_name tag = takeWhile (\<lambda>c. c \<noteq> CHR '','') tag"

definition tagged :: "gostr \<Rightarrow> bool" where
  "tagged tag \<longleftrightarrow> json_name tag \<noteq> '''' \<and> json_name tag \<noteq> ''-''"

definition json_names_of :: "(gostr \<times> 'a) list \<Rightarrow> gostr list" where
  "json_names_of fs = sort_by bytes_le (map json_name (filter tagged (map fst fs)))"

text \<open>Every name at any depth: \<^verbatim>\<open>jsonFields\<close>, sorted, each once.\<close>

primrec fields_in :: "gotype \<Rightarrow> gostr list" where
  "fields_in TString = []"
| "fields_in TInt64 = []"
| "fields_in TTime = []"
| "fields_in (TSlice t) = fields_in t"
| "fields_in (TStruct fs) =
     concat (map (\<lambda>p. if tagged (fst p) then json_name (fst p) # snd p else []) (map (map_prod id fields_in) fs))"

definition json_fields :: "gotype \<Rightarrow> gostr list" where
  "json_fields t = sort_by bytes_le (remdups (fields_in t))"

definition account_type :: gotype where
  "account_type = TStruct [(''code'', TString), (''name'', TString), (''kind'', TString), (''currency'', TString)]"

definition posting_type :: gotype where
  "posting_type = TStruct [(''account'', TString), (''amount_minor'', TInt64)]"

definition transaction_type :: gotype where
  "transaction_type =
     TStruct [(''currency'', TString), (''description'', TString), (''postings'', TSlice posting_type),
       (''occurred_at'', TTime)]"

definition transaction_fields :: "gostr list" where
  "transaction_fields = json_fields transaction_type"

definition account_fields :: "gostr list" where
  "account_fields = json_fields account_type"

section \<open>Naming a field and what it wanted\<close>

definition under :: "gostr \<Rightarrow> gostr \<Rightarrow> gostr" where
  "under path name = (if path = '''' then name else path @ ''.'' @ name)"

definition leaf :: "gostr \<Rightarrow> gostr" where
  "leaf field = rev (takeWhile (\<lambda>c. c \<noteq> CHR ''.'') (rev field))"

definition shaped :: "gostr \<Rightarrow> gostr option" where
  "shaped = map_of [(''amount_minor'', amount_shape), (''occurred_at'', time_shape)]"

fun json_kind :: "gotype \<Rightarrow> gostr" where
  "json_kind TTime = ''an RFC 3339 timestamp''"
| "json_kind TString = ''string''"
| "json_kind TInt64 = ''a whole number''"
| "json_kind (TSlice t) = ''array''"
| "json_kind (TStruct fs) = ''object''"

definition wants :: "gostr \<Rightarrow> gotype \<Rightarrow> gostr" where
  "wants field t = (case shaped (leaf field) of Some shape \<Rightarrow> shape | None \<Rightarrow> json_kind t)"

fun sent :: "library \<Rightarrow> json \<Rightarrow> gostr" where
  "sent lib (JObject kvs) = ''object''"
| "sent lib (JArray xs) = ''array''"
| "sent lib (JString raw txt) = quote lib (shown txt)"
| "sent lib (JNumber lit) = shown lit"
| "sent lib (JBool v) = shown (if v then ''true'' else ''false'')"
| "sent lib JNull = shown ''null''"

fun is_object :: "json \<Rightarrow> bool" where
  "is_object (JObject kvs) = True"
| "is_object _ = False"

section \<open>Reading\<close>

text \<open>\<^verbatim>\<open>json.Unmarshal\<close> into a type that reads itself.  A null leaves the value as it was.\<close>

definition parse_int64 :: "gostr \<Rightarrow> int64 option" where
  "parse_int64 lit =
     (case set_string lit of
        Some n \<Rightarrow> if - (2 ^ 63) \<le> n \<and> n < 2 ^ 63 then Some (word_of_int n) else None
      | None \<Rightarrow> None)"

fun unmarshal :: "library \<Rightarrow> gotype \<Rightarrow> json \<Rightarrow> govalue option" where
  "unmarshal lib t JNull = Some (zero_of t)"
| "unmarshal lib TString (JString raw txt) = Some (VString txt)"
| "unmarshal lib TInt64 (JNumber lit) = map_option VInt64 (parse_int64 lit)"
| "unmarshal lib TTime (JString raw txt) = map_option VTime (read_time lib raw)"
| "unmarshal lib _ _ = None"

definition bad_shape :: "library \<Rightarrow> gostr \<Rightarrow> json \<Rightarrow> gostr \<Rightarrow> bad_field" where
  "bad_shape lib path raw expected =
     \<lparr>bf_parameter = path, bf_value = sent lib raw, bf_expected = expected, bf_valid = [], bf_unknown = False\<rparr>"

type_synonym reading = "bad_field list \<times> govalue"

definition read_leaf :: "library \<Rightarrow> gotype \<Rightarrow> json \<Rightarrow> gostr \<Rightarrow> reading" where
  "read_leaf lib t raw path =
     (case unmarshal lib t raw of
        None \<Rightarrow> ([bad_shape lib path raw (wants path t)], zero_of t)
      | Some v \<Rightarrow> ([], v))"

definition max_postings :: nat where
  "max_postings = 1000"

definition counted :: "gostr \<Rightarrow> nat option" where
  "counted = map_of [(''postings'', max_postings)]"

definition at_index :: "gostr \<Rightarrow> nat \<Rightarrow> gostr" where
  "at_index path i = path @ ''['' @ itoa (int i) @ '']''"

fun items_of :: "json \<Rightarrow> json list option" where
  "items_of (JArray xs) = Some xs"
| "items_of JNull = Some []"
| "items_of _ = None"

definition how_many :: "gostr \<Rightarrow> json list \<Rightarrow> nat" where
  "how_many path items =
     (case counted (leaf path) of
        Some most \<Rightarrow> if length items > most then most else length items
      | None \<Rightarrow> length items)"

definition read_array ::
  "library \<Rightarrow> gotype \<Rightarrow> (json \<Rightarrow> gostr \<Rightarrow> reading) \<Rightarrow> json \<Rightarrow> gostr \<Rightarrow> reading" where
  "read_array lib t rd raw path =
     (case items_of raw of
        None \<Rightarrow> ([bad_shape lib path raw (wants path (TSlice t))], zero_of (TSlice t))
      | Some items \<Rightarrow>
          let n = how_many path items;
              rs = map (\<lambda>(i, item). rd item (at_index path i)) (enumerate 0 (take n items))
          in (concat (map fst rs), VSlice (Some (map snd rs @ replicate (length items - n) (zero_of t)))))"

definition read_field ::
  "(gostr \<times> json) list \<Rightarrow> gostr \<Rightarrow> gostr \<times> (json \<Rightarrow> gostr \<Rightarrow> reading) \<Rightarrow> gostr \<times> gotype \<Rightarrow> reading" where
  "read_field kvs path rd f =
     (if \<not> tagged (fst f) then ([], zero_of (snd f))
      else case map_of (rev kvs) (json_name (fst f)) of
        None \<Rightarrow> ([], zero_of (snd f))
      | Some item \<Rightarrow> snd rd item (under path (json_name (fst f))))"

definition undefined_names :: "(gostr \<times> json) list \<Rightarrow> gostr \<Rightarrow> (gostr \<times> gotype) list \<Rightarrow> bad_field list" where
  "undefined_names kvs path fs =
     map (\<lambda>name. \<lparr>bf_parameter = under path name, bf_value = '''', bf_expected = '''',
            bf_valid = json_names_of fs, bf_unknown = True\<rparr>)
       (filter (\<lambda>name. name \<notin> set (json_names_of fs)) (sort_by bytes_le (remdups (map fst kvs))))"

fun read_object ::
  "library \<Rightarrow> (gostr \<times> gotype) list \<Rightarrow> (gostr \<times> (json \<Rightarrow> gostr \<Rightarrow> reading)) list \<Rightarrow> json \<Rightarrow> gostr \<Rightarrow> reading" where
  "read_object lib fs rds (JObject kvs) path =
     (let rs = map2 (read_field kvs path) rds fs
      in (concat (map fst rs) @ undefined_names kvs path fs, VStruct (map snd rs)))"
| "read_object lib fs rds raw path = ([bad_shape lib path raw ''object''], zero_of (TStruct fs))"

primrec read_value :: "library \<Rightarrow> gotype \<Rightarrow> json \<Rightarrow> gostr \<Rightarrow> reading" where
  "read_value lib TString = read_leaf lib TString"
| "read_value lib TInt64 = read_leaf lib TInt64"
| "read_value lib TTime = read_leaf lib TTime"
| "read_value lib (TSlice t) = read_array lib t (read_value lib t)"
| "read_value lib (TStruct fs) = read_object lib fs (map (map_prod id (read_value lib)) fs)"

section \<open>A body read, or refused\<close>

text \<open>
  How the json reader leaves a body: it gave up on it, or it made a value of it, and a second
  read found the end of the body or did not.
\<close>

datatype unread = TooLarge | NoBody | BadSyntax int | CutShort | ReadFailed

datatype sent_body = Unread unread | OneValue json | MoreThanOne json

fun unreadable :: "int \<Rightarrow> unread \<Rightarrow> reply" where
  "unreadable ceiling TooLarge = refuse_with 413
     ((error_said ''the request body is larger than this endpoint accepts'')
        \<lparr>eb_expected := ''at most '' @ itoa ceiling @ '' bytes''\<rparr>)"
| "unreadable ceiling NoBody = refuse_with 400
     ((error_said ''the request body is empty'')\<lparr>eb_expected := ''one json object''\<rparr>)"
| "unreadable ceiling (BadSyntax off) = refuse_with 400
     ((error_said ''the request body is not json this endpoint can read'')\<lparr>eb_value := ''byte '' @ itoa off\<rparr>)"
| "unreadable ceiling CutShort = refuse_with 400
     ((error_said ''the request body is not json this endpoint can read'')\<lparr>eb_expected := ''one complete json object''\<rparr>)"
| "unreadable ceiling ReadFailed = refuse_with 400
     (error_said ''the request body is not json this endpoint can read'')"

definition no_bad_field :: bad_field where
  "no_bad_field = \<lparr>bf_parameter = '''', bf_value = '''', bf_expected = '''', bf_valid = [], bf_unknown = False\<rparr>"

definition refuse_fields :: "bad_field list \<Rightarrow> reply" where
  "refuse_fields bad =
     (let b0 = (case bad of [] \<Rightarrow> no_bad_field | b # _ \<Rightarrow> b);
          body = error_body0\<lparr>eb_parameter := bf_parameter b0, eb_value := bf_value b0, eb_expected := bf_expected b0,
            eb_valid := bf_valid b0, eb_see := docs_home\<rparr>
      in refuse_with 400
        (if length bad > 1 then
           body\<lparr>eb_error := ''the request body carries fields this endpoint cannot read'', eb_fields := bad\<rparr>
         else if bf_unknown b0 then body\<lparr>eb_error := ''no such field''\<rparr>
         else body\<lparr>eb_error := ''the field is not the shape this endpoint takes''\<rparr>))"

definition decode :: "library \<Rightarrow> gotype \<Rightarrow> int \<Rightarrow> sent_body \<Rightarrow> reply + govalue" where
  "decode lib t ceiling b =
     (case b of
        Unread why \<Rightarrow> Inl (unreadable ceiling why)
      | MoreThanOne raw \<Rightarrow> Inl (refuse_with 400
          ((error_said ''the request body carries more than one json value'')
             \<lparr>eb_expected := ''one json object, and nothing after it''\<rparr>))
      | OneValue raw \<Rightarrow>
          if \<not> is_object raw then Inl (refuse_with 400
            ((error_said ''the request body is json this endpoint does not take'')
               \<lparr>eb_value := sent lib raw, eb_expected := ''one json object''\<rparr>))
          else case read_value lib t raw '''' of
            (bad, v) \<Rightarrow> if length bad > 0 then Inl (refuse_fields bad) else Inr v)"

section \<open>The requests\<close>

text \<open>
  What \<^verbatim>\<open>decode\<close> fills: the two request types as records, and the values of their types.  A
  slice of postings that was never made is not one of length zero: they are fingerprinted
  differently.
\<close>

record account_request =
  ar_code :: gostr
  ar_name :: gostr
  ar_kind :: gostr
  ar_currency :: gostr

record transaction_request =
  rq_currency :: gostr
  rq_description :: gostr
  rq_postings :: "posting_body list option"
  rq_occurred :: moment

definition legs_sent :: "transaction_request \<Rightarrow> posting_body list" where
  "legs_sent r = (case rq_postings r of None \<Rightarrow> [] | Some ps \<Rightarrow> ps)"

fun posting_from :: "govalue \<Rightarrow> posting_body" where
  "posting_from (VStruct [VString a, VInt64 m]) = \<lparr>pb_account = a, pb_amount = m\<rparr>"
| "posting_from _ = \<lparr>pb_account = '''', pb_amount = 0\<rparr>"

fun account_from :: "govalue \<Rightarrow> account_request" where
  "account_from (VStruct [VString c, VString n, VString k, VString u]) =
     \<lparr>ar_code = c, ar_name = n, ar_kind = k, ar_currency = u\<rparr>"
| "account_from _ = \<lparr>ar_code = '''', ar_name = '''', ar_kind = '''', ar_currency = ''''\<rparr>"

fun transaction_from :: "govalue \<Rightarrow> transaction_request" where
  "transaction_from (VStruct [VString c, VString d, VSlice ps, VTime m]) =
     \<lparr>rq_currency = c, rq_description = d, rq_postings = map_option (map posting_from) ps, rq_occurred = m\<rparr>"
| "transaction_from _ = \<lparr>rq_currency = '''', rq_description = '''', rq_postings = None, rq_occurred = (0, 0)\<rparr>"

section \<open>Helpers of a refusal\<close>

definition valid_kinds :: "err \<Rightarrow> gostr list" where
  "valid_kinds e = (case as_unknown_kind e of Some (k, v) \<Rightarrow> v | None \<Rightarrow> [])"

definition bounded :: "gostr \<Rightarrow> (gostr \<times> nat) option" where
  "bounded = map_of [(''code'', code_shape, max_code), (''name'', name_shape, max_name),
     (''description'', description_shape, max_description)]"

definition bound :: "error_body \<Rightarrow> gostr \<Rightarrow> gostr \<Rightarrow> error_body" where
  "bound b field v =
     (case bounded field of
        None \<Rightarrow> b
      | Some (shape, most) \<Rightarrow>
          if rune_count v > most then b\<lparr>eb_expected := shape, eb_characters := int (rune_count v)\<rparr>
          else b\<lparr>eb_expected := shape\<rparr>)"

definition refused_field :: "err \<Rightarrow> gostr list \<Rightarrow> gostr" where
  "refused_field e known =
     (case as_pg e of
        None \<Rightarrow> ''''
      | Some p \<Rightarrow>
          if pg_constraint p = '''' then ''''
          else let name = trim_prefix (pg_table p @ ''_'') (trim_suffix ''_check'' (pg_constraint p))
               in if name \<in> set known then name else '''')"

end
