(* ===== verification/WireLaws.thy ===== *)
theory WireLaws
  imports Wire
begin

text \<open>
  What the decoder of \<^verbatim>\<open>internal/ledgerhttp/decode.go\<close> does, against a specification that does
  not mention how it goes about it: \<open>encodes\<close> says which json stands for which value of a type.
  The decoder takes exactly that json, fills what has the type, does not depend on the order of a
  body's members, and names every fault of what it refuses.
\<close>

section \<open>Sorting what is distinct\<close>

lemma sorted_distinct_unique:
  assumes "linear_le le" and "sorted_wrt le xs" and "sorted_wrt le ys"
    and "distinct xs" and "distinct ys" and "set xs = set ys"
  shows "xs = ys"
  using assms(2-)
proof (induction xs arbitrary: ys)
  case (Cons x xs)
  then obtain y ys' where ys: "ys = y # ys'" by (cases ys) auto
  have "le x y" if "x \<noteq> y" using Cons.prems that by (auto simp: ys)
  moreover have "le y x" if "x \<noteq> y" using Cons.prems that by (auto simp: ys)
  ultimately have "x = y" using linear_le_antisym [OF assms(1)] by blast
  moreover from this have "set xs = set ys'" using Cons.prems by (auto simp: ys)
  ultimately show ?case using Cons by (simp add: ys)
qed simp

lemma sort_by_unique:
  assumes "linear_le le" and "distinct xs" and "distinct ys" and "set xs = set ys"
  shows "sort_by le xs = sort_by le ys"
  using assms sorted_wrt_sort_by [OF assms(1), of "\<lambda>x. x"]
  by (intro sorted_distinct_unique [OF assms(1)]) simp_all

section \<open>What a value's type is\<close>

primrec has_type :: "gotype \<Rightarrow> govalue \<Rightarrow> bool" where
  "has_type TString v = (\<exists>s. v = VString s)"
| "has_type TInt64 v = (\<exists>w. v = VInt64 w)"
| "has_type TTime v = (\<exists>m. v = VTime m)"
| "has_type (TSlice t) v = (case v of VSlice None \<Rightarrow> True | VSlice (Some xs) \<Rightarrow> list_all (has_type t) xs | _ \<Rightarrow> False)"
| "has_type (TStruct fs) v =
     (case v of VStruct xs \<Rightarrow> list_all2 (\<lambda>p x. snd p x) (map (map_prod id has_type) fs) xs | _ \<Rightarrow> False)"

lemma zero_has_type: "has_type t (zero_of t)"
proof (induction t)
  case (TStruct fs)
  have "has_type (snd f) (zero_of (snd f))" if "f \<in> set fs" for f
    using TStruct [of f "snd f"] that by (cases f) auto
  then show ?case by (simp add: list_all2_conv_all_nth)
qed simp_all

lemma unmarshal_typed: "unmarshal lib t raw = Some v \<Longrightarrow> has_type t v"
  by (induction lib t raw rule: unmarshal.induct) (auto simp: zero_has_type)

lemma read_leaf_typed: "has_type t (snd (read_leaf lib t raw path))"
  by (auto simp: read_leaf_def zero_has_type dest: unmarshal_typed split: option.split)

section \<open>Which json stands for which value\<close>

text \<open>
  The last member of a name counts; a field the body does not carry keeps its zero; nothing a
  body carries is left over; and of a counted array only so many elements are looked at.
\<close>

definition lookup_last :: "(gostr \<times> json) list \<Rightarrow> gostr \<Rightarrow> json option" where
  "lookup_last kvs = map_of (rev kvs)"

inductive encodes :: "library \<Rightarrow> gostr \<Rightarrow> gotype \<Rightarrow> json \<Rightarrow> govalue \<Rightarrow> bool" for lib where
  string: "encodes lib path TString (JString raw s) (VString s)"
| number: "set_string lit = Some n \<Longrightarrow> - (2 ^ 63) \<le> n \<Longrightarrow> n < 2 ^ 63 \<Longrightarrow>
    encodes lib path TInt64 (JNumber lit) (VInt64 (word_of_int n))"
| time: "read_time lib raw = Some m \<Longrightarrow> encodes lib path TTime (JString raw s) (VTime m)"
| null: "t = TString \<or> t = TInt64 \<or> t = TTime \<Longrightarrow> encodes lib path t JNull (zero_of t)"
| no_array: "encodes lib path (TSlice t) JNull (VSlice (Some []))"
| array: "n = how_many path xs \<Longrightarrow> length vs = n \<Longrightarrow>
    (\<And>i. i < n \<Longrightarrow> encodes lib (at_index path i) t (xs ! i) (vs ! i)) \<Longrightarrow>
    encodes lib path (TSlice t) (JArray xs) (VSlice (Some (vs @ replicate (length xs - n) (zero_of t))))"
| object: "fst ` set kvs \<subseteq> json_name ` {tag \<in> fst ` set fs. tagged tag} \<Longrightarrow> length vs = length fs \<Longrightarrow>
    (\<And>i x. i < length fs \<Longrightarrow> tagged (fst (fs ! i)) \<Longrightarrow> lookup_last kvs (json_name (fst (fs ! i))) = Some x \<Longrightarrow>
       encodes lib (under path (json_name (fst (fs ! i)))) (snd (fs ! i)) x (vs ! i)) \<Longrightarrow>
    (\<And>i. i < length fs \<Longrightarrow> \<not> tagged (fst (fs ! i)) \<or> lookup_last kvs (json_name (fst (fs ! i))) = None \<Longrightarrow>
       vs ! i = zero_of (snd (fs ! i))) \<Longrightarrow>
    encodes lib path (TStruct fs) (JObject kvs) (VStruct vs)"

inductive_simps encodes_leaf: "encodes lib path TString raw v" "encodes lib path TInt64 raw v" "encodes lib path TTime raw v"
inductive_cases encodes_slice: "encodes lib path (TSlice t) raw v"
inductive_cases encodes_struct: "encodes lib path (TStruct fs) raw v"

lemma how_many_le: "how_many path xs \<le> length xs"
  by (auto simp: how_many_def split: option.split)

lemma concat_map_empty: "concat (map f xs) = [] \<longleftrightarrow> (\<forall>i < length xs. f (xs ! i) = [])"
  by (auto simp: all_set_conv_all_nth)

lemma read_leaf_accepts: "read_leaf lib t raw path = ([], v) \<longleftrightarrow> unmarshal lib t raw = Some v"
  by (auto simp: read_leaf_def split: option.split)

lemma read_items:
  fixes xs :: "json list" and path :: gostr
  defines "n \<equiv> how_many path xs"
  shows "read_array lib t rd (JArray xs) path = ([], v) \<longleftrightarrow>
    (\<exists>vs. length vs = n \<and> (\<forall>i < n. rd (xs ! i) (at_index path i) = ([], vs ! i)) \<and>
      v = VSlice (Some (vs @ replicate (length xs - n) (zero_of t))))" (is "?L \<longleftrightarrow> ?R")
proof -
  define rs where "rs = map (\<lambda>(i, item). rd item (at_index path i)) (enumerate 0 (take n xs))"
  have n: "n \<le> length xs" unfolding n_def by (rule how_many_le)
  have len: "length rs = n" using n by (simp add: rs_def)
  have nth: "rs ! i = rd (xs ! i) (at_index path i)" if "i < n" for i
    using n that by (simp add: rs_def nth_enumerate_eq)
  have "?L \<longleftrightarrow> concat (map fst rs) = [] \<and> v = VSlice (Some (map snd rs @ replicate (length xs - n) (zero_of t)))"
    by (auto simp: read_array_def n_def rs_def Let_def)
  also have "\<dots> \<longleftrightarrow> (\<forall>i < n. fst (rs ! i) = []) \<and> v = VSlice (Some (map snd rs @ replicate (length xs - n) (zero_of t)))"
    unfolding concat_map_empty len ..
  also have "\<dots> \<longleftrightarrow> ?R"
  proof
    assume L: "(\<forall>i < n. fst (rs ! i) = []) \<and> v = VSlice (Some (map snd rs @ replicate (length xs - n) (zero_of t)))"
    then have "rd (xs ! i) (at_index path i) = ([], map snd rs ! i)" if "i < n" for i
      using that nth [OF that] len by (cases "rs ! i") (metis fst_conv nth_map snd_conv)
    with L len show ?R by (intro exI [of _ "map snd rs"]) simp
  next
    assume ?R
    then obtain vs where vs: "length vs = n" "\<forall>i < n. rd (xs ! i) (at_index path i) = ([], vs ! i)"
      "v = VSlice (Some (vs @ replicate (length xs - n) (zero_of t)))" by blast
    have "map snd rs = vs"
      using vs(1,2) len nth by (intro nth_equalityI) simp_all
    with vs nth show "(\<forall>i < n. fst (rs ! i) = []) \<and> v = VSlice (Some (map snd rs @ replicate (length xs - n) (zero_of t)))"
      by simp
  qed
  finally show ?thesis .
qed

lemma slice_encoded:
  assumes "\<And>raw path v. read_value lib t raw path = ([], v) \<longleftrightarrow> encodes lib path t raw v"
  shows "read_value lib (TSlice t) raw path = ([], v) \<longleftrightarrow> encodes lib path (TSlice t) raw v"
proof (cases raw)
  case JNull
  then show ?thesis
    by (auto simp: read_array_def how_many_def elim: encodes_slice intro: encodes.intros split: option.split)
next
  case (JArray xs)
  show ?thesis
    unfolding JArray read_value.simps read_items assms
    by (auto intro: encodes.array elim: encodes_slice)
qed (auto simp: read_array_def elim: encodes_slice)

text \<open>The fields of a struct, one by one.\<close>

lemma read_field_at:
  assumes "i < length fs"
  shows "map2 (read_field kvs path) (map (map_prod id (read_value lib)) fs) fs ! i =
    (if tagged (fst (fs ! i)) then
       (case lookup_last kvs (json_name (fst (fs ! i))) of
          None \<Rightarrow> ([], zero_of (snd (fs ! i)))
        | Some x \<Rightarrow> read_value lib (snd (fs ! i)) x (under path (json_name (fst (fs ! i)))))
     else ([], zero_of (snd (fs ! i))))"
  using assms by (simp add: read_field_def lookup_last_def split: option.split)

lemma undefined_names_empty:
  "undefined_names kvs path fs = [] \<longleftrightarrow> fst ` set kvs \<subseteq> json_name ` {tag \<in> fst ` set fs. tagged tag}"
  by (auto simp: undefined_names_def json_names_of_def filter_empty_conv)

definition field_reading :: "library \<Rightarrow> (gostr \<times> json) list \<Rightarrow> gostr \<Rightarrow> gostr \<times> gotype \<Rightarrow> reading" where
  "field_reading lib kvs path f =
     (if tagged (fst f) then
       (case lookup_last kvs (json_name (fst f)) of
          None \<Rightarrow> ([], zero_of (snd f))
        | Some x \<Rightarrow> read_value lib (snd f) x (under path (json_name (fst f))))
      else ([], zero_of (snd f)))"

lemma read_fields: "map2 (read_field kvs path) (map (map_prod id (read_value lib)) fs) fs = map (field_reading lib kvs path) fs"
  by (rule nth_equalityI) (auto simp: read_field_def field_reading_def lookup_last_def split: option.split)

lemma read_struct:
  "read_value lib (TStruct fs) (JObject kvs) path =
     (concat (map fst (map (field_reading lib kvs path) fs)) @ undefined_names kvs path fs,
      VStruct (map snd (map (field_reading lib kvs path) fs)))"
  by (simp only: read_value.simps read_object.simps read_fields Let_def)

lemma read_members:
  "read_value lib (TStruct fs) (JObject kvs) path = ([], v) \<longleftrightarrow>
     fst ` set kvs \<subseteq> json_name ` {tag \<in> fst ` set fs. tagged tag} \<and>
     (\<exists>vs. length vs = length fs \<and> v = VStruct vs \<and>
        (\<forall>i < length fs. field_reading lib kvs path (fs ! i) = ([], vs ! i)))" (is "?L \<longleftrightarrow> ?U \<and> ?R")
proof -
  define rs where "rs = map (field_reading lib kvs path) fs"
  have len: "length rs = length fs" by (simp add: rs_def)
  have "?L \<longleftrightarrow> ?U \<and> concat (map fst rs) = [] \<and> v = VStruct (map snd rs)"
    unfolding read_struct rs_def [symmetric] by (auto simp: undefined_names_empty)
  also have "\<dots> \<longleftrightarrow> ?U \<and> (\<forall>i < length fs. fst (rs ! i) = []) \<and> v = VStruct (map snd rs)"
    unfolding concat_map_empty len ..
  also have "(\<forall>i < length fs. fst (rs ! i) = []) \<and> v = VStruct (map snd rs) \<longleftrightarrow>
      (\<exists>vs. length vs = length fs \<and> v = VStruct vs \<and> (\<forall>i < length fs. rs ! i = ([], vs ! i)))" (is "?A \<longleftrightarrow> ?B")
  proof
    assume ?A
    then show ?B using len by (intro exI [of _ "map snd rs"]) (simp add: prod_eq_iff)
  next
    assume ?B
    then obtain vs where vs: "length vs = length fs" "v = VStruct vs" "\<forall>i < length fs. rs ! i = ([], vs ! i)" by blast
    then have "map snd rs = vs" using len by (intro nth_equalityI) simp_all
    with vs show ?A by simp
  qed
  finally show ?thesis by (simp add: rs_def)
qed

lemma struct_encoded:
  assumes "\<And>f raw path v. f \<in> set fs \<Longrightarrow> read_value lib (snd f) raw path = ([], v) \<longleftrightarrow> encodes lib path (snd f) raw v"
  shows "read_value lib (TStruct fs) raw path = ([], v) \<longleftrightarrow> encodes lib path (TStruct fs) raw v"
proof (cases raw)
  case (JObject kvs)
  have at: "field_reading lib kvs path (fs ! i) = ([], w) \<longleftrightarrow>
      (\<forall>x. tagged (fst (fs ! i)) \<longrightarrow> lookup_last kvs (json_name (fst (fs ! i))) = Some x \<longrightarrow>
         encodes lib (under path (json_name (fst (fs ! i)))) (snd (fs ! i)) x w) \<and>
      (\<not> tagged (fst (fs ! i)) \<or> lookup_last kvs (json_name (fst (fs ! i))) = None \<longrightarrow> w = zero_of (snd (fs ! i)))"
    if "i < length fs" for i w
    using assms [of "fs ! i"] that by (auto simp: field_reading_def split: option.split)
  show ?thesis
    unfolding JObject read_members
  proof (intro iffI; (elim conjE exE)?)
    fix vs
    assume h: "fst ` set kvs \<subseteq> json_name ` {tag \<in> fst ` set fs. tagged tag}" "length vs = length fs" "v = VStruct vs"
      "\<forall>i < length fs. field_reading lib kvs path (fs ! i) = ([], vs ! i)"
    show "encodes lib path (TStruct fs) (JObject kvs) v"
      unfolding h(3)
    proof (rule encodes.object [OF h(1,2)])
      fix i x
      assume i: "i < length fs" "tagged (fst (fs ! i))" "lookup_last kvs (json_name (fst (fs ! i))) = Some x"
      show "encodes lib (under path (json_name (fst (fs ! i)))) (snd (fs ! i)) x (vs ! i)"
        using at [OF i(1), THEN iffD1, OF h(4) [rule_format, OF i(1)]] i(2,3) by simp
    next
      fix i
      assume i: "i < length fs" "\<not> tagged (fst (fs ! i)) \<or> lookup_last kvs (json_name (fst (fs ! i))) = None"
      show "vs ! i = zero_of (snd (fs ! i))"
        using at [OF i(1), THEN iffD1, OF h(4) [rule_format, OF i(1)]] i(2) by simp
    qed
  next
    assume "encodes lib path (TStruct fs) (JObject kvs) v"
    then show "fst ` set kvs \<subseteq> json_name ` {tag \<in> fst ` set fs. tagged tag} \<and>
       (\<exists>vs. length vs = length fs \<and> v = VStruct vs \<and>
          (\<forall>i < length fs. field_reading lib kvs path (fs ! i) = ([], vs ! i)))"
    proof (rule encodes_struct; goal_cases)
      case (1 kvs' vs)
      then have "field_reading lib kvs path (fs ! i) = ([], vs ! i)" if "i < length fs" for i
        using at [OF that, THEN iffD2] that by simp
      with 1 show ?case by simp
    qed

  qed
qed (auto elim: encodes_struct)

lemma read_encodes: "read_value lib t raw path = ([], v) \<longleftrightarrow> encodes lib path t raw v"
proof (induction t arbitrary: raw path v)
  case (TSlice t)
  then show ?case by (rule slice_encoded)
next
  case (TStruct fs)
  then show ?case by (intro struct_encoded) (metis prod.collapse snds.simps)
next
  case TString
  show ?case by (cases raw) (auto simp: read_leaf_accepts encodes_leaf)
next
  case TInt64
  show ?case by (cases raw) (auto simp: read_leaf_accepts encodes_leaf parse_int64_def split: option.split if_split)
next
  case TTime
  show ?case by (cases raw) (auto simp: read_leaf_accepts encodes_leaf)
qed

section \<open>What is filled has its type\<close>

lemma read_value_typed: "has_type t (snd (read_value lib t raw path))"
proof (induction t arbitrary: raw path)
  case (TSlice t)
  show ?case
  proof (cases "items_of raw")
    case (Some items)
    then show ?thesis
      using TSlice zero_has_type [of t]
      by (auto simp: read_array_def Let_def list_all_iff split: prod.splits)
  qed (simp add: read_array_def)
next
  case (TStruct fs)
  show ?case
  proof (cases raw)
    case (JObject kvs)
    have "has_type (snd f) (snd (field_reading lib kvs path f))" if "f \<in> set fs" for f
      using TStruct [of f "snd f"] zero_has_type [of "snd f"] that
      by (cases f) (auto simp: field_reading_def split: option.split)
    then show ?thesis
      unfolding JObject read_struct by (auto simp: list_all2_conv_all_nth)
  qed (use zero_has_type [of "TStruct fs"] in simp_all)
qed (simp_all only: read_value.simps read_leaf_typed)

section \<open>The order of members does not matter\<close>

text \<open>The same json but for the order of an object's members, and for members a later one overrides.\<close>

inductive same :: "json \<Rightarrow> json \<Rightarrow> bool" where
  itself: "same x x"
| elements: "length xs = length ys \<Longrightarrow> (\<And>i. i < length xs \<Longrightarrow> same (xs ! i) (ys ! i)) \<Longrightarrow>
    same (JArray xs) (JArray ys)"
| members: "(\<And>k. lookup_last kvs k = None \<longleftrightarrow> lookup_last kvs' k = None) \<Longrightarrow>
    (\<And>k x y. lookup_last kvs k = Some x \<Longrightarrow> lookup_last kvs' k = Some y \<Longrightarrow> same x y) \<Longrightarrow>
    same (JObject kvs) (JObject kvs')"

lemma same_sent: "same x y \<Longrightarrow> sent lib x = sent lib y"
  by (erule same.cases) simp_all

lemma same_object: "same x y \<Longrightarrow> is_object x = is_object y"
  by (erule same.cases) simp_all

lemma same_leaf: "same x y \<Longrightarrow> read_leaf lib t x path = read_leaf lib t y path"
proof (erule same.cases)
  fix xs ys
  assume "x = JArray xs" "y = JArray ys"
  then show ?thesis by (cases t) (simp_all add: read_leaf_def bad_shape_def)
next
  fix kvs kvs'
  assume "x = JObject kvs" "y = JObject kvs'"
  then show ?thesis by (cases t) (simp_all add: read_leaf_def bad_shape_def)
qed simp

lemma keys_of_lookup: "(\<forall>k. lookup_last kvs k = None \<longleftrightarrow> lookup_last kvs' k = None) \<longleftrightarrow> fst ` set kvs = fst ` set kvs'"
  by (auto simp: lookup_last_def map_of_eq_None_iff)

lemma undefined_names_same:
  assumes "fst ` set kvs = fst ` set kvs'"
  shows "undefined_names kvs path fs = undefined_names kvs' path fs"
  using sort_by_unique [OF linear_bytes_le, of "remdups (map fst kvs)" "remdups (map fst kvs')"] assms
  by (simp add: undefined_names_def)

lemma read_same: "same x y \<Longrightarrow> read_value lib t x path = read_value lib t y path"
proof (induction t arbitrary: x y path)
  case (TSlice t)
  from TSlice.prems show ?case
  proof cases
    case (elements xs ys)
    have n: "how_many path xs = how_many path ys" using elements by (simp add: how_many_def split: option.split)
    have "map (\<lambda>(i, item). read_value lib t item (at_index path i)) (enumerate 0 (take n xs)) =
        map (\<lambda>(i, item). read_value lib t item (at_index path i)) (enumerate 0 (take n ys))" for n
      by (rule nth_equalityI) (use elements TSlice.IH in \<open>auto simp: nth_enumerate_eq\<close>)
    then show ?thesis using elements by (simp add: read_array_def n)
  qed (simp_all add: read_array_def bad_shape_def)
next
  case (TStruct fs)
  from TStruct.prems show ?case
  proof cases
    case (members kvs kvs')
    have "field_reading lib kvs path f = field_reading lib kvs' path f" if "f \<in> set fs" for f
      using TStruct.IH [of f "snd f"] that members(3) [of "json_name (fst f)"] members(4) [of "json_name (fst f)"]
      by (cases f) (auto simp: field_reading_def split: option.split)
    then have "map (field_reading lib kvs path) fs = map (field_reading lib kvs' path) fs" by simp
    moreover have "undefined_names kvs path fs = undefined_names kvs' path fs"
      using members(3) keys_of_lookup by (intro undefined_names_same) blast
    ultimately show ?thesis unfolding members(1,2) read_struct by (simp only:)
  qed (simp_all add: bad_shape_def)
qed (simp_all add: same_leaf)

section \<open>Properties\<close>

text \<open>
  A library to try things with.  Its timestamps are whole seconds from the zero time, in
  decimal; the rest is as plain.
\<close>

definition sample_library :: library where
  "sample_library = \<lparr>quote = (\<lambda>s. CHR 0x22 # s @ [CHR 0x22]),
     read_time = (\<lambda>s. map_option (\<lambda>n. (1000000000 * n, 0)) (set_string s)),
     show_time = (\<lambda>m. Some (itoa (fst m div 1000000000))), show_duration = itoa,
     media_type = Some, sha256 = (\<lambda>s. replicate 32 CHR ''h'')\<rparr>"

definition sample_account_json :: json where
  "sample_account_json = JObject [(''kind'', JString ''asset'' ''asset''), (''code'', JString ''assets.till'' ''assets.till''),
     (''currency'', JString ''USD'' ''USD''), (''name'', JString ''Till'' ''Till'')]"

definition sample_account_json2 :: json where
  "sample_account_json2 = JObject [(''code'', JNull), (''name'', JString ''Till'' ''Till''),
     (''code'', JString ''assets.till'' ''assets.till''), (''currency'', JString ''USD'' ''USD''),
     (''kind'', JString ''asset'' ''asset'')]"

text \<open>
  C27. The decoder takes a body exactly when it is one json object that encodes a value of the
  endpoint's type, and that value is what it fills: a field the body leaves out is zero, the
  last member of a name counts, and no member the type does not define gets through.
\<close>

theorem decode_takes_what_conforms:
  "decode lib t ceiling b = Inr v \<longleftrightarrow> (\<exists>raw. b = OneValue raw \<and> is_object raw \<and> encodes lib '''' t raw v)"
  by (auto simp: decode_def read_encodes [symmetric] split: sent_body.split prod.split)

lemma typed_posting: "has_type posting_type v \<longleftrightarrow> (\<exists>a m. v = VStruct [VString a, VInt64 m])"
  by (cases v) (auto simp: posting_type_def list_all2_Cons1)

lemma typed_slice: "has_type (TSlice t) v \<longleftrightarrow> (\<exists>ps. v = VSlice ps \<and> (\<forall>xs. ps = Some xs \<longrightarrow> list_all (has_type t) xs))"
  by (auto split: govalue.split option.split)

lemma typed_transaction:
  "has_type transaction_type v \<longleftrightarrow>
     (\<exists>c d ps m. v = VStruct [VString c, VString d, VSlice ps, VTime m] \<and>
        (\<forall>xs. ps = Some xs \<longrightarrow> list_all (has_type posting_type) xs))"
  unfolding transaction_type_def typed_slice [symmetric]
  by (cases v) (auto simp: list_all2_Cons1 typed_slice simp del: has_type.simps(4))

definition value_of_posting :: "posting_body \<Rightarrow> govalue" where
  "value_of_posting p = VStruct [VString (pb_account p), VInt64 (pb_amount p)]"

definition value_of_transaction :: "transaction_request \<Rightarrow> govalue" where
  "value_of_transaction r = VStruct [VString (rq_currency r), VString (rq_description r),
     VSlice (map_option (map value_of_posting) (rq_postings r)), VTime (rq_occurred r)]"

lemma posting_from_value: "posting_from (value_of_posting p) = p"
  by (simp add: value_of_posting_def)

lemma transaction_from_value: "transaction_from (value_of_transaction r) = r"
  by (simp add: value_of_transaction_def option.map_comp comp_def posting_from_value option.map_ident)

lemma value_of_posting_from: "has_type posting_type v \<Longrightarrow> value_of_posting (posting_from v) = v"
  by (auto simp: typed_posting value_of_posting_def)

lemma value_of_postings_from:
  "list_all (has_type posting_type) xs \<Longrightarrow> map value_of_posting (map posting_from xs) = xs"
  by (induction xs) (simp_all add: value_of_posting_from)

lemma value_of_transaction_from: "has_type transaction_type v \<Longrightarrow> value_of_transaction (transaction_from v) = v"
proof -
  have "map_option (map value_of_posting) (map_option (map posting_from) ps) = ps"
    if "\<forall>xs. ps = Some xs \<longrightarrow> list_all (has_type posting_type) xs" for ps
    using that value_of_postings_from by (cases ps) (simp_all del: map_map)
  then show "has_type transaction_type v \<Longrightarrow> ?thesis"
    by (auto simp: typed_transaction value_of_transaction_def simp del: option.map_comp)
qed


definition sample_body :: json where
  "sample_body = JObject [(''currency'', JString ''USD'' ''USD''), (''description'', JString ''Rent'' ''Rent''),
     (''postings'', JArray
        [JObject [(''account'', JString ''assets.cash'' ''assets.cash''), (''amount_minor'', JNumber ''500'')],
         JObject [(''amount_minor'', JNumber ''-500''), (''account'', JString ''equity'' ''equity'')]])]"

definition sample_transaction :: transaction_request where
  "sample_transaction = \<lparr>rq_currency = ''USD'', rq_description = ''Rent'',
     rq_postings = Some [\<lparr>pb_account = ''assets.cash'', pb_amount = 500\<rparr>, \<lparr>pb_account = ''equity'', pb_amount = - 500\<rparr>],
     rq_occurred = (0, 0)\<rparr>"

lemma decode_sample_body:
  "decode sample_library transaction_type 262144 (OneValue sample_body) = Inr (value_of_transaction sample_transaction)"
  by code_simp


text \<open>
  The order of an object's members makes no difference, at any depth, and neither does a
  member a later one of the same name overrides: the answer is the same, refusals included.
\<close>

theorem member_order_does_not_matter:
  assumes "same raw raw'"
  shows "decode lib t ceiling (OneValue raw) = decode lib t ceiling (OneValue raw')"
  using assms by (simp add: decode_def same_object same_sent read_same [OF assms])

theorem member_order_does_not_matter_witness:
  "decode sample_library account_type 4096 (OneValue sample_account_json) = decode sample_library account_type 4096 (OneValue sample_account_json2)"
proof (rule member_order_does_not_matter)
  show "same sample_account_json sample_account_json2"
    unfolding sample_account_json_def sample_account_json2_def
    by (rule same.members) (auto simp: lookup_last_def intro: same.itself split: if_splits)
qed

text \<open>
  A body the decoder does not take is refused: with 413 when it is too large and 400
  otherwise, never with anything else; and a fault in the fields is named, the first at the
  top, and every one of them when there are more than one.
\<close>

theorem refused_body_names_every_fault:
  "case decode lib t ceiling b of
     Inr v \<Rightarrow> True
   | Inl r \<Rightarrow> rp_status r = (if b = Unread TooLarge then 413 else 400) \<and>
       (\<forall>raw. b = OneValue raw \<longrightarrow> is_object raw \<longrightarrow>
          (\<exists>e bad. rp_body r = Refused e \<and> fst (read_value lib t raw '''') = bad \<and> bad \<noteq> [] \<and>
             eb_parameter e = bf_parameter (hd bad) \<and> eb_value e = bf_value (hd bad) \<and>
             eb_expected e = bf_expected (hd bad) \<and> eb_valid e = bf_valid (hd bad) \<and>
             eb_fields e = (if length bad > 1 then bad else [])))"
proof (cases b)
  case (Unread why)
  then show ?thesis by (cases why) (simp_all add: decode_def write_reply_def)
next
  case (OneValue raw)
  obtain bad v where r: "read_value lib t raw '''' = (bad, v)" by (cases "read_value lib t raw ''''")
  show ?thesis
    by (cases bad)
       (auto simp: decode_def OneValue r refuse_fields_def write_reply_def Let_def error_said_def error_body0_def)
qed (simp add: decode_def write_reply_def)

definition sample_faults :: json where
  "sample_faults = JObject [(''code'', JNumber ''1''), (''colour'', JString ''red'' ''red'')]"

theorem refused_body_names_every_fault_witness:
  "\<exists>r e. decode sample_library account_type 4096 (OneValue sample_faults) = Inl r \<and> rp_body r = Refused e \<and>
     map bf_parameter (eb_fields e) = [''code'', ''colour''] \<and> rp_status r = 400"
proof -
  have o: "is_object sample_faults" by code_simp
  have "map bf_parameter (undefined_names [(''code'', JNumber ''1''), (''colour'', JString ''red'' ''red'')] ''''
      [(''code'', TString), (''name'', TString), (''kind'', TString), (''currency'', TString)]) = [''colour'']"
    by code_simp
  then have f: "map bf_parameter (fst (read_value sample_library account_type sample_faults '''')) = [''code'', ''colour'']"
    by (simp add: sample_faults_def account_type_def read_leaf_def read_field_def bad_shape_def under_def tagged_def json_name_def)
  then have n: "length (fst (read_value sample_library account_type sample_faults '''')) = 2"
    by (metis length_map length_Cons list.size(3) numeral_2_eq_2)
  obtain r where r: "decode sample_library account_type 4096 (OneValue sample_faults) = Inl r"
  proof (cases "read_value sample_library account_type sample_faults ''''")
    case (Pair bad v)
    with n have "bad \<noteq> []" by auto
    with Pair o that show ?thesis by (auto simp: decode_def)
  qed
  from refused_body_names_every_fault [where lib = sample_library and t = account_type and ceiling = 4096 and b = "OneValue sample_faults"] r o n f
  show ?thesis by auto
qed

end
