(* ===== verification/PostLaws.thy ===== *)
theory PostLaws
  imports Entries
begin

text \<open>
  What \<open>post\<close> answers and leaves behind.  \<open>entry_verdict\<close> is the contract; the lemmas follow
  the entry through \<open>post_inner\<close> statement by statement, and the properties state the outcome
  of the whole of \<open>post\<close>.
\<close>

section \<open>Which entries the ledger takes\<close>

text \<open>The first leg the ledger refuses, and why: the account, then the amount, then the currency.\<close>

fun leg_verdict :: "book \<Rightarrow> gostr \<Rightarrow> leg list \<Rightarrow> (nat \<times> sentinel) option" where
  "leg_verdict b cur [] = None"
| "leg_verdict b cur (l # ls) =
     (let next = map_option (map_prod Suc id) (leg_verdict b cur ls) in
      if \<not> text_ok (lg_account l) then Some (0, ErrRejected)
      else case account_with_code b (lg_account l) of
        None \<Rightarrow> Some (0, ErrUnknownAccount)
      | Some a \<Rightarrow>
          if lg_amount l = 0 then Some (0, ErrRejected)
          else if acc_currency a \<noteq> cur then Some (0, ErrCurrencyMismatch)
          else next)"

definition header_fine :: "ctype \<Rightarrow> entry \<Rightarrow> bool" where
  "header_fine ct e \<longleftrightarrow>
     text_ok (en_currency e) \<and> text_ok (en_description e) \<and>
     currency_check (en_currency e) \<and> description_check ct (en_description e)"

definition entry_verdict :: "ctype \<Rightarrow> book \<Rightarrow> entry \<Rightarrow> (sentinel \<times> nat option) option" where
  "entry_verdict ct b e =
     (if \<not> header_fine ct e then Some (ErrRejected, None)
      else case leg_verdict b (en_currency e) (en_legs e) of
        Some (i, x) \<Rightarrow> Some (x, Some i)
      | None \<Rightarrow>
          if en_legs e = [] \<or> sum_list (map (sint \<circ> lg_amount) (en_legs e)) \<noteq> 0
          then Some (ErrUnbalanced, None)
          else None)"

section \<open>What a posted entry adds to the book\<close>

definition posting_of :: "book \<Rightarrow> uuid \<Rightarrow> int \<Rightarrow> nat \<Rightarrow> leg \<Rightarrow> posting_row option" where
  "posting_of b u t n l =
     map_option (\<lambda>a. \<lparr>pst_id = n, pst_txn = u, pst_account = acc_id a, pst_currency = acc_currency a,
       pst_amount = lg_amount l, pst_created = t\<rparr>) (account_with_code b (lg_account l))"

fun postings_for :: "book \<Rightarrow> uuid \<Rightarrow> int \<Rightarrow> nat \<Rightarrow> leg list \<Rightarrow> posting_row list" where
  "postings_for b u t n [] = []"
| "postings_for b u t n (l # ls) =
     (case posting_of b u t n l of
        None \<Rightarrow> postings_for b u t (Suc n) ls
      | Some p \<Rightarrow> p # postings_for b u t (Suc n) ls)"

definition transaction_of :: "uuid \<Rightarrow> int \<Rightarrow> entry \<Rightarrow> transaction_row" where
  "transaction_of u t e =
     \<lparr>txn_id = u, txn_currency = en_currency e, txn_description = en_description e,
      txn_occurred = (case occurred_at e of None \<Rightarrow> t | Some o' \<Rightarrow> o'), txn_created = t\<rparr>"

definition posted_book :: "book \<Rightarrow> uuid \<Rightarrow> int \<Rightarrow> nat \<Rightarrow> entry \<Rightarrow> book" where
  "posted_book b u t n e =
     b\<lparr>transactions := transactions b @ [transaction_of u t e],
       postings := postings b @ postings_for b u t n (en_legs e)\<rparr>"

lemma account_with_code_cong: "accounts b' = accounts b \<Longrightarrow> account_with_code b' = account_with_code b"
  by (simp add: account_with_code_def fun_eq_iff)

lemma postings_for_cong: "accounts b' = accounts b \<Longrightarrow> postings_for b' u t n ls = postings_for b u t n ls"
  by (induction ls arbitrary: n) (simp_all add: posting_of_def account_with_code_def split: option.split)

lemma leg_verdict_cong: "accounts b' = accounts b \<Longrightarrow> leg_verdict b' cur ls = leg_verdict b cur ls"
  by (induction ls) (simp_all add: account_with_code_def)

section \<open>The legs, one statement each\<close>

text \<open>A session a transaction has been opened in, with nothing else of the ledger's to settle.\<close>

definition leg_ready :: "uuid \<Rightarrow> gostr \<Rightarrow> session \<Rightarrow> bool" where
  "leg_ready u cur s \<longleftrightarrow>
     healthy s \<and> \<not> modes s BalanceChecksMustBalance \<and>
     (\<forall>c. has_transaction (work s) u c \<longleftrightarrow> c = cur)"

text \<open>The session with some of the legs in it.\<close>

definition with_legs :: "uuid \<Rightarrow> posting_row list \<Rightarrow> session \<Rightarrow> session" where
  "with_legs u ps s =
     (if ps = [] then s
      else s\<lparr>work := queue_a_balance_check u ((work s)\<lparr>postings := postings (work s) @ ps\<rparr>),
             pending := pending s @
               (if u \<in> set (balance_checks (work s)) then [] else [BalanceCheckInserted u]),
             next_posting := next_posting s + length ps\<rparr>)"

lemma with_legs_frame [simp]:
  "accounts (work (with_legs u ps s)) = accounts (work s)"
  "transactions (work (with_legs u ps s)) = transactions (work s)"
  "idempotency_keys (work (with_legs u ps s)) = idempotency_keys (work s)"
  "postings (work (with_legs u ps s)) = postings (work s) @ ps"
  "modes (with_legs u ps s) = modes s" "saves (with_legs u ps s) = saves s" "now (with_legs u ps s) = now s"
  "next_posting (with_legs u ps s) = next_posting s + length ps"
  "drawn (with_legs u ps s) = drawn s" "healthy (with_legs u ps s) = healthy s"
  "ctype_of (with_legs u ps s) = ctype_of s"
  by (simp_all add: with_legs_def)

lemma queue_queue:
  "queue_a_balance_check u ((queue_a_balance_check u b)\<lparr>postings := ps\<rparr>) = queue_a_balance_check u (b\<lparr>postings := ps\<rparr>)"
  by (simp add: queue_a_balance_check_def)

lemma with_legs_Cons: "with_legs u ps (with_legs u [p] s) = with_legs u (p # ps) s"
  by (simp add: with_legs_def queue_queue)

lemma leg_ready_with_legs: "leg_ready u cur s \<Longrightarrow> leg_ready u cur (with_legs u ps s)"
  by (simp add: leg_ready_def has_transaction_def)

lemma has_account_found:
  "account_with_code b c = Some a \<Longrightarrow> has_account b (acc_id a) (acc_currency a)"
  by (auto simp: has_account_def list_ex_iff dest: account_with_codeD)

lemma insert_leg_taken:
  assumes "leg_ready u cur s" and "uuid_in idt = Some u" and "text_ok (lg_account l)"
    and "account_with_code (work s) (lg_account l) = Some a" and "lg_amount l \<noteq> 0" and "acc_currency a = cur"
  shows "exec (InsertLeg idt (lg_account l) (lg_amount l)) s =
    (Inr '''', with_legs u [the (posting_of (work s) u (now s) (next_posting s) l)] s)"
proof -
  have h: "healthy s" and m: "\<not> modes s BalanceChecksMustBalance"
    and "has_transaction (work s) u cur" using assms(1) by (simp_all add: leg_ready_def)
  then have "insert_posting (next_posting s) (now s) u (Some (acc_id a)) (Some (acc_currency a)) (lg_amount l) (work s)
      = Inr ((work s)\<lparr>postings := postings (work s) @ [the (posting_of (work s) u (now s) (next_posting s) l)]\<rparr>)"
    using assms(3-6) has_account_found [OF assms(4)] by (simp add: insert_posting_def posting_of_def)
  then show ?thesis
    using assms(2-4) m
    by (simp add: exec_healthy [OF h] post_row_def draw_posting_def write_rows_def with_legs_def)
qed

text \<open>A leg refused: the session fails, and the server says what the verdict says.\<close>

definition refused_leg :: "sentinel \<Rightarrow> pg_error \<Rightarrow> bool" where
  "refused_leg x p \<longleftrightarrow>
     pg_code p \<noteq> ''LB001'' \<and>
     x = (if pg_code p = ''23502'' \<and> pg_column p = ''account_id'' then ErrUnknownAccount
          else if pg_code p = ''23503'' \<and> contains ''transaction_id'' (pg_constraint p) then ErrCurrencyMismatch
          else ErrRejected)"

definition moved_on :: "session \<Rightarrow> session \<Rightarrow> bool" where
  "moved_on s s' \<longleftrightarrow> s' = s\<lparr>work := work s', pending := pending s', next_posting := next_posting s'\<rparr>"

lemma moved_on_refl: "moved_on s s"
  by (simp add: moved_on_def)

lemma moved_on_next: "moved_on s (s\<lparr>next_posting := n\<rparr>)"
  by (simp add: moved_on_def)

lemma moved_on_trans: "moved_on s s' \<Longrightarrow> moved_on s' s'' \<Longrightarrow> moved_on s s''"
  by (cases s; cases s'; cases s'') (simp add: moved_on_def)

lemma moved_on_with_legs: "moved_on s (with_legs u ps s)"
  by (simp add: moved_on_def with_legs_def)

lemma moved_on_healthy: "moved_on s s' \<Longrightarrow> healthy s' = healthy s"
  by (cases s; cases s') (auto simp: moved_on_def healthy_def)

lemma posting_refused:
  assumes "\<And>c. has_transaction b u c \<longleftrightarrow> c = cur" and "text_ok (lg_account l)"
    and "leg_verdict b cur [l] = Some (i, x)"
  defines "a \<equiv> account_with_code b (lg_account l)"
  shows "\<exists>p. insert_posting n t u (map_option acc_id a) (map_option acc_currency a) (lg_amount l) b = Inl p \<and>
    refused_leg x p"
proof (cases a)
  case None
  with assms(2,3) have "x = ErrUnknownAccount" by (simp add: a_def)
  with None show ?thesis by (simp add: insert_posting_def refused_leg_def not_null_violation_def)
next
  case (Some r)
  have c: "contains ''transaction_id'' ''postings_transaction_id_currency_fkey''" by code_simp
  show ?thesis
  proof (cases "lg_amount l = 0")
    case True
    with Some assms(2,3) have "x = ErrRejected" by (simp add: a_def)
    with Some True show ?thesis by (simp add: insert_posting_def refused_leg_def check_violation_def)
  next
    case False
    with Some assms(2,3) have "x = ErrCurrencyMismatch" "acc_currency r \<noteq> cur"
      by (simp_all add: a_def split: if_splits)
    with Some False assms(1) c show ?thesis
      by (simp add: insert_posting_def refused_leg_def foreign_key_violation_def)
  qed
qed

lemma insert_leg_refused:
  assumes "leg_ready u cur s" and "uuid_in idt = Some u" and "leg_verdict (work s) cur [l] = Some (i, x)"
  shows "\<exists>p s'. exec (InsertLeg idt (lg_account l) (lg_amount l)) s = (Inl (PgErr p), s'\<lparr>failed := True\<rparr>) \<and>
    moved_on s s' \<and> refused_leg x p"
proof (cases "text_ok (lg_account l)")
  case False
  with assms have "exec (InsertLeg idt (lg_account l) (lg_amount l)) s = (Inl (PgErr bad_text), s\<lparr>failed := True\<rparr>)"
    by (simp add: exec_healthy leg_ready_def)
  moreover have "refused_leg x bad_text"
    using False assms(3) by (simp add: refused_leg_def server_refusal_def)
  ultimately show ?thesis using moved_on_refl by blast
next
  case True
  have h: "healthy s" using assms(1) by (simp add: leg_ready_def)
  let ?a = "account_with_code (work s) (lg_account l)"
  have "has_transaction (work s) u c \<longleftrightarrow> c = cur" for c using assms(1) by (simp add: leg_ready_def)
  from posting_refused [OF this True assms(3)]
  obtain p where p: "insert_posting (next_posting s) (now s) u (map_option acc_id ?a) (map_option acc_currency ?a)
      (lg_amount l) (work s) = Inl p" "refused_leg x p" by blast
  let ?s1 = "s\<lparr>next_posting := Suc (next_posting s)\<rparr>"
  have "post_row u (map_option acc_id ?a) (map_option acc_currency ?a) (lg_amount l) s = (Inl p, ?s1)"
    using p(1) by (simp add: post_row_def draw_posting_def write_rows_def)
  then have "exec (InsertLeg idt (lg_account l) (lg_amount l)) s = (Inl (PgErr p), ?s1\<lparr>failed := True\<rparr>)"
    using assms(2) True by (simp add: exec_healthy [OF h] Let_def)
  with p(2) moved_on_next [of s] show ?thesis by blast
qed

text \<open>The loop over the legs.\<close>

lemma insert_legs_taken:
  "leg_ready u cur s \<Longrightarrow> uuid_in idt = Some u \<Longrightarrow> leg_verdict (work s) cur ls = None \<Longrightarrow>
     insert_legs idt e i ls s = (Inr (), with_legs u (postings_for (work s) u (now s) (next_posting s) ls) s)"
proof (induction ls arbitrary: s i)
  case Nil
  then show ?case by (simp add: ret_def with_legs_def)
next
  case (Cons l ls)
  from Cons.prems(3) obtain a where a: "text_ok (lg_account l)" "account_with_code (work s) (lg_account l) = Some a"
    "lg_amount l \<noteq> 0" "acc_currency a = cur" and rest: "leg_verdict (work s) cur ls = None"
    by (auto simp: Let_def split: if_splits option.splits)
  obtain p where p: "posting_of (work s) u (now s) (next_posting s) l = Some p" using a(2) by (simp add: posting_of_def)
  let ?s1 = "with_legs u [p] s"
  have "insert_legs idt e (i + 1) ls ?s1 =
      (Inr (), with_legs u (postings_for (work ?s1) u (now ?s1) (next_posting ?s1) ls) ?s1)"
    by (rule Cons.IH)
       (simp_all add: leg_ready_with_legs Cons.prems(1,2) rest leg_verdict_cong [of "work ?s1" "work s"])
  then show ?case
    using insert_leg_taken [OF Cons.prems(1,2) a] p
    by (simp add: attempt_def with_legs_Cons postings_for_cong [of "work ?s1" "work s"])
qed

lemma insert_legs_refused:
  "leg_ready u cur s \<Longrightarrow> uuid_in idt = Some u \<Longrightarrow> leg_verdict (work s) cur ls = Some (k, x) \<Longrightarrow>
     \<exists>p s'. insert_legs idt e i ls s = (Inl (classify (PgErr p) e (i + int k) (ls ! k)), s'\<lparr>failed := True\<rparr>) \<and>
       k < length ls \<and> moved_on s s' \<and> refused_leg x p"
proof (induction ls arbitrary: s i k)
  case Nil
  then show ?case by simp
next
  case (Cons l ls)
  show ?case
  proof (cases "leg_verdict (work s) cur [l]")
    case (Some kx)
    with Cons.prems(3) have "kx = (0, x)" and k: "k = 0" by (auto simp: Let_def split: if_splits option.splits)
    with Some have "leg_verdict (work s) cur [l] = Some (0, x)" by simp
    from insert_leg_refused [OF Cons.prems(1,2) this] obtain p s' where
      "exec (InsertLeg idt (lg_account l) (lg_amount l)) s = (Inl (PgErr p), s'\<lparr>failed := True\<rparr>)"
      "moved_on s s'" "refused_leg x p" by blast
    with k show ?thesis
      by (intro exI [of _ p] exI [of _ s']) (simp add: attempt_def fail_def)
  next
    case None
    then obtain a where a: "text_ok (lg_account l)" "account_with_code (work s) (lg_account l) = Some a"
      "lg_amount l \<noteq> 0" "acc_currency a = cur"
      by (auto simp: Let_def split: if_splits option.splits)
    with Cons.prems(3) obtain j where j: "k = Suc j" "leg_verdict (work s) cur ls = Some (j, x)"
      by (auto simp: Let_def)
    let ?s1 = "with_legs u [the (posting_of (work s) u (now s) (next_posting s) l)] s"
    have "leg_verdict (work ?s1) cur ls = Some (j, x)"
      using j(2) leg_verdict_cong [of "work ?s1" "work s"] by simp
    from Cons.IH [OF leg_ready_with_legs [OF Cons.prems(1)] Cons.prems(2) this, of "i + 1"]
    obtain p s' where "insert_legs idt e (i + 1) ls ?s1 =
        (Inl (classify (PgErr p) e (i + 1 + int j) (ls ! j)), s'\<lparr>failed := True\<rparr>)"
      "j < length ls" "moved_on ?s1 s'" "refused_leg x p" by blast
    then show ?thesis
      using insert_leg_taken [OF Cons.prems(1,2) a] j(1) moved_on_trans [OF moved_on_with_legs]
      by (intro exI [of _ p] exI [of _ s']) (simp add: attempt_def algebra_simps)
  qed
qed

section \<open>The whole of \<open>post_inner\<close>\<close>

text \<open>
  A session ready to post: nothing wrong, the schema's rules kept so far, nothing of an earlier
  entry left to settle, and a uuid to draw no transaction has.
\<close>

definition ready :: "session \<Rightarrow> bool" where
  "ready s \<longleftrightarrow>
     healthy s \<and> wf_book (ctype_of s) (work s) \<and> balance_checks (work s) = [] \<and>
     (\<forall>ev \<in> set (pending s). trigger_of ev = KeysMustBeSettled \<and> \<not> modes s KeysMustBeSettled) \<and>
     uuid_supply s (drawn s) \<notin> txn_id ` set (transactions (work s))"

definition fresh_id :: "session \<Rightarrow> uuid" where
  "fresh_id s = uuid_supply s (drawn s)"

definition opened :: "entry \<Rightarrow> session \<Rightarrow> session" where
  "opened e s = s\<lparr>modes := new_modes balance_constraints False s, drawn := Suc (drawn s),
     work := (work s)\<lparr>transactions := transactions (work s) @ [transaction_of (fresh_id s) (now s) e]\<rparr>,
     pending := pending s @ [TransactionInserted (fresh_id s)]\<rparr>"

lemma new_modes_balance:
  "new_modes balance_constraints im s t = (if t = KeysMustBeSettled then modes s t else im)"
  by (cases t) (simp_all add: new_modes_def balance_constraints_def)

lemma defer_healthy:
  "healthy s \<Longrightarrow> exec (SetConstraints cs False) s = (Inr '''', s\<lparr>modes := new_modes cs False s\<rparr>)"
  by (simp add: exec_healthy set_constraints_def)

lemma header_taken:
  assumes "ready s" and "header_fine (ctype_of s) e"
  shows "exec (InsertTransaction (en_currency e) (en_description e) (occurred_at e))
      (s\<lparr>modes := new_modes balance_constraints False s\<rparr>) = (Inr (uuid_out (fresh_id s)), opened e s)"
  using assms
  by (simp add: ready_def header_fine_def exec_healthy draw_def write_rows_def insert_transaction_def
      transaction_refusal_def Let_def transaction_of_def opened_def fresh_id_def new_modes_balance
      split: option.split)

lemma header_refused:
  assumes "ready s" and "\<not> header_fine (ctype_of s) e"
  shows "\<exists>p. exec (InsertTransaction (en_currency e) (en_description e) (occurred_at e))
      (s\<lparr>modes := new_modes balance_constraints False s\<rparr>) =
      (Inl (PgErr p), s\<lparr>modes := new_modes balance_constraints False s, drawn := Suc (drawn s), failed := True\<rparr>) \<and>
     refused_leg ErrRejected p"
proof -
  let ?ins = "insert_transaction (ctype_of s) (fresh_id s) (now s) (en_currency e) (en_description e) (occurred_at e) (work s)"
  have u: "fresh_id s \<notin> txn_id ` set (transactions (work s))" using assms(1) by (simp add: ready_def fresh_id_def)
  have "refused_leg ErrRejected p" if "?ins = Inl p" for p
    using that u
    by (auto simp: insert_transaction_def transaction_refusal_def Let_def refused_leg_def server_refusal_def
        check_violation_def split: if_splits)
  moreover have "\<exists>p. ?ins = Inl p"
    using assms(2) by (auto simp: insert_transaction_def transaction_refusal_def Let_def header_fine_def)
  ultimately obtain p where p: "?ins = Inl p" "refused_leg ErrRejected p" by blast
  moreover from p(1) have "exec (InsertTransaction (en_currency e) (en_description e) (occurred_at e))
      (s\<lparr>modes := new_modes balance_constraints False s\<rparr>) =
      (Inl (PgErr p), s\<lparr>modes := new_modes balance_constraints False s, drawn := Suc (drawn s), failed := True\<rparr>)"
    using assms(1) by (simp add: ready_def exec_healthy draw_def write_rows_def fresh_id_def)
  ultimately show ?thesis by blast
qed

lemma opened_frame [simp]:
  "accounts (work (opened e s)) = accounts (work s)" "postings (work (opened e s)) = postings (work s)"
  "balance_checks (work (opened e s)) = balance_checks (work s)" "healthy (opened e s) = healthy s"
  "now (opened e s) = now s" "next_posting (opened e s) = next_posting s"
  "pending (opened e s) = pending s @ [TransactionInserted (fresh_id s)]"
  by (simp_all add: opened_def)

lemma opened_leg_ready:
  assumes "ready s"
  shows "leg_ready (fresh_id s) (en_currency e) (opened e s)"
  using assms
  by (auto simp: leg_ready_def ready_def opened_def new_modes_balance has_transaction_def fresh_id_def
      transaction_of_def list_ex_iff image_iff)

text \<open>Before its first leg, a transaction has no posting in a book the schema keeps.\<close>

lemma no_postings_yet:
  assumes "wf_book ct b" and "u \<notin> txn_id ` set (transactions b)"
  shows "legs_of b u = []"
proof -
  have "pst_txn p \<noteq> u" if "p \<in> set (postings b)" for p
    using wf_bookD(7) [OF assms(1) that] assms(2)
    by (auto simp: posting_fine_def has_transaction_def list_ex_iff image_iff)
  then show ?thesis by (simp add: legs_of_def filter_empty_conv)
qed

lemma postings_for_shape:
  assumes "leg_verdict b cur ls = None"
  shows "map pst_amount (postings_for b u t n ls) = map lg_amount ls \<and>
    (\<forall>p \<in> set (postings_for b u t n ls). pst_txn p = u) \<and>
    map pst_id (postings_for b u t n ls) = [n ..< n + length ls]"
  using assms
proof (induction ls arbitrary: n)
  case (Cons l ls)
  then obtain a where "account_with_code b (lg_account l) = Some a" "leg_verdict b cur ls = None"
    by (auto simp: Let_def split: if_splits option.splits)
  with Cons.IH [of "Suc n"] show ?case
    by (auto simp: posting_of_def simp del: upt_Suc simp: upt_conv_Cons)
qed simp

lemma unbalanced_code: "assert_transaction_balances b u = Some p \<Longrightarrow> pg_code p = ''LB001''"
  by (auto simp: assert_transaction_balances_def Let_def server_refusal_def split: if_splits)

text \<open>Asking now, once the legs are in: the transaction's check, and the one its legs queued.\<close>

lemma settle_balance:
  assumes "ready s" and "leg_verdict (work s) (en_currency e) (en_legs e) = None"
  defines "u \<equiv> fresh_id s" and
    "rows \<equiv> postings_for (work s) (fresh_id s) (now s) (next_posting s) (en_legs e)"
  shows "if en_legs e = [] \<or> sum_list (map (sint \<circ> lg_amount) (en_legs e)) \<noteq> 0
    then \<exists>p. pg_code p = ''LB001'' \<and>
      exec (SetConstraints balance_constraints True) (with_legs u rows (opened e s)) =
        (Inl (PgErr p), (with_legs u rows (opened e s))\<lparr>failed := True\<rparr>)
    else exec (SetConstraints balance_constraints True) (with_legs u rows (opened e s)) =
      (Inr '''', s\<lparr>work := posted_book (work s) u (now s) (next_posting s) e, drawn := Suc (drawn s),
         next_posting := next_posting s + length (en_legs e),
         modes := new_modes balance_constraints True s\<rparr>)"
proof -
  let ?s3 = "with_legs u rows (opened e s)"
  have h: "healthy ?s3" using assms(1) by (simp add: ready_def)
  note shape = postings_for_shape [OF assms(2), of u "now s" "next_posting s", folded u_def, folded rows_def [unfolded u_def [symmetric]]]
  have len: "length rows = length (en_legs e)" using shape by (metis length_map)
  have none: "legs_of (work s) u = []"
    using assms(1) no_postings_yet unfolding ready_def u_def fresh_id_def by blast
  have legs: "legs_of (work ?s3) u = rows"
  proof -
    have "filter (\<lambda>p. pst_txn p = u) rows = rows" using shape by (simp add: filter_id_conv)
    with none show ?thesis by (simp add: legs_of_def)
  qed
  have "map (sint \<circ> pst_amount) rows = map (sint \<circ> lg_amount) (en_legs e)"
    using shape by (metis map_map)
  then have net: "net_of_transaction (work ?s3) u = sum_list (map (sint \<circ> lg_amount) (en_legs e))"
    by (simp add: net_of_transaction_def legs)
  let ?go = "new_modes balance_constraints True s"
  have m: "new_modes balance_constraints True ?s3 = ?go"
    by (simp add: fun_eq_iff new_modes_balance opened_def)
  have keys: "filter (\<lambda>ev. ?go (trigger_of ev)) (pending s) = []"
    "filter (\<lambda>ev. \<not> ?go (trigger_of ev)) (pending s) = pending s"
    using assms(1) by (auto simp: ready_def new_modes_balance filter_empty_conv filter_id_conv)
  have q: "balance_checks (work s) = []" using assms(1) by (simp add: ready_def)
  let ?a = "assert_transaction_balances (work ?s3) u"
  have a: "?a = None \<longleftrightarrow> \<not> (en_legs e = [] \<or> sum_list (map (sint \<circ> lg_amount) (en_legs e)) \<noteq> 0)"
    using len by (auto simp: assert_transaction_balances_def legs net Let_def)
  have "pending ?s3 = pending s @ TransactionInserted u # (if rows = [] then [] else [BalanceCheckInserted u])"
    using q by (simp add: with_legs_def u_def)
  then have pend: "filter (\<lambda>ev. ?go (trigger_of ev)) (pending ?s3) =
      TransactionInserted u # (if rows = [] then [] else [BalanceCheckInserted u])"
    "filter (\<lambda>ev. \<not> ?go (trigger_of ev)) (pending ?s3) = pending s"
    using keys by (simp_all add: new_modes_balance [of True s TransactionsMustBalance]
        new_modes_balance [of True s BalanceChecksMustBalance])
  show ?thesis
  proof (cases ?a)
    case (Some p)
    with a pend unbalanced_code [OF Some] show ?thesis
      by (simp add: exec_healthy [OF h] set_constraints_def m transactions_balance_check_def)
  next
    case None
    with a len have "rows \<noteq> []" and n: "en_legs e \<noteq> []" by auto
    have w: "(work ?s3)\<lparr>balance_checks := filter (\<lambda>v. v \<noteq> u) (balance_checks (work ?s3))\<rparr> =
        posted_book (work s) u (now s) (next_posting s) e"
      by (rule book.equality)
         (simp_all add: posted_book_def opened_def with_legs_def queue_a_balance_check_def q rows_def u_def)
    have "?s3\<lparr>work := w', modes := ?go, pending := pending s\<rparr> =
        s\<lparr>work := w', drawn := Suc (drawn s), next_posting := next_posting s + length (en_legs e), modes := ?go\<rparr>" for w'
      by (rule session.equality) (simp_all add: with_legs_def opened_def len \<open>rows \<noteq> []\<close>)
    note eq = this [of "posted_book (work s) u (now s) (next_posting s) e", folded w]
    have go: "filter (\<lambda>ev. ?go (trigger_of ev)) (pending ?s3) = [TransactionInserted u, BalanceCheckInserted u]"
      using pend(1) \<open>rows \<noteq> []\<close> by simp
    from n \<open>rows \<noteq> []\<close> None a go pend(2) h show ?thesis
      by (simp add: exec_healthy [OF h] set_constraints_def m transactions_balance_check_def
          queued_balance_check_def eq w [symmetric])
  qed
qed

section \<open>The outcome\<close>

definition accepted :: "session \<Rightarrow> entry \<Rightarrow> bool" where
  "accepted s e \<longleftrightarrow> entry_verdict (ctype_of s) (work s) e = None"

lemma accepted_iff:
  "accepted s e \<longleftrightarrow> header_fine (ctype_of s) e \<and>
     leg_verdict (work s) (en_currency e) (en_legs e) = None \<and> en_legs e \<noteq> [] \<and>
     sum_list (map (sint \<circ> lg_amount) (en_legs e)) = 0"
  by (auto simp: accepted_def entry_verdict_def split: option.split)

lemma uuid_in_fresh: "uuid_in (uuid_out u) = Some u"
  by (rule uuid_in_out)

lemma healthy_modes: "healthy s \<Longrightarrow> exec (SetConstraints cs False) s = (Inr '''', s\<lparr>modes := new_modes cs False s\<rparr>)"
  by (rule defer_healthy)

lemma new_modes_twice:
  "new_modes cs im (s\<lparr>drawn := d, next_posting := n, work := b, modes := new_modes cs im' s\<rparr>) = new_modes cs im s"
  by (simp add: fun_eq_iff new_modes_def)

definition posted :: "entry \<Rightarrow> session \<Rightarrow> session" where
  "posted e s = s\<lparr>work := posted_book (work s) (fresh_id s) (now s) (next_posting s) e,
     drawn := Suc (drawn s), next_posting := next_posting s + length (en_legs e),
     modes := new_modes balance_constraints False s\<rparr>"

lemma post_inner_accepted:
  assumes "ready s" and "accepted s e"
  shows "post_inner e s = (Inr (uuid_out (fresh_id s)), posted e s)"
proof -
  have h: "healthy s" using assms(1) by (simp add: ready_def)
  have v: "leg_verdict (work s) (en_currency e) (en_legs e) = None" "header_fine (ctype_of s) e"
    "en_legs e \<noteq> []" "sum_list (map (sint \<circ> lg_amount) (en_legs e)) = 0"
    using assms(2) by (simp_all add: accepted_iff)
  let ?s2 = "opened e s"
  let ?rows = "postings_for (work s) (fresh_id s) (now s) (next_posting s) (en_legs e)"
  have "insert_legs (uuid_out (fresh_id s)) e 0 (en_legs e) ?s2 = (Inr (), with_legs (fresh_id s) ?rows ?s2)"
    using insert_legs_taken [OF opened_leg_ready [OF assms(1)] uuid_in_fresh, where ls = "en_legs e" and e = e and i = 0] v(1)
      leg_verdict_cong [of "work ?s2" "work s"] postings_for_cong [of "work ?s2" "work s"] by simp
  moreover note settle_balance [OF assms(1) v(1)]
  ultimately show ?thesis
    using v h header_taken [OF assms(1) v(2)]
    by (simp add: post_inner_def attempt_def ret_def healthy_modes posted_def)
       (simp add: new_modes_def fun_eq_iff session.equality)
qed

lemma refused_leg_classified:
  "refused_leg x p \<Longrightarrow> 0 \<le> i \<Longrightarrow> classify (PgErr p) e i l = leg_err i l x p"
  by (auto simp: refused_leg_def classify_def as_pg_def)

lemma refused_header_classified:
  "refused_leg ErrRejected p \<Longrightarrow>
     classify (PgErr p) e (- 1) no_leg = Errorf [Cause (Sentinel ErrRejected), Txt '': currency '',
       Quo (shown (en_currency e)), Txt '', description '', Quo (shown (en_description e)), Txt '', over '',
       Txt (postings_of (int (length (en_legs e)))), Txt '': '', Cause (PgErr p)]"
  by (auto simp: refused_leg_def classify_def as_pg_def split: if_splits)

text \<open>What the error of a refused entry says, before and after the second look.\<close>

definition tells :: "err \<Rightarrow> sentinel \<Rightarrow> leg_fields option \<Rightarrow> bool" where
  "tells x y l \<longleftrightarrow> (\<forall>z. errors_is x z \<longleftrightarrow> z = y) \<and> as_leg x = l \<and> as_pg x \<noteq> None"

definition leg_told :: "entry \<Rightarrow> nat \<Rightarrow> gostr \<Rightarrow> leg_fields" where
  "leg_told e i held = \<lparr>lf_index = int i, lf_account = lg_account (en_legs e ! i),
     lf_amount = lg_amount (en_legs e ! i), lf_holds = held\<rparr>"

definition held_currency :: "book \<Rightarrow> gostr \<Rightarrow> gostr" where
  "held_currency b c = (case account_with_code b c of None \<Rightarrow> '''' | Some a \<Rightarrow> acc_currency a)"

definition told :: "book \<Rightarrow> entry \<Rightarrow> sentinel \<Rightarrow> nat option \<Rightarrow> leg_fields option" where
  "told b e x at' = map_option (\<lambda>i. leg_told e i
     (if x = ErrCurrencyMismatch then held_currency b (lg_account (en_legs e ! i)) else '''')) at'"

lemma tells_leg_err: "tells (leg_err (int k) (en_legs e ! k) x p) x (Some (leg_told e k ''''))"
  by (auto simp: tells_def leg_err_def errors_is_def as_leg_def as_pg_def leg_told_def)

lemma tells_unbalanced: "tells (unbalanced e p) ErrUnbalanced None"
  by (auto simp: tells_def unbalanced_def entry_net_def errors_is_def as_leg_def as_pg_def)

text \<open>The session at the refusal: past the uuid it drew, and otherwise as the savepoint will have it.\<close>

definition abandoned :: "session \<Rightarrow> session \<Rightarrow> bool" where
  "abandoned s s' \<longleftrightarrow> s' = s\<lparr>work := work s', pending := pending s', modes := modes s',
     drawn := Suc (drawn s), next_posting := next_posting s'\<rparr>"

lemma abandoned_opened: "abandoned s (opened e s)"
  by (simp add: abandoned_def opened_def)

lemma abandoned_moved: "abandoned s t \<Longrightarrow> moved_on t s' \<Longrightarrow> abandoned s s'"
  by (cases s; cases t; cases s') (simp add: abandoned_def moved_on_def)

lemma abandoned_header: "abandoned s (s\<lparr>modes := m, drawn := Suc (drawn s)\<rparr>)"
  by (simp add: abandoned_def)

lemma post_inner_header_refused:
  assumes "ready s" and "\<not> header_fine (ctype_of s) e"
  shows "\<exists>err s'. post_inner e s = (Inl err, s'\<lparr>failed := True\<rparr>) \<and> tells err ErrRejected None \<and> abandoned s s'"
proof -
  have h: "healthy s" using assms(1) by (simp add: ready_def)
  obtain p where p: "exec (InsertTransaction (en_currency e) (en_description e) (occurred_at e))
      (s\<lparr>modes := new_modes balance_constraints False s\<rparr>) =
      (Inl (PgErr p), s\<lparr>modes := new_modes balance_constraints False s, drawn := Suc (drawn s), failed := True\<rparr>)"
     "refused_leg ErrRejected p"
    using header_refused [OF assms] by blast
  have t: "tells (classify (PgErr p) e (- 1) no_leg) ErrRejected None"
    by (auto simp: refused_header_classified [OF p(2)] tells_def errors_is_def as_leg_def as_pg_def)
  have "post_inner e s = (Inl (classify (PgErr p) e (- 1) no_leg),
      s\<lparr>modes := new_modes balance_constraints False s, drawn := Suc (drawn s), failed := True\<rparr>)"
    using p(1) by (simp add: post_inner_def attempt_def healthy_modes [OF h] fail_def)
  with t abandoned_header [of s] show ?thesis by blast
qed

lemma post_inner_leg_refused:
  assumes "ready s" and "header_fine (ctype_of s) e"
    and "leg_verdict (work s) (en_currency e) (en_legs e) = Some (k, x)"
  shows "\<exists>err s'. post_inner e s = (Inl err, s'\<lparr>failed := True\<rparr>) \<and> abandoned s s' \<and>
    (\<exists>p. err = leg_err (int k) (en_legs e ! k) x p)"
proof -
  have h: "healthy s" using assms(1) by (simp add: ready_def)
  have v: "leg_verdict (work (opened e s)) (en_currency e) (en_legs e) = Some (k, x)"
    using assms(3) leg_verdict_cong [of "work (opened e s)" "work s"] by simp
  obtain p s' where l: "insert_legs (uuid_out (fresh_id s)) e 0 (en_legs e) (opened e s) =
      (Inl (classify (PgErr p) e (0 + int k) (en_legs e ! k)), s'\<lparr>failed := True\<rparr>)"
    "moved_on (opened e s) s'" "refused_leg x p"
    using insert_legs_refused [OF opened_leg_ready [OF assms(1)] uuid_in_fresh v] by blast
  have "post_inner e s = (Inl (leg_err (int k) (en_legs e ! k) x p), s'\<lparr>failed := True\<rparr>)"
    using l(1) header_taken [OF assms(1,2)] refused_leg_classified [OF l(3)]
    by (simp add: post_inner_def attempt_def healthy_modes [OF h] fail_def)
  with abandoned_moved [OF abandoned_opened l(2)] show ?thesis by blast
qed

lemma post_inner_net_refused:
  assumes "ready s" and "header_fine (ctype_of s) e"
    and "leg_verdict (work s) (en_currency e) (en_legs e) = None"
    and "en_legs e = [] \<or> sum_list (map (sint \<circ> lg_amount) (en_legs e)) \<noteq> 0"
  shows "\<exists>err s'. post_inner e s = (Inl err, s'\<lparr>failed := True\<rparr>) \<and> tells err ErrUnbalanced None \<and> abandoned s s'"
proof -
  have h: "healthy s" using assms(1) by (simp add: ready_def)
  let ?rows = "postings_for (work s) (fresh_id s) (now s) (next_posting s) (en_legs e)"
  let ?s3 = "with_legs (fresh_id s) ?rows (opened e s)"
  have l: "insert_legs (uuid_out (fresh_id s)) e 0 (en_legs e) (opened e s) = (Inr (), ?s3)"
    using insert_legs_taken [OF opened_leg_ready [OF assms(1)] uuid_in_fresh, where ls = "en_legs e" and e = e and i = 0]
      assms(3) leg_verdict_cong [of "work (opened e s)" "work s"] postings_for_cong [of "work (opened e s)" "work s"]
    by simp
  obtain p where p: "pg_code p = ''LB001''"
    "exec (SetConstraints balance_constraints True) ?s3 = (Inl (PgErr p), ?s3\<lparr>failed := True\<rparr>)"
    using settle_balance [OF assms(1,3)] assms(4) by auto
  then have c: "classify (PgErr p) e (- 1) no_leg = unbalanced e p" by (simp add: classify_def as_pg_def)
  have "post_inner e s = (Inl (unbalanced e p), ?s3\<lparr>failed := True\<rparr>)"
    using l p(2) header_taken [OF assms(1,2)]
    by (simp add: post_inner_def attempt_def healthy_modes [OF h] fail_def c)
  with tells_unbalanced abandoned_moved [OF abandoned_opened moved_on_with_legs] show ?thesis by blast
qed

text \<open>The second look: only a currency mismatch has more to say.\<close>

lemma explain_silent:
  assumes "tells x y l" and "y \<noteq> ErrCurrencyMismatch \<or> l = None"
  shows "explain x e s = (Inl x, s)"
  using assms by (auto simp: explain_def tells_def fail_def split: option.split)

lemma leg_verdict_at:
  "leg_verdict b cur ls = Some (k, x) \<Longrightarrow> k < length ls \<and>
     (x = ErrCurrencyMismatch \<longrightarrow> text_ok (lg_account (ls ! k)) \<and> account_with_code b (lg_account (ls ! k)) \<noteq> None)"
  by (induction ls arbitrary: k) (auto simp: Let_def split: if_splits option.splits)

lemma explain_mismatch:
  assumes "healthy s" and "text_ok (lg_account (en_legs e ! k))"
    and "account_with_code (work s) (lg_account (en_legs e ! k)) = Some a"
  shows "\<exists>err. explain (leg_err (int k) (en_legs e ! k) ErrCurrencyMismatch p) e s = (Inl err, s) \<and>
    tells err ErrCurrencyMismatch (Some (leg_told e k (acc_currency a)))"
  using assms
  by (auto simp: explain_def leg_err_def as_leg_def as_pg_def errors_is_def attempt_def query_row_healthy
      holds_query_def fail_def tells_def leg_told_def)

lemma abandoned_restored:
  assumes "abandoned s s'"
  shows "s'\<lparr>work := work s, pending := pending s, modes := modes s, saves := st\<rparr> =
    s\<lparr>drawn := Suc (drawn s), next_posting := next_posting s', saves := st\<rparr>"
  using assms by (cases s; cases s') (simp add: abandoned_def)

lemma abandoned_healthy: "abandoned s s' \<Longrightarrow> healthy s' = healthy s"
  by (cases s; cases s') (auto simp: abandoned_def healthy_def)

text \<open>Under its savepoint the work is the same but for the stack it leaves alone.\<close>

lemma ready_saves [simp]: "ready (s\<lparr>saves := st\<rparr>) = ready s"
  by (simp add: ready_def)

lemma accepted_saves [simp]: "accepted (s\<lparr>saves := st\<rparr>) e = accepted s e"
  by (simp add: accepted_def)

lemma new_modes_saves [simp]: "new_modes cs im (s\<lparr>saves := st\<rparr>) = new_modes cs im s"
  by (simp add: fun_eq_iff new_modes_def)

lemma post_accepted:
  assumes "ready s" and "accepted s e"
  shows "post e s = (Inr (uuid_out (fresh_id s)), posted e s)"
proof -
  let ?s1 = "s\<lparr>saves := (post_savepoint, snapshot_of s) # saves s\<rparr>"
  have h: "healthy s" using assms(1) by (simp add: ready_def)
  have "post_inner e ?s1 = (Inr (uuid_out (fresh_id ?s1)), posted e ?s1)"
    by (rule post_inner_accepted) (use assms in simp_all)
  from post_work.guarded_done [OF h this] h show ?thesis
    by (simp add: post_guarded posted_def fresh_id_def)
qed

definition refused_session :: "session \<Rightarrow> nat \<Rightarrow> session" where
  "refused_session s n = s\<lparr>drawn := Suc (drawn s), next_posting := n,
     saves := (post_savepoint, snapshot_of s) # saves s\<rparr>"

lemma post_refused:
  assumes "ready s" and "entry_verdict (ctype_of s) (work s) e = Some (x, at')"
  shows "\<exists>err n. post e s = (Inl err, refused_session s n) \<and> tells err x (told (work s) e x at')"
proof -
  let ?s1 = "s\<lparr>saves := (post_savepoint, snapshot_of s) # saves s\<rparr>"
  have h: "healthy s" and r: "ready ?s1" using assms(1) by (simp_all add: ready_def)
  have out: "post e s = explain err e (refused_session s (next_posting s'))"
    if "post_inner e ?s1 = (Inl err, s'\<lparr>failed := True\<rparr>)" "abandoned ?s1 s'" for err s'
  proof -
    have "healthy s'" using abandoned_healthy [OF that(2)] h by simp
    from post_work.guarded_undone [OF h that(1) this] abandoned_restored [OF that(2)]
    show ?thesis by (simp add: post_guarded refused_session_def)
  qed
  have silent: "\<exists>err n. post e s = (Inl err, refused_session s n) \<and> tells err x l"
    if "post_inner e ?s1 = (Inl err, s'\<lparr>failed := True\<rparr>)" "abandoned ?s1 s'" "tells err x l"
      "x \<noteq> ErrCurrencyMismatch \<or> l = None" for err s' l
    using out [OF that(1,2)] explain_silent [OF that(3,4), of e] that(3) by auto
  consider (header) "\<not> header_fine (ctype_of s) e" "x = ErrRejected" "at' = None"
    | (leg) k where "header_fine (ctype_of s) e" "leg_verdict (work s) (en_currency e) (en_legs e) = Some (k, x)" "at' = Some k"
    | (net) "header_fine (ctype_of s) e" "leg_verdict (work s) (en_currency e) (en_legs e) = None"
        "en_legs e = [] \<or> sum_list (map (sint \<circ> lg_amount) (en_legs e)) \<noteq> 0" "x = ErrUnbalanced" "at' = None"
    using assms(2) by (auto simp: entry_verdict_def split: if_splits option.splits)
  then show ?thesis
  proof cases
    case header
    with post_inner_header_refused [OF r, of e] silent [of _ _ None] show ?thesis
      by (auto simp: told_def)
  next
    case net
    with post_inner_net_refused [OF r, of e] silent [of _ _ None] show ?thesis
      by (auto simp: told_def)
  next
    case leg
    then obtain s' p where w: "post_inner e ?s1 = (Inl (leg_err (int k) (en_legs e ! k) x p), s'\<lparr>failed := True\<rparr>)"
      "abandoned ?s1 s'"
      using post_inner_leg_refused [OF r, of e k x] by auto
    show ?thesis
    proof (cases "x = ErrCurrencyMismatch")
      case False
      with silent [OF w tells_leg_err] leg(3) show ?thesis by (simp add: told_def)
    next
      case True
      from leg_verdict_at [OF leg(2)] True obtain a where
        a: "text_ok (lg_account (en_legs e ! k))" "account_with_code (work s) (lg_account (en_legs e ! k)) = Some a"
        by auto
      have "healthy (refused_session s n)" "work (refused_session s n) = work s" for n
        using h by (simp_all add: refused_session_def)
      with a out [OF w] explain_mismatch [of "refused_session s (next_posting s')" e k a p] leg(3) True
      show ?thesis by (auto simp: told_def held_currency_def)
    qed
  qed
qed

lemma leg_verdict_None:
  "leg_verdict b cur ls = None \<longleftrightarrow> (\<forall>l \<in> set ls. text_ok (lg_account l) \<and> lg_amount l \<noteq> 0 \<and>
     (\<exists>a. account_with_code b (lg_account l) = Some a \<and> acc_currency a = cur))"
  by (induction ls) (auto simp: Let_def split: option.splits)

section \<open>Properties\<close>

definition sample_entry :: "int64 \<Rightarrow> entry" where
  "sample_entry m = \<lparr>en_currency = ''USD'', en_description = ''Opening'', en_legs =
     [\<lparr>lg_account = ''assets.cash'', lg_amount = m\<rparr>, \<lparr>lg_account = ''equity'', lg_amount = - 500\<rparr>],
     en_occurred = 0\<rparr>"

lemma quiet_ready: "ready (quiet_session sample_book)"
  using sample_book_wf by (simp add: ready_def) code_simp

text \<open>
  C1. \<open>Post\<close> in a session ready for it takes exactly what the contract accepts: text the
  server can store, a currency and a description that pass their CHECKs, at least one leg, every
  leg a nonzero amount on an account that exists and holds the entry's currency, and the legs
  summing to zero exactly.  It answers the id of the one transaction it wrote, and the session
  afterwards is the session before with that transaction and its postings, in order, added.
\<close>

theorem post_takes_what_the_contract_accepts:
  assumes "ready s"
  shows "post e s = (Inr idt, s') \<longleftrightarrow>
      header_fine (ctype_of s) e \<and> en_legs e \<noteq> [] \<and> sum_list (map (sint \<circ> lg_amount) (en_legs e)) = 0 \<and>
      (\<forall>l \<in> set (en_legs e). text_ok (lg_account l) \<and> lg_amount l \<noteq> 0 \<and>
         (\<exists>a. account_with_code (work s) (lg_account l) = Some a \<and> acc_currency a = en_currency e)) \<and>
      idt = uuid_out (fresh_id s) \<and> s' = posted e s"
proof (cases "accepted s e")
  case True
  with post_accepted [OF assms True] show ?thesis by (auto simp: accepted_iff leg_verdict_None)
next
  case False
  then obtain x at' where "entry_verdict (ctype_of s) (work s) e = Some (x, at')"
    by (auto simp: accepted_def)
  from post_refused [OF assms this] False show ?thesis by (auto simp: accepted_iff leg_verdict_None)
qed

theorem post_takes_what_the_contract_accepts_witness:
  "post (sample_entry 500) (quiet_session sample_book) =
     (Inr (uuid_out (fresh_id (quiet_session sample_book))), posted (sample_entry 500) (quiet_session sample_book))"
proof -
  have e: "account_with_code sample_book ''assets.cash'' = Some (sample_account 0 ''assets.cash'' Asset ''USD'')"
    "account_with_code sample_book ''equity'' = Some (sample_account 1 ''equity'' Equity ''USD'')"
    "header_fine c_locale (sample_entry 500)" "text_ok ''assets.cash''" "text_ok ''equity''"
    by (simp add: account_with_code_def sample_book_def sample_account_def, simp add: account_with_code_def
        sample_book_def sample_account_def, code_simp, code_simp, code_simp)
  show ?thesis
    unfolding post_takes_what_the_contract_accepts [OF quiet_ready]
    using e by (simp add: sample_entry_def sample_account_def)
qed

text \<open>
  C2. \<open>Post\<close> in a session ready for it refuses everything else, and says why: one sentinel and no
  other (\<open>ErrUnbalanced\<close>, \<open>ErrUnknownAccount\<close>, \<open>ErrCurrencyMismatch\<close> or \<open>ErrRejected\<close>), around the
  server's own refusal; a refused leg comes with its index, its account, its amount, and, when
  the currencies differ, what the account holds.  The transaction stays usable, with the book, the
  waiting checks and their modes as they were.
\<close>

theorem post_refuses_with_the_reason:
  assumes "ready s" and "entry_verdict (ctype_of s) (work s) e = Some (x, at')"
  shows "\<exists>err n. post e s = (Inl err, s\<lparr>drawn := Suc (drawn s), next_posting := n,
      saves := (post_savepoint, snapshot_of s) # saves s\<rparr>) \<and>
    (\<forall>z. errors_is err z \<longleftrightarrow> z = x) \<and> as_pg err \<noteq> None \<and> as_leg err = told (work s) e x at'"
  using post_refused [OF assms] by (auto simp: refused_session_def tells_def)

theorem post_refuses_with_the_reason_witness:
  "\<exists>err n. post (sample_entry 499) (quiet_session sample_book) = (Inl err, (quiet_session sample_book)\<lparr>
      drawn := Suc (drawn (quiet_session sample_book)), next_posting := n,
      saves := (post_savepoint, snapshot_of (quiet_session sample_book)) # saves (quiet_session sample_book)\<rparr>) \<and>
    (\<forall>z. errors_is err z \<longleftrightarrow> z = ErrUnbalanced) \<and> as_pg err \<noteq> None \<and>
    as_leg err = told (work (quiet_session sample_book)) (sample_entry 499) ErrUnbalanced None"
proof (rule post_refuses_with_the_reason [OF quiet_ready])
  show "entry_verdict (ctype_of (quiet_session sample_book)) (work (quiet_session sample_book)) (sample_entry 499) =
      Some (ErrUnbalanced, None)"
    by simp code_simp
qed

text \<open>
  C3. Whatever goes wrong while an entry is posted (a statement refused, the request cancelled,
  the connection lost), a \<open>Post\<close> that answers an error in a session that can still be used has
  left the book, the waiting checks and their modes as it found them.
\<close>

theorem refused_post_leaves_nothing:
  assumes "post e s = (Inl err, s')" and "usable s'"
  shows "untouched s s'"
  using assms unfolding post_guarded
  by (rule post_work.guarded_refused) (rule observes_explain)

theorem refused_post_leaves_nothing_witness:
  "\<exists>err s'. post (sample_entry 499) (quiet_session sample_book) = (Inl err, s') \<and> usable s' \<and>
    untouched (quiet_session sample_book) s'"
proof -
  have "entry_verdict (ctype_of (quiet_session sample_book)) (work (quiet_session sample_book)) (sample_entry 499) =
      Some (ErrUnbalanced, None)" by simp code_simp
  from post_refused [OF quiet_ready this] obtain err n where
    p: "post (sample_entry 499) (quiet_session sample_book) = (Inl err, refused_session (quiet_session sample_book) n)"
    by blast
  moreover have u: "usable (refused_session (quiet_session sample_book) n)"
    using healthyD [OF quiet_healthy, of sample_book] by (simp add: refused_session_def usable_def)
  ultimately show ?thesis using refused_post_leaves_nothing [OF p u] by blast
qed

section \<open>Reading back what was posted\<close>

lemma concat_if_filter: "concat (map (\<lambda>a. if P a then [f a] else []) as) = map f (filter P as)"
  by (induction as) auto

lemma filter_unique_key:
  "distinct (map k xs) \<Longrightarrow> x \<in> set xs \<Longrightarrow> filter (\<lambda>y. k y = k x) xs = [x]"
  by (induction xs) (auto simp: filter_empty_conv image_iff)

lemma leg_joined:
  assumes "distinct (map acc_id (accounts b))" and "account_with_code b (lg_account l) = Some r"
    and "pst_account p = acc_id r" and "pst_amount p = lg_amount l"
  shows "[\<lparr>lg_account = acc_code a, lg_amount = pst_amount p\<rparr>. a \<leftarrow> accounts b, acc_id a = pst_account p] = [l]"
  using account_with_codeD [OF assms(2)] filter_unique_key [OF assms(1), of r] assms(3,4)
  by (simp add: concat_if_filter)

lemma legs_joined_posted:
  assumes "distinct (map acc_id (accounts b))" and "leg_verdict b cur ls = None"
    and "legs_of b' u = postings_for b u t n ls" and "accounts b' = accounts b"
  shows "legs_joined b' u = ls"
proof -
  have "[\<lparr>lg_account = acc_code a, lg_amount = pst_amount p\<rparr>.
      p \<leftarrow> postings_for b u t n ls, a \<leftarrow> accounts b, acc_id a = pst_account p] = ls"
    using assms(2)
  proof (induction ls arbitrary: n)
    case (Cons l ls)
    from Cons.prems obtain a where a: "account_with_code b (lg_account l) = Some a" and "leg_verdict b cur ls = None"
      by (auto simp: Let_def split: if_splits option.splits)
    then obtain p where p: "posting_of b u t n l = Some p" "pst_account p = acc_id a" "pst_amount p = lg_amount l"
      by (auto simp: posting_of_def)
    show ?case using Cons.IH [of "Suc n"] \<open>leg_verdict b cur ls = None\<close> leg_joined [OF assms(1) a p(2,3)] p(1)
      by (simp del: concat_map_singleton)
  qed simp
  moreover have "sort_key pst_id (postings_for b u t n ls) = postings_for b u t n ls"
    using postings_for_shape [OF assms(2), of u t n] by (intro sort_key_id_if_sorted) simp
  ultimately show ?thesis by (simp add: legs_joined_def assms(3,4))
qed

text \<open>
  C4. An entry \<open>Post\<close> answered an id for, whatever might have gone wrong on the way, reads back
  under that id as it was given: the same currency, description and legs in the same order, and
  the time it carried to the microsecond, or the transaction's own clock where it carried none.
\<close>

theorem posted_entry_reads_back:
  assumes "ready (calm s)" and "post e s = (Inr idt, s')" and "readable r" and "work r = work s'"
  shows "entry_of idt r = (Inr (idt, e\<lparr>en_occurred :=
    (if time_is_zero (en_occurred e) then now s else timestamptz (en_occurred e))\<rparr>), r)"
proof -
  let ?c = "calm s" and ?u = "fresh_id (calm s)"
  have p: "post e ?c = (Inr idt, calm s')" by (rule faultlessD [OF faultless_post assms(2)])
  have acc: "accepted ?c e"
  proof (rule ccontr)
    assume "\<not> accepted ?c e"
    then obtain x at' where "entry_verdict (ctype_of ?c) (work ?c) e = Some (x, at')"
      unfolding accepted_def by (metis not_None_eq surj_pair)
    from post_refused [OF assms(1) this] p show False by auto
  qed
  then have v: "leg_verdict (work s) (en_currency e) (en_legs e) = None" by (simp add: accepted_iff)
  from post_accepted [OF assms(1) acc] p have idt: "idt = uuid_out ?u" and "calm s' = posted e ?c" by simp_all
  then have w: "work r = posted_book (work s) ?u (now s) (next_posting s) e"
    using assms(4) calm_frame(1) [of s'] by (simp add: posted_def)
  have wf: "wf_book (ctype_of s) (work s)" and fresh: "?u \<notin> txn_id ` set (transactions (work s))"
    using assms(1) by (simp_all add: ready_def fresh_id_def)
  have "legs_of (work r) ?u = postings_for (work s) ?u (now s) (next_posting s) (en_legs e)"
    using no_postings_yet [OF wf fresh] postings_for_shape [OF v, of ?u "now s" "next_posting s"]
    by (simp add: w posted_book_def legs_of_def filter_id_conv)
  then have legs: "legs_joined (work r) ?u = en_legs e"
    by (rule legs_joined_posted [OF wf_bookD(1) [OF wf] v]) (simp add: w posted_book_def)
  have "List.find (\<lambda>t. txn_id t = ?u) (transactions (work s)) = None"
    using fresh by (simp add: find_None_iff image_iff) metis
  then have find: "List.find (\<lambda>t. txn_id t = ?u) (transactions (work r)) = Some (transaction_of ?u (now s) e)"
    by (simp add: w posted_book_def find_append transaction_of_def)
  have "text_ok (uuid_out ?u)" by (rule text_ok_uuid_out)
  then show ?thesis
    using find legs
    by (simp add: entry_of_def idt attempt_def query_row_readable [OF assms(3)] query_readable [OF assms(3)]
        transaction_query_def legs_query_def uuid_in_fresh Let_def ret_def transaction_of_def occurred_at_def)
qed

theorem posted_entry_reads_back_witness:
  "entry_of (uuid_out 1) (quiet_session (work (posted (sample_entry 500) (quiet_session sample_book)))) =
     (Inr (uuid_out 1, (sample_entry 500)\<lparr>en_occurred := 1000\<rparr>),
      quiet_session (work (posted (sample_entry 500) (quiet_session sample_book))))"
proof -
  have u: "fresh_id (quiet_session sample_book) = 1" by (simp add: fresh_id_def)
  have "accepted (quiet_session sample_book) (sample_entry 500)"
    unfolding accepted_def quiet_frame by code_simp
  from post_accepted [OF quiet_ready this] have p: "post (sample_entry 500) (quiet_session sample_book) =
      (Inr (uuid_out 1), posted (sample_entry 500) (quiet_session sample_book))" by (simp add: u)
  have c: "ready (calm (quiet_session sample_book))"
    using quiet_ready by (simp add: healthy_calm)
  show ?thesis
    using posted_entry_reads_back [OF c p quiet_readable quiet_frame(1)]
    by (simp add: sample_entry_def time_is_zero_def)
qed

end
