(* ===== verification/Idempotency.thy ===== *)
theory Idempotency
  imports PostLaws
begin

text \<open>
  \<^verbatim>\<open>internal/ledger/idempotency.go\<close>: running a write under a client's key, at most once ever.
  What \<open>once\<close> asks of the write is the locale \<open>writer\<close>; \<open>post\<close> is one.  The theory shows what a
  call answers on each branch, that a refused one leaves nothing behind, and that a settled key
  is never anything else again.
\<close>

section \<open>Once\<close>

record claim =
  cl_key :: gostr
  cl_hash :: gostr

record once_record =
  rc_key :: gostr
  rc_transaction :: gostr
  rc_replayed :: bool

definition once_savepoint :: gostr where
  "once_savepoint = ''ledger_once''"

definition settled_constraint :: "deferred_trigger list" where
  "settled_constraint = [KeysMustBeSettled]"

definition key_shape :: gostr where
  "key_shape = ''16 to 255 printable characters, no spaces''"

definition replay_query :: "gostr \<Rightarrow> session \<Rightarrow> pg_error + key_row option" where
  "replay_query k s = (if \<not> text_ok k then Inl bad_text else Inr (key_with (work s) k))"

definition replay :: "claim \<Rightarrow> once_record act" where
  "replay c =
     attempt (query_row (replay_query (cl_key c)))
       (\<lambda>e. fail
          (if errors_is e ErrNoRows
           then Errorf [Txt ''the key '', Quo (shown (cl_key c)), Txt '' was taken and is already gone'']
           else Errorf [Txt ''read the result stored under '', Quo (shown (cl_key c)), Txt '': '', Cause e]))
       (\<lambda>r. if key_hash r \<noteq> cl_hash c
            then fail (Errorf [Cause (Sentinel ErrKeyReused), Txt '': '', Quo (shown (cl_key c))])
            else case key_txn r of
              None \<Rightarrow> fail (Errorf [Txt ''the key '', Quo (shown (cl_key c)), Txt '' is stored with no transaction''])
            | Some u \<Rightarrow> ret \<lparr>rc_key = cl_key c, rc_transaction = uuid_out u, rc_replayed = True\<rparr>)"

definition rollback_to_once :: "unit act" where
  "rollback_to_once =
     attempt (exec (RollbackTo once_savepoint)) (\<lambda>e. fail (wrapped ''rollback to savepoint'' e)) (\<lambda>_. ret ())"

definition release_once :: "unit act" where
  "release_once =
     attempt (exec (Release once_savepoint)) (\<lambda>e. fail (wrapped ''release savepoint'' e)) (\<lambda>_. ret ())"

definition bad_key :: "err \<Rightarrow> claim \<Rightarrow> err" where
  "bad_key e c =
     (case as_pg e of
        None \<Rightarrow> Errorf [Txt ''reserve the idempotency key '', Quo (shown (cl_key c)), Txt '': '', Cause e]
      | Some p \<Rightarrow>
          if pg_constraint p = ''idempotency_keys_key_shape'' then
            Errorf [Cause (Sentinel ErrBadKey), Txt '': '', Quo (shown (cl_key c)), Txt '' is '',
              Txt (count_of (int (rune_count (cl_key c))) ''character''), Txt '', and a key is '',
              Txt key_shape, Txt '': '', Cause (PgErr p)]
          else
            Errorf [Cause (Sentinel ErrBadKey), Txt '': the key '', Quo (shown (cl_key c)),
              Txt '' was reserved with a '', Txt (itoa (int (length (cl_hash c)))),
              Txt ''-byte request fingerprint: '', Cause (PgErr p)])"

text \<open>
  The three ways out of the middle of \<open>once\<close> share a shape: roll back, and if that fails too say
  both; otherwise answer with the error at hand.
\<close>

definition undo_once :: "err \<Rightarrow> err \<Rightarrow> once_record act" where
  "undo_once e answer = attempt rollback_to_once (\<lambda>rb. fail (Joined [e, rb])) (\<lambda>_. fail answer)"

definition key_taken :: "claim \<Rightarrow> once_record act" where
  "key_taken c =
     attempt (replay c)
       (\<lambda>e. attempt release_once (\<lambda>rel. fail (Joined [e, rel])) (\<lambda>_. fail e))
       (\<lambda>rec. attempt release_once (\<lambda>rel. fail (Joined [rel])) (\<lambda>_. ret rec))"

definition settle :: "claim \<Rightarrow> gostr \<Rightarrow> once_record act" where
  "settle c idt =
     attempt (exec (SettleKey (cl_key c) idt))
       (\<lambda>e. undo_once e (Errorf [Txt ''record transaction '', Txt idt, Txt '' under key '',
              Quo (shown (cl_key c)), Txt '': '', Cause e]))
       (\<lambda>_. attempt (exec (SetConstraints settled_constraint True))
         (\<lambda>e. undo_once e (Errorf [Txt ''settle key '', Quo (shown (cl_key c)), Txt '' against transaction '',
                Txt idt, Txt '': '', Cause e]))
         (\<lambda>_. attempt (exec (SetConstraints settled_constraint False))
           (\<lambda>e. fail (wrapped ''re-defer the settled check'' e))
           (\<lambda>_. attempt release_once fail
             (\<lambda>_. ret \<lparr>rc_key = cl_key c, rc_transaction = idt, rc_replayed = False\<rparr>))))"

definition once :: "claim \<Rightarrow> gostr act \<Rightarrow> once_record act" where
  "once c w =
     attempt (exec (Savepoint once_savepoint)) (\<lambda>e. fail (wrapped ''savepoint'' e)) (\<lambda>_.
     attempt (exec (SetConstraints settled_constraint False))
       (\<lambda>e. fail (wrapped ''defer the settled check'' e)) (\<lambda>_.
     attempt (exec (InsertKey (cl_key c) (cl_hash c)))
       (\<lambda>e. attempt rollback_to_once (\<lambda>rb. fail (Joined [e, rb])) (\<lambda>_.
          if sqlstate e = ''23505'' then key_taken c else fail (bad_key e c)))
       (\<lambda>_. attempt w (\<lambda>e. undo_once e e) (settle c))))"

section \<open>Touching the session through statements only\<close>

lemma via_replay [via_intros]: "via A (replay c)"
  unfolding replay_def by (intro via_intros)

lemma via_rollback_to_once [via_intros]: "via issued rollback_to_once"
  unfolding rollback_to_once_def by (intro via_intros) simp_all

lemma via_release_once [via_intros]: "via issued release_once"
  unfolding release_once_def by (intro via_intros) simp_all

lemma via_once [via_intros]: "via issued w \<Longrightarrow> via issued (once c w)"
  unfolding once_def key_taken_def settle_def undo_once_def by (intro via_intros) simp_all

lemma observes_replay: "observes (replay c)"
  unfolding replay_def by (intro observe_intros)

section \<open>A settled key is final\<close>

text \<open>
  Whatever a transaction sends, short of deleting the key, a key that names a transaction goes on
  naming it: in the work in hand, under every savepoint, and in what COMMIT leaves behind.
\<close>

definition names :: "gostr \<Rightarrow> key_row \<Rightarrow> book \<Rightarrow> bool" where
  "names k r b \<longleftrightarrow> key_with b k = Some r \<and> key_txn r \<noteq> None"

lemma names_cong: "idempotency_keys b' = idempotency_keys b \<Longrightarrow> names k r b' = names k r b"
  by (simp add: names_def key_with_def)

lemma find_filter_other: "(\<And>x. P x \<Longrightarrow> Q x) \<Longrightarrow> List.find P (filter Q xs) = List.find P xs"
  by (induction xs) auto

interpretation key_law: session_law ct "\<lambda>n b p. names k r b" "\<lambda>q. q \<noteq> DeleteKey k" for ct k r
proof (unfold_locales, goal_cases)
  case (2 n b p ev b')
  then show ?case using names_cong [OF fire_frame(4) [OF 2(2)]] by simp
next
  case (4 n b p u t code name kind currency b')
  then show ?case using insert_accountD [OF 4(2)] by (auto simp: names_def key_with_def)
next
  case (5 n b p u t currency description occurred b')
  then show ?case using insert_transactionD [OF 5(2)] by (auto simp: names_def key_with_def)
next
  case (6 n b p t txn acc cur amount b')
  then show ?case using insert_postingD [OF 6(2)] by (auto simp: names_def key_with_def)
next
  case (7 n b p t k' h b')
  then show ?case using insert_keyD [OF 7(2)] by (auto simp: names_def key_with_def find_append)
next
  case (8 n b p k' u b')
  from set_key_transactionD [OF 8(2)] show ?case
  proof (elim disjE exE conjE)
    assume "b' = b"
    with 8(1) show ?thesis by simp
  next
    fix r'
    assume r': "key_with b k' = Some r'" "key_txn r' = None" and b': "b' = b\<lparr>idempotency_keys :=
        map (\<lambda>x. if key_key x = k' then r'\<lparr>key_txn := Some u\<rparr> else x) (idempotency_keys b)\<rparr>"
    have "k' \<noteq> k" using r' 8(1) by (auto simp: names_def)
    moreover have "key_key r' = k'" using key_withD [OF r'(1)] by simp
    ultimately have "List.find (\<lambda>x. key_key x = k) (map (\<lambda>x. if key_key x = k' then r'\<lparr>key_txn := Some u\<rparr> else x) xs) =
        List.find (\<lambda>x. key_key x = k) xs" for xs
      by (induction xs) auto
    with 8(1) show ?thesis by (simp add: names_def key_with_def b')
  qed
next
  case (9 n b p k')
  then have "k' \<noteq> k" by auto
  then have "key_with (b\<lparr>idempotency_keys := filter (\<lambda>r. key_key r \<noteq> k') (idempotency_keys b)\<rparr>) k = key_with b k"
    by (simp add: key_with_def find_filter_other)
  with 9(1) show ?case by (simp add: names_def)
qed (simp_all add: names_def key_with_def)

lemma issued_keeps_keys: "issued q \<Longrightarrow> q \<noteq> DeleteKey k"
  by auto

section \<open>Under any fault\<close>

definition reaches :: "snapshot \<Rightarrow> session \<Rightarrow> bool" where
  "reaches sn s \<longleftrightarrow> (\<exists>rest. dropWhile (\<lambda>p. fst p \<noteq> once_savepoint) (saves s) = (once_savepoint, sn) # rest)"

definition back_at :: "snapshot \<Rightarrow> session \<Rightarrow> bool" where
  "back_at sn s \<longleftrightarrow> work s = sn_book sn \<and> pending s = sn_pending sn \<and> modes s = sn_modes sn"

text \<open>\<open>undoes sn m\<close>: refused in a session that can go on, \<open>m\<close> has taken it back to \<open>sn\<close>.\<close>

definition undoes :: "snapshot \<Rightarrow> 'a act \<Rightarrow> bool" where
  "undoes sn m \<longleftrightarrow> (\<forall>t e s'. reaches sn t \<longrightarrow> m t = (Inl e, s') \<longrightarrow> usable s' \<longrightarrow> back_at sn s')"

lemma undoesI:
  "(\<And>t e s'. reaches sn t \<Longrightarrow> m t = (Inl e, s') \<Longrightarrow> usable s' \<Longrightarrow> back_at sn s') \<Longrightarrow> undoes sn m"
  by (simp add: undoes_def)

lemma undoesD: "undoes sn m \<Longrightarrow> reaches sn t \<Longrightarrow> m t = (Inl e, s') \<Longrightarrow> usable s' \<Longrightarrow> back_at sn s'"
  unfolding undoes_def by blast

lemma reaches_stacks:
  assumes "stacks ns m" and "once_savepoint \<notin> ns" and "reaches sn t" and "m t = (r, s')"
  shows "reaches sn s'"
proof -
  obtain extra where e: "saves s' = extra @ saves t" "fst ` set extra \<subseteq> ns"
    using stacksD [OF assms(1), of t] assms(4) by auto
  have "dropWhile (\<lambda>p. fst p \<noteq> once_savepoint) (extra @ xs) = dropWhile (\<lambda>p. fst p \<noteq> once_savepoint) xs"
    if "once_savepoint \<notin> fst ` set extra" for xs
    using that by (induction extra) auto
  from this [of "saves t"] e assms(2,3) show ?thesis unfolding reaches_def by (metis subsetD)
qed

lemma rollback_to_once_Inl: "rollback_to_once t = (Inl e, s') \<Longrightarrow> \<not> usable s'"
  using exec_Inl [of "RollbackTo once_savepoint" t]
  by (auto simp: rollback_to_once_def attempt_def fail_def ret_def usable_def split: prod.splits sum.splits)

lemma release_once_Inl: "release_once t = (Inl e, s') \<Longrightarrow> \<not> usable s'"
  using exec_Inl [of "Release once_savepoint" t]
  by (auto simp: release_once_def attempt_def fail_def ret_def usable_def split: prod.splits sum.splits)

lemma rollback_to_once_Inr:
  assumes "rollback_to_once t = (Inr x, s')" and "reaches sn t"
  shows "back_at sn s'"
proof -
  obtain y where "exec (RollbackTo once_savepoint) t = (Inr y, s')"
    using assms(1) by (auto simp: rollback_to_once_def attempt_def fail_def ret_def split: prod.splits sum.splits)
  then have "rollback_to once_savepoint (snd (next_fault t)) = (Inr y, s')" using exec_Inr by fastforce
  moreover have "reaches sn (snd (next_fault t))" using assms(2) by (simp add: reaches_def)
  ultimately show ?thesis
    by (auto simp: reaches_def rollback_to_def restore_def back_at_def)
qed

lemma release_once_Inr:
  assumes "release_once t = (Inr x, s')" and "back_at sn t"
  shows "back_at sn s'"
proof -
  obtain y where "exec (Release once_savepoint) t = (Inr y, s')"
    using assms(1) by (auto simp: release_once_def attempt_def fail_def ret_def split: prod.splits sum.splits)
  then have "release once_savepoint (snd (next_fault t)) = (Inr y, s')" using exec_Inr by fastforce
  with assms(2) show ?thesis
    by (auto simp: release_def back_at_def split: list.splits)
qed

lemma undoes_attempt:
  assumes "stacks ns m" and "once_savepoint \<notin> ns" and "\<And>e. undoes sn (h e)" and "\<And>x. undoes sn (k x)"
  shows "undoes sn (attempt m h k)"
proof (rule undoesI)
  fix t e s'
  assume t: "reaches sn t" "attempt m h k t = (Inl e, s')" "usable s'"
  obtain r s1 where m: "m t = (r, s1)" by (cases "m t")
  have "reaches sn s1" by (rule reaches_stacks [OF assms(1,2) t(1) m])
  with t(2,3) m undoesD [OF assms(3)] undoesD [OF assms(4)] show "back_at sn s'"
    by (cases r) (auto simp: attempt_def)
qed

lemma undoes_unusable: "(\<And>t e s'. m t = (Inl e, s') \<Longrightarrow> \<not> usable s') \<Longrightarrow> undoes sn m"
  unfolding undoes_def by blast

lemma undoes_statement:
  assumes "\<not> moves_the_stack q" and "\<And>x. undoes sn (k x)"
  shows "undoes sn (attempt (exec q) (\<lambda>e. fail (f e)) k)"
proof (rule undoesI)
  fix t e s'
  assume t: "reaches sn t" "attempt (exec q) (\<lambda>e. fail (f e)) k t = (Inl e, s')" "usable s'"
  obtain r s1 where m: "exec q t = (r, s1)" by (cases "exec q t")
  have "reaches sn s1" by (rule reaches_stacks [OF stacks_exec [OF assms(1)] _ t(1) m, of "{}"]) simp
  with t(2,3) m undoesD [OF assms(2)] exec_Inl [of q t] show "back_at sn s'"
    by (cases r) (auto simp: attempt_def fail_def usable_def)
qed

lemma undoes_undo_once: "undoes sn (undo_once e a)"
proof (rule undoesI)
  fix t x s'
  assume t: "reaches sn t" "undo_once e a t = (Inl x, s')" "usable s'"
  then show "back_at sn s'"
    using rollback_to_once_Inl [of t] rollback_to_once_Inr [of t]
    by (auto simp: undo_once_def attempt_def fail_def split: prod.splits sum.splits)
qed

lemma undoes_release: "undoes sn (attempt release_once fail (\<lambda>_. ret y))"
  by (rule undoes_unusable)
     (use release_once_Inl in \<open>auto simp: attempt_def fail_def ret_def split: prod.splits sum.splits\<close>)

lemma undoes_settle: "undoes sn (settle c idt)"
proof -
  note deferred = undoes_statement [OF _ undoes_release, of "SetConstraints settled_constraint False"]
  show ?thesis
    unfolding settle_def
    by (intro undoes_attempt [OF stacks_exec [of _ "{}"]] undoes_undo_once deferred) simp_all
qed

lemma key_taken_back:
  assumes "back_at sn t" and "key_taken c t = (r, s')" and "usable s'"
  shows "back_at sn s'"
proof -
  obtain r1 s1 where m: "replay c t = (r1, s1)" by (cases "replay c t")
  have s1: "back_at sn s1" using observesD [OF observes_replay m] assms(1) by (simp add: back_at_def)
  obtain r2 s2 where l: "release_once s1 = (r2, s2)" by (cases "release_once s1")
  have "s' = s2" using assms(2) m l
    by (cases r1; cases r2) (auto simp: key_taken_def attempt_def fail_def ret_def)
  with release_once_Inl [of s1] release_once_Inr [OF _ s1] l assms(3) show ?thesis
    by (cases r2) auto
qed

lemma undoes_key_refused:
  "undoes sn (attempt rollback_to_once (\<lambda>rb. fail (Joined [e, rb])) (\<lambda>_.
     if sqlstate e = ''23505'' then key_taken c else fail (bad_key e c)))"
proof (rule undoesI)
  fix t x s'
  assume t: "reaches sn t" "usable s'"
    "attempt rollback_to_once (\<lambda>rb. fail (Joined [e, rb])) (\<lambda>_.
       if sqlstate e = ''23505'' then key_taken c else fail (bad_key e c)) t = (Inl x, s')"
  obtain r s1 where m: "rollback_to_once t = (r, s1)" by (cases "rollback_to_once t")
  show "back_at sn s'"
  proof (cases r)
    case (Inl e1)
    with t m rollback_to_once_Inl [of t] show ?thesis by (auto simp: attempt_def fail_def)
  next
    case (Inr y)
    from m have "back_at sn s1" unfolding Inr by (rule rollback_to_once_Inr [OF _ t(1)])
    with t m Inr key_taken_back [of sn s1 c] show ?thesis
      by (auto simp: attempt_def fail_def split: if_splits)
  qed
qed

text \<open>What a success leaves alone.\<close>

definition keys_of :: "session \<Rightarrow> key_row list" where
  "keys_of s = idempotency_keys (work s)"

definition keeps :: "(session \<Rightarrow> 'b) \<Rightarrow> 'a act \<Rightarrow> bool" where
  "keeps f m \<longleftrightarrow> (\<forall>s x s'. m s = (Inr x, s') \<longrightarrow> f s' = f s)"

named_theorems keep_intros \<open>a success that leaves a part of the session alone\<close>

lemma keepsD: "keeps f m \<Longrightarrow> m s = (Inr x, s') \<Longrightarrow> f s' = f s"
  unfolding keeps_def by blast

lemma keeps_attempt [keep_intros]:
  assumes "keeps f m" and "\<And>e. refuses (h e)" and "\<And>x. keeps f (k x)"
  shows "keeps f (attempt m h k)"
  unfolding keeps_def
proof (intro allI impI)
  fix s y s'
  assume "attempt m h k s = (Inr y, s')"
  from attempt_Inr [OF this assms(2)] obtain x s1 where "m s = (Inr x, s1)" "k x s1 = (Inr y, s')" by blast
  with keepsD [OF assms(1)] keepsD [OF assms(3)] show "f s' = f s" by metis
qed

lemma keeps_ret [keep_intros]: "keeps f (ret x)"
  by (simp add: keeps_def ret_def)

fun writes_keys :: "stmt \<Rightarrow> bool" where
  "writes_keys (InsertKey k h) = True"
| "writes_keys (SettleKey k t) = True"
| "writes_keys (DeleteKey k) = True"
| "writes_keys (RawSettle k u) = True"
| "writes_keys (RollbackTo n) = True"
| "writes_keys _ = False"

lemma raise_events_keys: "raise_events evs s = Inr s' \<Longrightarrow> keys_of s' = keys_of s"
proof (induction evs arbitrary: s)
  case (Cons ev evs)
  then show ?case by (force simp: keys_of_def split: if_splits sum.splits dest: fire_frame(4))
qed simp

lemma write_rows_keys:
  assumes "\<And>b. r = Inr b \<Longrightarrow> idempotency_keys b = keys_of s"
  shows "keys_of (snd (write_rows r evs ans s)) = keys_of s"
  using assms
  by (auto simp: write_rows_def split: sum.split dest!: raise_events_keys) (simp_all add: keys_of_def)

lemma fire_all_keys: "fire_all evs b = Inr b' \<Longrightarrow> idempotency_keys b' = idempotency_keys b"
  by (induction evs arbitrary: b) (auto split: sum.splits dest: fire_frame(4))

lemma run_stmt_keys:
  assumes "\<not> writes_keys q"
  shows "keys_of (snd (run_stmt q s)) = keys_of s"
proof -
  have d: "keys_of (s\<lparr>drawn := n\<rparr>) = keys_of s" "keys_of (s\<lparr>next_posting := n\<rparr>) = keys_of s"
    "keys_of (s\<lparr>saves := st\<rparr>) = keys_of s" for n st
    by (simp_all add: keys_of_def)
  have post: "keys_of (snd (post_row txn a c m s)) = keys_of s" for txn a c m
  proof -
    have "idempotency_keys b = idempotency_keys (work s)"
      if "insert_posting (next_posting s) (now s) txn a c m (work s) = Inr b" for b
      using insert_postingD [OF that] by auto
    then have "idempotency_keys b = keys_of (s\<lparr>next_posting := n\<rparr>)"
      if "map_sum id (queue_a_balance_check txn) (insert_posting (next_posting s) (now s) txn a c m (work s)) = Inr b" for b n
      using that by (cases "insert_posting (next_posting s) (now s) txn a c m (work s)") (auto simp: keys_of_def)
    from write_rows_keys [OF this] show ?thesis
      by (simp add: post_row_def draw_posting_def d)
  qed
  show ?thesis
  proof (cases q)
    case (InsertAccount code name kind currency)
    show ?thesis unfolding InsertAccount run_stmt.simps draw_def prod.case
      by (subst write_rows_keys) (auto dest!: insert_accountD simp: keys_of_def)
  next
    case (InsertTransaction currency description occurred)
    show ?thesis unfolding InsertTransaction run_stmt.simps draw_def prod.case
      by (subst write_rows_keys) (auto dest!: insert_transactionD simp: keys_of_def)
  next
    case (SetConstraints cs im)
    then show ?thesis by (auto simp: set_constraints_def keys_of_def dest: fire_all_keys split: sum.split)
  next
    case (Release n)
    then show ?thesis by (simp add: release_def keys_of_def split: list.split)
  qed (use assms post [unfolded keys_of_def] in \<open>simp_all add: d Let_def keys_of_def split: option.split\<close>)
qed

lemma keeps_exec [keep_intros]: "\<not> writes_keys q \<Longrightarrow> keeps keys_of (exec q)"
  unfolding keeps_def
proof (intro allI impI)
  fix s x s'
  assume q: "\<not> writes_keys q" and "exec q s = (Inr x, s')"
  then have "run_stmt q (snd (next_fault s)) = (Inr x, s')" using exec_Inr by blast
  with run_stmt_keys [OF q, of "snd (next_fault s)"] show "keys_of s' = keys_of s" by (simp add: keys_of_def)
qed

section \<open>What a success says\<close>

lemma query_row_Inr:
  assumes "query_row f s = (Inr x, s')"
  shows "f (snd (next_fault s)) = Inr (Some x) \<and> s' = snd (next_fault s)"
proof -
  obtain v s1 where q: "query f s = (Inr v, s1)" "scan_row v s1 = (Inr x, s')"
    using attempt_Inr [OF assms [unfolded query_row_def] refuses_fail] by blast
  with query_Inr [OF q(1)] show ?thesis
    by (cases v) (auto simp: scan_row_def fail_def ret_def)
qed

lemma replay_Inr:
  assumes "replay c s = (Inr rec, s')"
  shows "\<exists>r u. key_with (work s) (cl_key c) = Some r \<and> key_hash r = cl_hash c \<and> key_txn r = Some u \<and>
    rec = \<lparr>rc_key = cl_key c, rc_transaction = uuid_out u, rc_replayed = True\<rparr> \<and> work s' = work s \<and>
    text_ok (cl_key c)"
proof -
  from attempt_Inr [OF assms [unfolded replay_def] refuses_fail] obtain r s1 where
    q: "query_row (replay_query (cl_key c)) s = (Inr r, s1)" and
    k: "(if key_hash r \<noteq> cl_hash c
         then fail (Errorf [Cause (Sentinel ErrKeyReused), Txt '': '', Quo (shown (cl_key c))])
         else case key_txn r of
           None \<Rightarrow> fail (Errorf [Txt ''the key '', Quo (shown (cl_key c)), Txt '' is stored with no transaction''])
         | Some u \<Rightarrow> ret \<lparr>rc_key = cl_key c, rc_transaction = uuid_out u, rc_replayed = True\<rparr>) s1 = (Inr rec, s')"
    by blast
  have "key_with (work s) (cl_key c) = Some r" "work s1 = work s" "text_ok (cl_key c)"
    using query_row_Inr [OF q] by (auto simp: replay_query_def split: if_splits)
  with k show ?thesis by (auto simp: fail_def ret_def split: if_splits option.splits)
qed

lemma insert_key_Inr:
  assumes "exec (InsertKey k h) s = (Inr x, s')"
  shows "\<exists>r. key_with (work s') k = Some r \<and> key_hash r = h \<and> key_txn r = None \<and> text_ok k"
proof -
  let ?t = "snd (next_fault s)"
  have "run_stmt (InsertKey k h) ?t = (Inr x, s')" using exec_Inr [OF assms] by simp
  then obtain b where b: "insert_key (ctype_of ?t) (now ?t) k h (work ?t) = Inr b"
    and e: "raise_events [KeyWritten k] (?t\<lparr>work := b\<rparr>) = Inr s'"
    by (auto simp: write_rows_def split: sum.splits)
  obtain r where "b = (work ?t)\<lparr>idempotency_keys := idempotency_keys (work ?t) @ [r]\<rparr>" "key_key r = k"
    "key_hash r = h" "key_txn r = None" "k \<notin> key_key ` set (idempotency_keys (work ?t))"
    using insert_keyD [OF b] by blast
  moreover from this have "key_with (work ?t) k = None" by (simp add: key_with_None)
  ultimately have "key_with b k = Some r" by (simp add: key_with_def find_append)
  moreover have "keys_of s' = idempotency_keys b" using raise_events_keys [OF e] by (simp add: keys_of_def)
  moreover have "text_ok k" using b by (auto simp: insert_key_def split: if_splits)
  ultimately show ?thesis using \<open>key_hash r = h\<close> \<open>key_txn r = None\<close> by (auto simp: key_with_def keys_of_def)
qed

lemma settle_key_Inr:
  assumes "exec (SettleKey k idt) s = (Inr x, s')" and "key_with (work s) k = Some r" and "key_txn r = None"
  shows "\<exists>u. uuid_in idt = Some u \<and> names k (r\<lparr>key_txn := Some u\<rparr>) (work s')"
proof -
  let ?t = "snd (next_fault s)"
  have "run_stmt (SettleKey k idt) ?t = (Inr x, s')" using exec_Inr [OF assms(1)] by simp
  with assms(2,3) obtain u b where u: "uuid_in idt = Some u" and b: "set_key_transaction k u (work s) = Inr b"
    and e: "raise_events [KeyWritten k] (?t\<lparr>work := b\<rparr>) = Inr s'"
    by (auto simp: settle_key_def write_rows_def split: if_splits option.splits sum.splits)
  have b': "b = (work s)\<lparr>idempotency_keys :=
      map (\<lambda>x. if key_key x = k then r\<lparr>key_txn := Some u\<rparr> else x) (idempotency_keys (work s))\<rparr>"
    using set_key_transactionD [OF b] assms(2) by auto
  have k: "key_key r = k" using key_withD [OF assms(2)] by simp
  have "List.find (\<lambda>x. key_key x = k) (map (\<lambda>x. if key_key x = k then r\<lparr>key_txn := Some u\<rparr> else x) xs) =
      map_option (\<lambda>_. r\<lparr>key_txn := Some u\<rparr>) (List.find (\<lambda>x. key_key x = k) xs)" for xs
    using k by (induction xs) auto
  with assms(2) have "names k (r\<lparr>key_txn := Some u\<rparr>) b" by (simp add: names_def key_with_def b')
  moreover have "keys_of s' = idempotency_keys b" using raise_events_keys [OF e] by (simp add: keys_of_def)
  ultimately show ?thesis using u names_cong [of "work s'" b] by (auto simp: keys_of_def)
qed

lemma refuses_undo_once [faultless_intros]: "refuses (undo_once e a)"
  unfolding undo_once_def by (intro faultless_intros)

lemma keeps_release_once [keep_intros]: "keeps keys_of release_once"
  unfolding release_once_def by (intro keep_intros faultless_intros) simp

lemma settle_Inr:
  assumes "settle c idt s = (Inr rec, s')" and "key_with (work s) (cl_key c) = Some r" and "key_txn r = None"
  shows "\<exists>u. uuid_in idt = Some u \<and> names (cl_key c) (r\<lparr>key_txn := Some u\<rparr>) (work s') \<and>
    rec = \<lparr>rc_key = cl_key c, rc_transaction = idt, rc_replayed = False\<rparr>"
proof -
  from attempt_Inr [OF assms(1) [unfolded settle_def] refuses_undo_once] obtain x s1 where
    s1: "exec (SettleKey (cl_key c) idt) s = (Inr x, s1)" and
    rest: "attempt (exec (SetConstraints settled_constraint True))
         (\<lambda>e. undo_once e (Errorf [Txt ''settle key '', Quo (shown (cl_key c)), Txt '' against transaction '',
                Txt idt, Txt '': '', Cause e]))
         (\<lambda>_. attempt (exec (SetConstraints settled_constraint False))
           (\<lambda>e. fail (wrapped ''re-defer the settled check'' e))
           (\<lambda>_. attempt release_once fail
             (\<lambda>_. ret \<lparr>rc_key = cl_key c, rc_transaction = idt, rc_replayed = False\<rparr>))) s1 = (Inr rec, s')"
    (is "?rest s1 = _") by blast
  have "keeps keys_of ?rest" by (intro keep_intros faultless_intros) simp_all
  then have k: "keys_of s' = keys_of s1" using rest by (rule keepsD)
  have "rec = \<lparr>rc_key = cl_key c, rc_transaction = idt, rc_replayed = False\<rparr>"
    using rest by (auto simp: attempt_def ret_def fail_def undo_once_def split: prod.splits sum.splits)
  moreover obtain u where "uuid_in idt = Some u" "names (cl_key c) (r\<lparr>key_txn := Some u\<rparr>) (work s1)"
    using settle_key_Inr [OF s1 assms(2,3)] by blast
  ultimately show ?thesis using names_cong [of "work s'" "work s1"] k by (auto simp: keys_of_def)
qed

lemma release_once_work: "release_once s = (Inr x, s') \<Longrightarrow> work s' = work s"
  using release_once_Inr [of s x s' "snapshot_of s"] by (simp add: back_at_def snapshot_of_def)

section \<open>The write\<close>

text \<open>
  What \<open>once\<close> asks of the write it runs: statements of the ledger only, a savepoint stack left as
  found but for names of its own, and, where it succeeds, the keys left alone.
\<close>

locale writer =
  fixes ns :: "gostr set" and w :: "gostr act"
  assumes written: "via issued w" and own_stack: "stacks ns w" and not_mine: "once_savepoint \<notin> ns"
    and leaves_keys: "keeps keys_of w"
begin

lemma refused_once:
  assumes "once c w s = (Inl e, s')" and "usable s'"
  shows "untouched s s'"
proof -
  let ?rest = "attempt (exec (SetConstraints settled_constraint False))
       (\<lambda>e. fail (wrapped ''defer the settled check'' e)) (\<lambda>_.
     attempt (exec (InsertKey (cl_key c) (cl_hash c)))
       (\<lambda>e. attempt rollback_to_once (\<lambda>rb. fail (Joined [e, rb])) (\<lambda>_.
          if sqlstate e = ''23505'' then key_taken c else fail (bad_key e c)))
       (\<lambda>_. attempt w (\<lambda>e. undo_once e e) (settle c)))"
  have u: "undoes sn ?rest" for sn
    by (intro undoes_statement undoes_attempt [OF stacks_exec [of _ "{}"]] undoes_key_refused
        undoes_attempt [OF own_stack not_mine] undoes_undo_once undoes_settle) simp_all
  obtain r s1 where s1: "exec (Savepoint once_savepoint) s = (r, s1)" by (cases "exec (Savepoint once_savepoint) s")
  show ?thesis
  proof (cases r)
    case (Inl x)
    with assms s1 exec_Inl [of "Savepoint once_savepoint" s] show ?thesis
      by (auto simp: once_def attempt_def fail_def usable_def)
  next
    case (Inr x)
    have rest: "?rest s1 = (Inl e, s')" using assms(1) s1 Inr by (simp add: once_def attempt_def)
    have "reaches (snapshot_of s) s1"
      using exec_savepoint_Inr [OF s1 [unfolded Inr]] by (simp add: reaches_def)
    from undoesD [OF u this rest assms(2)] show ?thesis
      by (simp add: back_at_def untouched_def snapshot_of_def)
  qed
qed

text \<open>An answer, new or replayed, is what the ledger holds under the key, for this very request.\<close>

lemma key_of_success:
  assumes "once c w s = (Inr rec, s')"
  shows "\<exists>r u. names (cl_key c) r (work s') \<and> key_hash r = cl_hash c \<and> key_txn r = Some u \<and>
    uuid_in (rc_transaction rec) = Some u \<and> rc_key rec = cl_key c \<and> text_ok (cl_key c)"
proof -
  from attempt_Inr [OF assms [unfolded once_def] refuses_fail] obtain x1 s1 where
    "attempt (exec (SetConstraints settled_constraint False))
       (\<lambda>e. fail (wrapped ''defer the settled check'' e)) (\<lambda>_.
     attempt (exec (InsertKey (cl_key c) (cl_hash c)))
       (\<lambda>e. attempt rollback_to_once (\<lambda>rb. fail (Joined [e, rb])) (\<lambda>_.
          if sqlstate e = ''23505'' then key_taken c else fail (bad_key e c)))
       (\<lambda>_. attempt w (\<lambda>e. undo_once e e) (settle c))) s1 = (Inr rec, s')" by blast
  from attempt_Inr [OF this refuses_fail] obtain s2 where
    body: "attempt (exec (InsertKey (cl_key c) (cl_hash c)))
       (\<lambda>e. attempt rollback_to_once (\<lambda>rb. fail (Joined [e, rb])) (\<lambda>_.
          if sqlstate e = ''23505'' then key_taken c else fail (bad_key e c)))
       (\<lambda>_. attempt w (\<lambda>e. undo_once e e) (settle c)) s2 = (Inr rec, s')" by blast
  obtain r3 s3 where s3: "exec (InsertKey (cl_key c) (cl_hash c)) s2 = (r3, s3)"
    by (cases "exec (InsertKey (cl_key c) (cl_hash c)) s2")
  show ?thesis
  proof (cases r3)
    case (Inl e)
    with body s3 have "attempt rollback_to_once (\<lambda>rb. fail (Joined [e, rb])) (\<lambda>_.
        if sqlstate e = ''23505'' then key_taken c else fail (bad_key e c)) s3 = (Inr rec, s')"
      by (simp add: attempt_def)
    from attempt_Inr [OF this refuses_fail] obtain s4 where "key_taken c s4 = (Inr rec, s')"
      by (auto simp: fail_def split: if_splits)
    from attempt_Inr [OF this [unfolded key_taken_def]] obtain rec' s5 where
      "replay c s4 = (Inr rec', s5)" "attempt release_once (\<lambda>rel. fail (Joined [rel])) (\<lambda>_. ret rec') s5 = (Inr rec, s')"
      by (meson refuses_attempt refuses_fail)
    with replay_Inr [of c s4 rec' s5] attempt_Inr [OF this(2) refuses_fail] show ?thesis
      by (auto simp: ret_def uuid_in_fresh names_def dest!: release_once_work)
  next
    case (Inr x)
    with body s3 have "attempt w (\<lambda>e. undo_once e e) (settle c) s3 = (Inr rec, s')" by (simp add: attempt_def)
    from attempt_Inr [OF this refuses_undo_once] obtain idt s4 where
      s4: "w s3 = (Inr idt, s4)" "settle c idt s4 = (Inr rec, s')" by blast
    obtain r where "key_with (work s3) (cl_key c) = Some r" "key_hash r = cl_hash c" "key_txn r = None" "text_ok (cl_key c)"
      using insert_key_Inr s3 [unfolded Inr] by blast
    moreover have "keys_of s4 = keys_of s3" by (rule keepsD [OF leaves_keys s4(1)])
    ultimately show ?thesis
      using settle_Inr [OF s4(2), of r] by (auto simp: key_with_def keys_of_def)
  qed
qed

end

lemma keeps_post: "keeps keys_of (post e)"
proof -
  have "keeps keys_of (insert_legs idt e i ls)" for idt i ls
    by (induction ls arbitrary: i) (auto intro!: keep_intros faultless_intros)
  then show ?thesis
    unfolding post_def post_inner_def by (intro keep_intros faultless_intros) simp_all
qed

interpretation post_writer: writer "{post_savepoint}" "post e" for e
proof
  show "via issued (post e)" by (rule via_post)
  show "stacks {post_savepoint} (post e)"
    unfolding post_guarded by (rule post_work.guarded_stacks) (rule observes_explain)
  show "once_savepoint \<notin> {post_savepoint}" by (simp add: once_savepoint_def post_savepoint_def)
  show "keeps keys_of (post e)" by (rule keeps_post)
qed

section \<open>In a session nothing goes wrong in\<close>

definition marked :: "session \<Rightarrow> session" where
  "marked s = s\<lparr>saves := (once_savepoint, snapshot_of s) # saves s\<rparr>"

definition reserved :: "claim \<Rightarrow> book \<Rightarrow> session \<Rightarrow> session" where
  "reserved c b s = s\<lparr>saves := (once_savepoint, snapshot_of s) # saves s,
     modes := new_modes settled_constraint False s, work := b, pending := pending s @ [KeyWritten (cl_key c)]\<rparr>"

lemma marked_frame [simp]:
  "work (marked s) = work s" "healthy (marked s) = healthy s" "ctype_of (marked s) = ctype_of s"
  "now (marked s) = now s" "pending (marked s) = pending s"
  by (simp_all add: marked_def)

lemma rollback_to_once_top:
  assumes "saves t = (once_savepoint, sn) # rest" and "lost t = None" and "faults t = []"
  shows "rollback_to_once t = (Inr (), (restore sn t)\<lparr>failed := False\<rparr>)"
  using rollback_top [OF assms] by (simp add: rollback_to_once_def attempt_def ret_def)

lemma release_once_marked: "healthy s \<Longrightarrow> release_once (marked s) = (Inr (), s)"
  using release_top [of "marked s" once_savepoint "snapshot_of s" "saves s"]
  by (simp add: release_once_def attempt_def ret_def) (simp add: marked_def ret_def)

lemma once_key_refused:
  assumes "healthy s" and "insert_key (ctype_of s) (now s) (cl_key c) (cl_hash c) (work s) = Inl p"
  shows "once c w s =
    (if pg_code p = ''23505'' then key_taken c else fail (bad_key (PgErr p) c)) (marked s)"
proof -
  let ?s2 = "(marked s)\<lparr>modes := new_modes settled_constraint False s\<rparr>"
  have h: "healthy ?s2" using assms(1) by simp
  have m: "new_modes settled_constraint False (marked s) = new_modes settled_constraint False s"
    by (simp add: fun_eq_iff new_modes_def marked_def)
  have "exec (InsertKey (cl_key c) (cl_hash c)) ?s2 = (Inl (PgErr p), ?s2\<lparr>failed := True\<rparr>)"
    using assms(2) by (simp add: exec_healthy [OF h] write_rows_def)
  moreover have "rollback_to_once (?s2\<lparr>failed := True\<rparr>) = (Inr (), marked s)"
    by (subst rollback_to_once_top [of _ "snapshot_of s" "saves s"])
       (use healthyD [OF assms(1)] in \<open>simp_all add: marked_def restore_def snapshot_of_def\<close>)
  ultimately show ?thesis
    using savepoint_healthy [OF assms(1), of once_savepoint] defer_healthy [of "marked s" settled_constraint] assms(1)
    by (simp add: once_def attempt_def m marked_def [symmetric] sqlstate_pg)
qed

lemma once_key_reserved:
  assumes "healthy s" and "insert_key (ctype_of s) (now s) (cl_key c) (cl_hash c) (work s) = Inr b"
  shows "once c w s = attempt w (\<lambda>e. undo_once e e) (settle c) (reserved c b s)"
proof -
  let ?s2 = "(marked s)\<lparr>modes := new_modes settled_constraint False s\<rparr>"
  have h: "healthy ?s2" using assms(1) by simp
  have m: "new_modes settled_constraint False (marked s) = new_modes settled_constraint False s"
    by (simp add: fun_eq_iff new_modes_def marked_def)
  have nm: "\<not> new_modes settled_constraint False s KeysMustBeSettled"
    by (simp add: new_modes_def settled_constraint_def)
  have "exec (InsertKey (cl_key c) (cl_hash c)) ?s2 = (Inr '''', reserved c b s)"
    using assms(2)
    by (simp add: exec_healthy [OF h] write_rows_def nm) (simp add: marked_def reserved_def)
  then show ?thesis
    using savepoint_healthy [OF assms(1), of once_savepoint] defer_healthy [of "marked s" settled_constraint] assms(1)
    by (simp add: once_def attempt_def m marked_def [symmetric])
qed

lemma insert_key_held:
  assumes "wf_book ct b" and "key_with b k = Some r" and "length h = 32" and "text_ok k"
  shows "\<exists>p. insert_key ct t k h b = Inl p \<and> pg_code p = ''23505''"
proof -
  have "key_check ct k" "k \<in> key_key ` set (idempotency_keys b)"
    using key_withD [OF assms(2)] wf_bookD(8) [OF assms(1)] by (auto simp: key_fine_def)
  with assms(3,4) show ?thesis by (simp add: insert_key_def unique_violation_def)
qed

lemma replay_healthy:
  assumes "healthy s" and "text_ok (cl_key c)" and "key_with (work s) (cl_key c) = Some r" and "key_txn r = Some u"
  shows "replay c s =
    (if key_hash r = cl_hash c
     then (Inr \<lparr>rc_key = cl_key c, rc_transaction = uuid_out u, rc_replayed = True\<rparr>, s)
     else (Inl (Errorf [Cause (Sentinel ErrKeyReused), Txt '': '', Quo (shown (cl_key c))]), s))"
  using assms
  by (simp add: replay_def attempt_def query_row_healthy replay_query_def ret_def fail_def)

lemma once_held:
  assumes "healthy s" and "wf_book (ctype_of s) (work s)" and "length (cl_hash c) = 32" and "text_ok (cl_key c)"
    and "key_with (work s) (cl_key c) = Some r" and "key_txn r = Some u"
  shows "once c w s =
    (if key_hash r = cl_hash c
     then (Inr \<lparr>rc_key = cl_key c, rc_transaction = uuid_out u, rc_replayed = True\<rparr>, s)
     else (Inl (Errorf [Cause (Sentinel ErrKeyReused), Txt '': '', Quo (shown (cl_key c))]), s))"
proof -
  obtain p where "insert_key (ctype_of s) (now s) (cl_key c) (cl_hash c) (work s) = Inl p" "pg_code p = ''23505''"
    using insert_key_held [OF assms(2,5,3,4)] by blast
  with once_key_refused [OF assms(1), of c p w]
  have "once c w s = key_taken c (marked s)" by simp
  with replay_healthy [of "marked s" c r u] assms release_once_marked [OF assms(1)]
  show ?thesis by (simp add: key_taken_def attempt_def fail_def ret_def)
qed

text \<open>Settling a key in a session where every other one is settled already.\<close>

definition settled_book :: "book \<Rightarrow> gostr \<Rightarrow> uuid \<Rightarrow> book" where
  "settled_book b k u = b\<lparr>idempotency_keys :=
     map (\<lambda>x. if key_key x = k then x\<lparr>key_txn := Some u\<rparr> else x) (idempotency_keys b)\<rparr>"

definition only_key_waits :: "gostr \<Rightarrow> session \<Rightarrow> bool" where
  "only_key_waits k s \<longleftrightarrow> (\<forall>ev \<in> set (pending s). ev = KeyWritten k) \<and> \<not> modes s KeysMustBeSettled"

lemma fire_all_key: "(\<forall>ev \<in> set evs. ev = KeyWritten k) \<Longrightarrow> key_with b k = Some r \<Longrightarrow> key_txn r \<noteq> None \<Longrightarrow>
    fire_all evs b = Inr b"
  by (induction evs) (auto simp: idempotency_key_names_a_transaction_def)

lemma distinct_key_map:
  assumes "distinct (map key_key xs)" and "r \<in> set xs" and "key_key r = k"
  shows "map (\<lambda>x. if key_key x = k then r\<lparr>key_txn := v\<rparr> else x) xs =
    map (\<lambda>x. if key_key x = k then x\<lparr>key_txn := v\<rparr> else x) xs"
  using assms by (auto intro!: map_cong simp: distinct_map dest: inj_onD)

lemma settle_healthy:
  assumes "healthy s" and "wf_book (ctype_of s) (work s)" and "text_ok (cl_key c)"
    and "only_key_waits (cl_key c) s" and "saves s = (once_savepoint, sn) # rest"
    and "key_with (work s) (cl_key c) = Some r" and "key_txn r = None"
    and "u \<in> txn_id ` set (transactions (work s))"
  shows "settle c (uuid_out u) s =
    (Inr \<lparr>rc_key = cl_key c, rc_transaction = uuid_out u, rc_replayed = False\<rparr>,
     s\<lparr>work := settled_book (work s) (cl_key c) u, pending := [], saves := rest\<rparr>)"
proof -
  let ?k = "cl_key c" and ?b = "settled_book (work s) (cl_key c) u"
  let ?s1 = "s\<lparr>work := ?b, pending := pending s @ [KeyWritten ?k]\<rparr>"
  have kr: "r \<in> set (idempotency_keys (work s))" "key_key r = ?k" using key_withD [OF assms(6)] by simp_all
  have set: "set_key_transaction ?k u (work s) = Inr ?b"
    using assms(6-8) distinct_key_map [OF wf_bookD(4) [OF assms(2)] kr]
    by (simp add: set_key_transaction_def idempotency_record_is_final_def settled_book_def)
  have m: "\<not> modes s KeysMustBeSettled" using assms(4) by (simp add: only_key_waits_def)
  have e1: "exec (SettleKey ?k (uuid_out u)) s = (Inr '''', ?s1)"
    using assms(3,6,7) m set
    by (simp add: exec_healthy [OF assms(1)] settle_key_def uuid_in_fresh write_rows_def)
  have "List.find (\<lambda>x. key_key x = ?k) (map (\<lambda>x. if key_key x = ?k then x\<lparr>key_txn := Some u\<rparr> else x) xs) =
      map_option (\<lambda>x. x\<lparr>key_txn := Some u\<rparr>) (List.find (\<lambda>x. key_key x = ?k) xs)" for xs :: "key_row list"
    by (induction xs) auto
  with assms(6) have kb: "key_with ?b ?k = Some (r\<lparr>key_txn := Some u\<rparr>)" by (simp add: key_with_def settled_book_def)
  have all: "\<forall>ev \<in> set (pending ?s1). ev = KeyWritten ?k" using assms(4) by (simp add: only_key_waits_def)
  then have f: "filter (\<lambda>ev. new_modes settled_constraint True ?s1 (trigger_of ev)) (pending ?s1) = pending ?s1"
    "filter (\<lambda>ev. \<not> new_modes settled_constraint True ?s1 (trigger_of ev)) (pending ?s1) = []"
    by (auto simp: filter_id_conv filter_empty_conv new_modes_def settled_constraint_def)
  have "fire_all (pending ?s1) ?b = Inr ?b" by (rule fire_all_key [OF all kb]) simp
  with f have e2: "exec (SetConstraints settled_constraint True) ?s1 =
      (Inr '''', s\<lparr>work := ?b, pending := [], modes := new_modes settled_constraint True s\<rparr>)"
    using assms(1) by (simp add: exec_healthy set_constraints_def) (simp add: new_modes_def fun_eq_iff)
  have "new_modes settled_constraint False (s\<lparr>work := ?b, pending := [], modes := new_modes settled_constraint True s\<rparr>) = modes s"
    using m by (auto simp: fun_eq_iff new_modes_def settled_constraint_def)
  then have e3: "exec (SetConstraints settled_constraint False)
      (s\<lparr>work := ?b, pending := [], modes := new_modes settled_constraint True s\<rparr>) =
      (Inr '''', s\<lparr>work := ?b, pending := []\<rparr>)"
    using assms(1) by (simp add: defer_healthy)
  have "release_once (s\<lparr>work := ?b, pending := []\<rparr>) = (Inr (), s\<lparr>work := ?b, pending := [], saves := rest\<rparr>)"
    using release_top [of "s\<lparr>work := ?b, pending := []\<rparr>" once_savepoint sn rest] assms(1,5)
    by (simp add: release_once_def attempt_def ret_def)
  with e1 e2 e3 show ?thesis by (simp add: settle_def attempt_def ret_def)
qed

section \<open>The first call under a key\<close>

lemma wf_posted:
  assumes "ready s" and "accepted s e"
  shows "wf_book (ctype_of s) (work (posted e s))"
proof -
  let ?s0 = "s\<lparr>saves := []\<rparr>"
  have "wf_law.holds (ctype_of s) ?s0" using assms(1) by (simp add: ready_def wf_law.holds_def)
  from wf_law.via_keeps [OF _ this, of "post e"] via_post [of e]
  have "wf_law.holds (ctype_of s) (snd (post e ?s0))" by (auto simp: via_def intro: steps_mono)
  moreover have "post e ?s0 = (Inr (uuid_out (fresh_id ?s0)), posted e ?s0)"
    by (rule post_accepted) (use assms in simp_all)
  ultimately show ?thesis by (simp add: wf_law.holds_def posted_def fresh_id_def)
qed

definition key_fit :: "session \<Rightarrow> claim \<Rightarrow> bool" where
  "key_fit s c \<longleftrightarrow> text_ok (cl_key c) \<and> key_check (ctype_of s) (cl_key c) \<and> length (cl_hash c) = 32"

definition key_row_for :: "session \<Rightarrow> claim \<Rightarrow> uuid option \<Rightarrow> key_row" where
  "key_row_for s c v = \<lparr>key_key = cl_key c, key_hash = cl_hash c, key_txn = v, key_created = now s\<rparr>"

lemma reserved_ready:
  assumes "ready s" and "pending s = []" and "insert_key (ctype_of s) (now s) (cl_key c) (cl_hash c) (work s) = Inr b"
  shows "ready (reserved c b s)"
proof -
  obtain r where b: "b = (work s)\<lparr>idempotency_keys := idempotency_keys (work s) @ [r]\<rparr>"
    using insert_keyD [OF assms(3)] by blast
  have "wf_book (ctype_of s) b" using wf_insert_key [OF _ assms(3)] assms(1) by (simp add: ready_def)
  with assms(1,2) show ?thesis
    by (simp add: ready_def reserved_def b new_modes_def settled_constraint_def)
qed

lemma accepted_reserved:
  assumes "insert_key (ctype_of s) (now s) (cl_key c) (cl_hash c) (work s) = Inr b"
  shows "accepted (reserved c b s) e = accepted s e"
  using insert_keyD [OF assms] leg_verdict_cong [of b "work s"]
  by (auto simp: accepted_iff reserved_def)

lemma once_first:
  assumes "ready s" and "pending s = []" and "key_fit s c" and "key_with (work s) (cl_key c) = None" and "accepted s e"
  defines "u \<equiv> fresh_id s"
  shows "\<exists>s'. once c (post e) s = (Inr \<lparr>rc_key = cl_key c, rc_transaction = uuid_out u, rc_replayed = False\<rparr>, s') \<and>
    work s' = (posted_book (work s) u (now s) (next_posting s) e)\<lparr>idempotency_keys :=
      idempotency_keys (work s) @ [key_row_for s c (Some u)]\<rparr> \<and>
    pending s' = [] \<and> saves s' = saves s \<and> healthy s'"
proof -
  let ?k = "cl_key c" and ?r = "key_row_for s c None"
  define b where "b = (work s)\<lparr>idempotency_keys := idempotency_keys (work s) @ [?r]\<rparr>"
  have new: "?k \<notin> key_key ` set (idempotency_keys (work s))" using assms(4) by (simp add: key_with_None)
  then have ins: "insert_key (ctype_of s) (now s) ?k (cl_hash c) (work s) = Inr b"
    using assms(3) by (simp add: insert_key_def key_fit_def b_def key_row_for_def)
  let ?s1 = "reserved c b s"
  let ?t = "posted e ?s1"
  have pf: "postings_for b v t n ls = postings_for (work s) v t n ls" for v t n ls
    by (rule postings_for_cong) (simp add: b_def)
  have r1: "ready ?s1" by (rule reserved_ready [OF assms(1,2) ins])
  have a1: "accepted ?s1 e" using accepted_reserved [OF ins] assms(5) by simp
  have u: "fresh_id ?s1 = u" by (simp add: u_def fresh_id_def reserved_def)
  have h: "healthy ?t" using assms(1) by (simp add: ready_def posted_def reserved_def)
  have k: "idempotency_keys (work ?t) = idempotency_keys (work s) @ [?r]"
    by (simp add: posted_def posted_book_def reserved_def b_def)
  have "settle c (uuid_out u) ?t = (Inr \<lparr>rc_key = ?k, rc_transaction = uuid_out u, rc_replayed = False\<rparr>,
      ?t\<lparr>work := settled_book (work ?t) ?k u, pending := [], saves := saves s\<rparr>)"
  proof (rule settle_healthy [OF h])
    show "wf_book (ctype_of ?t) (work ?t)" using wf_posted [OF r1 a1] by (simp add: posted_def)
    show "text_ok ?k" using assms(3) by (simp add: key_fit_def)
    show "only_key_waits ?k ?t"
      using assms(2) by (simp add: only_key_waits_def posted_def reserved_def new_modes_balance)
        (simp add: new_modes_def settled_constraint_def)
    show "saves ?t = (once_savepoint, snapshot_of s) # saves s" by (simp add: posted_def reserved_def)
    show "key_with (work ?t) ?k = Some ?r"
      using assms(4) by (simp add: key_with_def k find_append key_row_for_def)
    show "key_txn ?r = None" by (simp add: key_row_for_def)
    show "u \<in> txn_id ` set (transactions (work ?t))" by (simp add: posted_def posted_book_def transaction_of_def u)
  qed
  moreover have "once c (post e) s = attempt (post e) (\<lambda>e. undo_once e e) (settle c) ?s1"
    by (rule once_key_reserved [OF _ ins]) (use assms(1) in \<open>simp add: ready_def\<close>)
  moreover have "map (\<lambda>x. if key_key x = ?k then x\<lparr>key_txn := Some u\<rparr> else x) (idempotency_keys (work s)) = idempotency_keys (work s)"
    using new by (intro map_idI) (auto simp: image_iff)
  then have "settled_book (work ?t) ?k u = (posted_book (work s) u (now s) (next_posting s) e)\<lparr>idempotency_keys :=
      idempotency_keys (work s) @ [key_row_for s c (Some u)]\<rparr>"
    unfolding settled_book_def k
    by (simp add: posted_def posted_book_def u key_row_for_def)
       (simp add: reserved_def pf [unfolded b_def] b_def)
  ultimately show ?thesis using post_accepted [OF r1 a1] h by (simp add: attempt_def u)
qed

section \<open>Properties\<close>

definition sample_key :: gostr where
  "sample_key = ''0123456789abcdef''"

definition sample_claim :: "char \<Rightarrow> claim" where
  "sample_claim x = \<lparr>cl_key = sample_key, cl_hash = replicate 32 x\<rparr>"

lemma sample_claim_key: "cl_key (sample_claim x) = sample_key" "cl_hash (sample_claim x) = replicate 32 x"
  by (simp_all add: sample_claim_def)

lemma sample_fresh: "fresh_id (quiet_session b) = 1"
  by (simp add: fresh_id_def)

text \<open>
  C5. The first call under a key.  At the start of a transaction, under a key the ledger takes and
  nobody has used, \<open>Once\<close> around \<open>Post\<close> writes an acceptable entry and settles the key in the same
  stroke: the book gains the one transaction, its postings and one key row naming it with this
  request's fingerprint, and the answer says it was not a replay.
\<close>

theorem once_writes_the_first_time:
  assumes "ready s" and "pending s = []" and "key_fit s c" and "key_with (work s) (cl_key c) = None"
    and "accepted s e"
  shows "\<exists>s'. once c (post e) s =
      (Inr \<lparr>rc_key = cl_key c, rc_transaction = uuid_out (fresh_id s), rc_replayed = False\<rparr>, s') \<and>
    work s' = (posted_book (work s) (fresh_id s) (now s) (next_posting s) e)\<lparr>idempotency_keys :=
      idempotency_keys (work s) @ [key_row_for s c (Some (fresh_id s))]\<rparr> \<and>
    pending s' = [] \<and> saves s' = saves s \<and> healthy s'"
  using assms by (rule once_first)

theorem once_writes_the_first_time_witness:
  "\<exists>s'. once (sample_claim CHR ''h'') (post (sample_entry 500)) (quiet_session sample_book) =
      (Inr \<lparr>rc_key = sample_key, rc_transaction = uuid_out 1, rc_replayed = False\<rparr>, s')"
proof -
  have "accepted (quiet_session sample_book) (sample_entry 500)"
    unfolding accepted_def quiet_frame by code_simp
  moreover have "key_fit (quiet_session sample_book) (sample_claim CHR ''h'')"
    unfolding key_fit_def quiet_frame by code_simp
  moreover have "key_with (work (quiet_session sample_book)) (cl_key (sample_claim CHR ''h'')) = None"
    unfolding quiet_frame by code_simp
  ultimately show ?thesis
    using once_writes_the_first_time [OF quiet_ready quiet_frame(2)] sample_fresh sample_claim_key by metis
qed

text \<open>A book the sample key has been used on.\<close>

definition used_row :: key_row where
  "used_row = \<lparr>key_key = sample_key, key_hash = replicate 32 CHR ''h'', key_txn = Some 7, key_created = 0\<rparr>"

definition used_book :: book where
  "used_book = sample_book\<lparr>
     transactions := [\<lparr>txn_id = 7, txn_currency = ''USD'', txn_description = ''Opening'', txn_occurred = 0, txn_created = 0\<rparr>],
     postings := [\<lparr>pst_id = 1, pst_txn = 7, pst_account = 100, pst_currency = ''USD'', pst_amount = 5, pst_created = 0\<rparr>,
       \<lparr>pst_id = 2, pst_txn = 7, pst_account = 101, pst_currency = ''USD'', pst_amount = - 5, pst_created = 0\<rparr>],
     idempotency_keys := [used_row]\<rparr>"

lemma used_book_wf: "wf_book c_locale used_book"
proof -
  have "key_check c_locale sample_key" by code_simp
  then have "\<forall>r \<in> set (idempotency_keys used_book). key_fine c_locale used_book r"
    by (simp add: used_book_def used_row_def key_fine_def)
  moreover have "wf_book c_locale (used_book\<lparr>idempotency_keys := []\<rparr>)" by code_simp
  ultimately show ?thesis
    by (simp add: wf_book_def posting_fine_def has_transaction_def has_account_def) (simp add: used_book_def)
qed

lemma sample_key_text: "text_ok sample_key"
  by code_simp

lemma used_setting:
  "wf_book (ctype_of (quiet_session used_book)) (work (quiet_session used_book))"
  "length (cl_hash (sample_claim x)) = 32" "text_ok (cl_key (sample_claim x))"
  "key_with (work (quiet_session used_book)) (cl_key (sample_claim x)) = Some used_row"
  "key_txn used_row = Some 7" "key_hash used_row = replicate 32 CHR ''h''"
  by (simp_all add: used_book_wf sample_claim_key sample_key_text) (simp_all add: key_with_def used_book_def used_row_def)

lemma used_replay:
  "once (sample_claim CHR ''h'') w (quiet_session used_book) =
     (Inr \<lparr>rc_key = sample_key, rc_transaction = uuid_out 7, rc_replayed = True\<rparr>, quiet_session used_book)"
  using once_held [OF quiet_healthy used_setting(1-5), of "CHR ''h''" w] used_setting(6)
  by (simp add: sample_claim_key)

text \<open>
  C6. A key already settled: whatever write it is given, \<open>Once\<close> does not run it.  The same request
  (the same fingerprint) is answered with the transaction the key names, marked a replay; any
  other is refused with \<open>ErrKeyReused\<close>.  Either way the session is exactly what it was.
\<close>

theorem once_replays_a_settled_key:
  assumes "healthy s" and "wf_book (ctype_of s) (work s)" and "length (cl_hash c) = 32" and "text_ok (cl_key c)"
    and "key_with (work s) (cl_key c) = Some r" and "key_txn r = Some u"
  shows "if key_hash r = cl_hash c
    then once c w s = (Inr \<lparr>rc_key = cl_key c, rc_transaction = uuid_out u, rc_replayed = True\<rparr>, s)
    else \<exists>e. once c w s = (Inl e, s) \<and> errors_is e ErrKeyReused \<and> as_pg e = None"
  using once_held [OF assms, of w] by (auto simp: errors_is_def as_pg_def)

theorem once_replays_a_settled_key_witness:
  "once (sample_claim CHR ''h'') (fail (Sentinel Canceled)) (quiet_session used_book) =
      (Inr \<lparr>rc_key = sample_key, rc_transaction = uuid_out 7, rc_replayed = True\<rparr>, quiet_session used_book) \<and>
   (\<exists>e. once (sample_claim CHR ''x'') (fail (Sentinel Canceled)) (quiet_session used_book) =
      (Inl e, quiet_session used_book) \<and> errors_is e ErrKeyReused)"
proof -
  have "replicate 32 CHR ''h'' \<noteq> replicate 32 CHR ''x''" by simp
  then show ?thesis
    using once_replays_a_settled_key [OF quiet_healthy used_setting(1-5), of "CHR ''h''" "fail (Sentinel Canceled)"]
      once_replays_a_settled_key [OF quiet_healthy used_setting(1-5), of "CHR ''x''" "fail (Sentinel Canceled)"]
    unfolding used_setting(6) sample_claim_key by (simp only: if_True if_False refl) blast
qed

text \<open>
  C7. Whatever goes wrong, a \<open>Once\<close> around \<open>Post\<close> that answers an error in a session that can still be
  used has left the book as it found it, the key's reservation included: the client can mend the
  request and send it again under the same key.
\<close>

theorem refused_once_leaves_nothing:
  assumes "once c (post e) s = (Inl x, s')" and "usable s'"
  shows "untouched s s'"
  using assms by (rule post_writer.refused_once)

theorem refused_once_leaves_nothing_witness:
  "\<exists>x s'. once (sample_claim CHR ''x'') (post (sample_entry 1)) (quiet_session used_book) = (Inl x, s') \<and>
     usable s' \<and> untouched (quiet_session used_book) s'"
proof -
  have "replicate 32 CHR ''h'' \<noteq> replicate 32 CHR ''x''" by simp
  then obtain x where x: "once (sample_claim CHR ''x'') (post (sample_entry 1)) (quiet_session used_book) = (Inl x, quiet_session used_book)"
    using once_held [OF quiet_healthy used_setting(1-5), of "CHR ''x''" "post (sample_entry 1)"]
    unfolding used_setting(6) sample_claim_key by (simp only: if_False)
  have u: "usable (quiet_session used_book)"
    using healthyD [OF quiet_healthy, of used_book] by (simp add: usable_def)
  from refused_once_leaves_nothing [OF x u] x u show ?thesis by blast
qed

text \<open>
  C8. Whatever goes wrong on the way, a success of \<open>Once\<close> around \<open>Post\<close> is true: the book holds the
  key, with this request's fingerprint, and it names the transaction answered with.
\<close>

theorem once_success_is_true:
  assumes "once c (post e) s = (Inr rec, s')"
  shows "\<exists>r u. key_with (work s') (cl_key c) = Some r \<and> key_hash r = cl_hash c \<and> key_txn r = Some u \<and>
    uuid_in (rc_transaction rec) = Some u \<and> rc_key rec = cl_key c"
  using post_writer.key_of_success [OF assms] by (auto simp: names_def)

theorem once_success_is_true_witness:
  "\<exists>r u. key_with (work (quiet_session used_book)) (cl_key (sample_claim CHR ''h'')) = Some r \<and>
    key_hash r = cl_hash (sample_claim CHR ''h'') \<and> key_txn r = Some u \<and> uuid_in (uuid_out 7) = Some u"
  using once_success_is_true [OF used_replay] by (simp del: quiet_frame) blast

text \<open>
  A key the ledger does not take (not text, not 16 to 255 printable characters, or a
  fingerprint that is not 32 bytes) is refused with \<open>ErrBadKey\<close> around the server's own refusal;
  the write does not run and the book is untouched.
\<close>

theorem once_refuses_a_bad_key:
  assumes "healthy s" and "\<not> key_fit s c"
  shows "\<exists>e. once c w s = (Inl e, s\<lparr>saves := (once_savepoint, snapshot_of s) # saves s\<rparr>) \<and>
    (\<forall>z. errors_is e z \<longleftrightarrow> z = ErrBadKey) \<and> as_pg e \<noteq> None"
proof -
  have "\<exists>p. insert_key (ctype_of s) (now s) (cl_key c) (cl_hash c) (work s) = Inl p \<and> pg_code p \<noteq> ''23505''"
    using assms(2) by (simp add: key_fit_def insert_key_def server_refusal_def check_violation_def)
  then obtain p where p: "insert_key (ctype_of s) (now s) (cl_key c) (cl_hash c) (work s) = Inl p" "pg_code p \<noteq> ''23505''"
    by blast
  have "(\<forall>z. errors_is (bad_key (PgErr p) c) z \<longleftrightarrow> z = ErrBadKey) \<and> as_pg (bad_key (PgErr p) c) \<noteq> None"
    by (auto simp: bad_key_def errors_is_def as_pg_def)
  with once_key_refused [OF assms(1) p(1), of w] p(2) show ?thesis by (simp add: fail_def marked_def)
qed

theorem once_refuses_a_bad_key_witness:
  "\<exists>e s'. once ((sample_claim CHR ''h'')\<lparr>cl_key := ''too short''\<rparr>) (post (sample_entry 500)) (quiet_session sample_book) = (Inl e, s') \<and>
    errors_is e ErrBadKey"
proof -
  have "\<not> key_fit (quiet_session sample_book) ((sample_claim CHR ''h'')\<lparr>cl_key := ''too short''\<rparr>)"
    unfolding key_fit_def quiet_frame by code_simp
  from once_refuses_a_bad_key [OF quiet_healthy this] show ?thesis by blast
qed

end
