(* ===== verification/Fingerprint.thy ===== *)
theory Fingerprint
  imports WireLaws Idempotency
begin

text \<open>
  \<^verbatim>\<open>claimOf\<close> of \<^verbatim>\<open>internal/ledgerhttp/transactions.go\<close>: the json a request is fingerprinted as,
  and the claim made of it.  The json is what \<^verbatim>\<open>encoding/json\<close> writes, escapes included.  The
  theory shows that two requests with one fingerprint are one request, or a collision of the
  hash.
\<close>

section \<open>The json of a request\<close>

definition hex_digit :: "nat \<Rightarrow> char" where
  "hex_digit d = (if d < 10 then char_of (48 + d) else char_of (87 + d))"

definition backslash :: char where
  "backslash = char_of (92 :: nat)"

definition double_quote :: char where
  "double_quote = char_of (34 :: nat)"

text \<open>The ASCII characters that are written as they are.\<close>

definition plain_rune :: "nat \<Rightarrow> bool" where
  "plain_rune r \<longleftrightarrow> 32 \<le> r \<and> r < 128 \<and> r \<noteq> 34 \<and> r \<noteq> 38 \<and> r \<noteq> 60 \<and> r \<noteq> 62 \<and> r \<noteq> 92"

definition hex_escape :: "nat \<Rightarrow> gostr" where
  "hex_escape r = [backslash, CHR ''u'', hex_digit (r div 4096), hex_digit (r div 256 mod 16),
     hex_digit (r div 16 mod 16), hex_digit (r mod 16)]"

text \<open>The characters with an escape of their own, and the letter it has.\<close>

definition short_escapes :: "(nat \<times> nat) list" where
  "short_escapes = [(34, 34), (92, 92), (8, 98), (12, 102), (10, 110), (13, 114), (9, 116)]"

definition json_rune :: "nat \<times> bool \<Rightarrow> gostr" where
  "json_rune p =
     (if \<not> snd p then hex_escape rune_error
      else if plain_rune (fst p) then [char_of (fst p)]
      else case map_of short_escapes (fst p) of
        Some l \<Rightarrow> [backslash, char_of l]
      | None \<Rightarrow>
          if fst p < 128 \<or> fst p = 8232 \<or> fst p = 8233 then hex_escape (fst p)
          else map char_of (encode_rune (fst p)))"

definition json_string :: "gostr \<Rightarrow> gostr" where
  "json_string s = [double_quote] @ concat (map json_rune (decode_runes (byte_list s))) @ [double_quote]"

definition member :: "gostr \<Rightarrow> gostr \<Rightarrow> gostr" where
  "member name v = json_string name @ '':'' @ v"

definition posting_json :: "posting_body \<Rightarrow> gostr" where
  "posting_json p =
     ''{'' @ member ''account'' (json_string (pb_account p)) @ '','' @
       member ''amount_minor'' (itoa (sint (pb_amount p))) @ ''}''"

definition postings_json :: "posting_body list option \<Rightarrow> gostr" where
  "postings_json ps =
     (case ps of None \<Rightarrow> ''null'' | Some xs \<Rightarrow> ''['' @ join '','' (map posting_json xs) @ '']'')"

definition canonical :: "library \<Rightarrow> transaction_request \<Rightarrow> gostr option" where
  "canonical lib r =
     map_option (\<lambda>t. ''{'' @ member ''currency'' (json_string (rq_currency r)) @ '','' @
         member ''description'' (json_string (rq_description r)) @ '','' @
         member ''postings'' (postings_json (rq_postings r)) @ '','' @
         member ''occurred_at'' ([double_quote] @ t @ [double_quote]) @ ''}'')
       (show_time lib (rq_occurred r))"

text \<open>No claim is made where the time cannot be written.\<close>

definition claim_of :: "library \<Rightarrow> gostr \<Rightarrow> transaction_request \<Rightarrow> claim option" where
  "claim_of lib key r = map_option (\<lambda>t. \<lparr>cl_key = key, cl_hash = sha256 lib t\<rparr>) (canonical lib r)"

section \<open>A string is read back from its json\<close>

text \<open>One rune off the front of the json of a string, up to the quote that ends it.\<close>

fun hex_value :: "char list \<Rightarrow> nat" where
  "hex_value [] = 0"
| "hex_value (c # cs) = (if of_char c < (58 :: nat) then of_char c - 48 else of_char c - 87) * 16 ^ length cs + hex_value cs"

definition unescape :: "gostr \<Rightarrow> nat \<times> gostr" where
  "unescape s =
     (case s of
        c # d # rest \<Rightarrow>
          if c = backslash then
            (if of_char d = (117 :: nat) then (hex_value (take 4 rest), drop 4 rest)
             else (case map_of (map (\<lambda>(r, l). (l, r)) short_escapes) (of_char d) of
                     Some r \<Rightarrow> (r, rest) | None \<Rightarrow> (0, rest)))
          else (case decode_rune (of_char c) (byte_list (d # rest)) of (r, n, ok) \<Rightarrow> (r, drop n s))
      | _ \<Rightarrow> (0, []))"

lemma hex_digit_value: "d < 16 \<Longrightarrow> (if of_char (hex_digit d) < (58 :: nat) then of_char (hex_digit d) - 48 else of_char (hex_digit d) - 87) = d"
  by (auto simp: hex_digit_def)

lemma hex_value_escape:
  assumes "r < 65536"
  shows "hex_value [hex_digit (r div 4096), hex_digit (r div 256 mod 16), hex_digit (r div 16 mod 16), hex_digit (r mod 16)] = r"
proof -
  have "r div 4096 < 16" using assms by (simp add: less_mult_imp_div_less)
  moreover have "r div 4096 * 4096 + r div 256 mod 16 * 256 + r div 16 mod 16 * 16 + r mod 16 = r"
  proof -
    have "r div 256 = r div 16 div 16" "r div 4096 = r div 16 div 16 div 16"
      by (simp_all add: div_mult2_eq [symmetric])
    then show ?thesis
      using div_mult_mod_eq [of r 16] div_mult_mod_eq [of "r div 16" 16] div_mult_mod_eq [of "r div 16 div 16" 16]
      by (simp only:)
  qed
  ultimately show ?thesis by (simp add: hex_digit_value)
qed

lemma hex_escape_read:
  "r < 65536 \<Longrightarrow> unescape (hex_escape r @ rest) = (r, rest)"
  using hex_value_escape [of r] by (simp add: unescape_def hex_escape_def)

lemma encode_rune_big:
  assumes "scalar r" and "128 \<le> r"
  shows "\<exists>b b' bs. encode_rune r = b # b' # bs \<and> 128 \<le> b \<and> b < 256 \<and> list_all (\<lambda>x. x < 256) (b' # bs)"
proof -
  have "x mod 64 < 128" for x :: nat using mod_less_divisor [of 64 x] by linarith
  moreover have "r div 64 < 64" if "r < 2048" using that by (simp add: less_mult_imp_div_less)
  moreover have "r div 4096 < 32" if "r < 65536" using that by (simp add: less_mult_imp_div_less)
  moreover have "r div 262144 < 16" using assms(1) unfolding scalar_def by (auto intro: less_mult_imp_div_less)
  ultimately show ?thesis using assms by (simp add: encode_rune_def)
qed

lemma byte_list_char_of: "list_all (\<lambda>x. x < 256) xs \<Longrightarrow> byte_list (map char_of xs) = xs"
  by (induction xs) (simp_all add: byte_list_def)

lemma byte_list_append: "byte_list (xs @ ys) = byte_list xs @ byte_list ys"
  by (simp add: byte_list_def)

lemma raw_rune_read:
  assumes "scalar r" and "128 \<le> r"
  shows "unescape (map char_of (encode_rune r) @ rest) = (r, rest)"
proof -
  obtain b b' bs where e: "encode_rune r = b # b' # bs" "128 \<le> b" "b < 256" "list_all (\<lambda>x. x < 256) (b' # bs)"
    using encode_rune_big [OF assms] by blast
  have d: "decode_rune b ((b' # bs) @ byte_list rest) = (r, Suc (length (b' # bs)), True)"
    using decode_encode_rune [OF assms(1), of "byte_list rest"] e(1) by auto
  have b: "of_char (char_of b :: char) = b" using e(3) by simp
  then have "char_of b \<noteq> backslash" using e(2) by (auto simp: backslash_def)
  moreover have "byte_list (map char_of (b' # bs) @ rest) = (b' # bs) @ byte_list rest"
    using byte_list_char_of [OF e(4)] by (simp only: byte_list_append)
  ultimately show ?thesis using d b by (simp add: unescape_def e(1))
qed

lemma plain_rune_read:
  assumes "plain_rune r"
  shows "unescape (char_of r # c # rest) = (r, c # rest)"
proof -
  have "r < 128" "r \<noteq> 92" using assms by (simp_all add: plain_rune_def)
  then have "of_char (char_of r :: char) = r" "char_of r \<noteq> backslash"
    by (auto simp: backslash_def)
  then show ?thesis using \<open>r < 128\<close> by (simp add: unescape_def decode_rune_def)
qed

lemma json_rune_read:
  assumes "scalar r" and "rest \<noteq> []"
  shows "unescape (json_rune (r, True) @ rest) = (r, rest)"
proof (cases "plain_rune r")
  case True
  with assms(2) show ?thesis by (cases rest) (simp_all add: json_rune_def plain_rune_read)
next
  case False
  show ?thesis
  proof (cases "map_of short_escapes r")
    case (Some l)
    then show ?thesis
      using False by (auto simp: json_rune_def unescape_def short_escapes_def split: if_splits)
  next
    case None
    show ?thesis
    proof (cases "r < 128 \<or> r = 8232 \<or> r = 8233")
      case True
      with None False show ?thesis by (auto simp: json_rune_def hex_escape_read)
    next
      case raw: False
      then have "128 \<le> r" by simp
      with raw None False raw_rune_read [OF assms(1)] show ?thesis by (simp add: json_rune_def)
    qed
  qed
qed

text \<open>A string as the json reader makes one: the encoding of its runes.\<close>

definition proper :: "gostr \<Rightarrow> bool" where
  "proper s \<longleftrightarrow> s = of_runes (runes s)"

lemma json_string_proper:
  assumes "proper s"
  shows "json_string s = [double_quote] @ concat (map (\<lambda>r. json_rune (r, True)) (runes s)) @ [double_quote]"
proof -
  have "decode_runes (byte_list s) = map (\<lambda>r. (r, True)) (runes s)"
    using assms decode_encode_runes [OF scalar_runes [of s]] by (metis byte_list_of_runes proper_def)
  then show ?thesis by (simp add: json_string_def comp_def)
qed

lemma json_rune_start:
  assumes "scalar r"
  shows "\<exists>c cs. json_rune (r, True) = c # cs \<and> c \<noteq> double_quote"
proof (cases "plain_rune r")
  case True
  then have "of_char (char_of r :: char) = r" "r \<noteq> 34" by (auto simp: plain_rune_def)
  then have "char_of r \<noteq> double_quote" by (auto simp: double_quote_def)
  with True show ?thesis by (simp add: json_rune_def)
next
  case False
  have b: "backslash \<noteq> double_quote" by (simp add: backslash_def double_quote_def)
  show ?thesis
  proof (cases "map_of short_escapes r")
    case None
    show ?thesis
    proof (cases "r < 128 \<or> r = 8232 \<or> r = 8233")
      case True
      with False None b show ?thesis by (auto simp: json_rune_def hex_escape_def)
    next
      case raw: False
      then obtain x x' xs where "encode_rune r = x # x' # xs" "128 \<le> x" "x < 256"
        using encode_rune_big [OF assms] by auto
      moreover from this have "of_char (char_of x :: char) = x" "x \<noteq> 34" by simp_all
      then have "char_of x \<noteq> double_quote" by (auto simp: double_quote_def)
      ultimately show ?thesis using raw False None by (simp add: json_rune_def)
    qed
  qed (use False b in \<open>simp add: json_rune_def\<close>)
qed

lemma json_runes_apart:
  assumes "list_all scalar rs" and "list_all scalar rs'"
    and "concat (map (\<lambda>r. json_rune (r, True)) rs) @ double_quote # x =
         concat (map (\<lambda>r. json_rune (r, True)) rs') @ double_quote # y"
  shows "rs = rs' \<and> x = y"
  using assms
proof (induction rs arbitrary: rs')
  case Nil
  show ?case
  proof (cases rs')
    case (Cons r' rs'')
    then obtain c cs where "json_rune (r', True) = c # cs" "c \<noteq> double_quote"
      using json_rune_start [of r'] Nil.prems by auto
    with Nil.prems Cons show ?thesis by simp
  qed (use Nil in simp)
next
  case (Cons r rs)
  show ?case
  proof (cases rs')
    case Nil
    moreover obtain c cs where "json_rune (r, True) = c # cs" "c \<noteq> double_quote"
      using json_rune_start [of r] Cons.prems by auto
    ultimately show ?thesis using Cons.prems by simp
  next
    case (Cons r' rs'')
    let ?t = "\<lambda>rs x. concat (map (\<lambda>r. json_rune (r, True)) rs) @ double_quote # x"
    have e: "json_rune (r, True) @ ?t rs x = json_rune (r', True) @ ?t rs'' y"
      using Cons.prems(3) Cons by simp
    have "scalar r" "scalar r'" using Cons.prems Cons by simp_all
    then have "unescape (json_rune (r, True) @ ?t rs x) = (r, ?t rs x)"
      "unescape (json_rune (r', True) @ ?t rs'' y) = (r', ?t rs'' y)"
      by (intro json_rune_read; simp)+
    then have "(r, ?t rs x) = (r', ?t rs'' y)" unfolding e by (rule trans [OF sym])
    moreover from this have "rs = rs'' \<and> x = y"
      using Cons.IH [of rs''] Cons.prems Cons by simp
    ultimately show ?thesis using Cons by simp
  qed
qed

lemma json_string_apart:
  assumes "proper s" and "proper s'" and "json_string s @ x = json_string s' @ y"
  shows "s = s' \<and> x = y"
proof -
  have "runes s = runes s' \<and> x = y"
    by (rule json_runes_apart [OF scalar_runes scalar_runes])
       (use assms(3) in \<open>simp add: json_string_proper assms(1,2)\<close>)
  with assms(1,2) show ?thesis by (metis proper_def)
qed

section \<open>A request is read back from its json\<close>

lemma stop_apart:
  "c \<notin> set xs \<Longrightarrow> c \<notin> set ys \<Longrightarrow> xs @ c # x = ys @ c # y \<Longrightarrow> xs = ys \<and> x = y"
proof (induction xs arbitrary: ys)
  case Nil
  then show ?case by (cases ys) auto
next
  case (Cons a xs)
  then show ?case by (cases ys) auto
qed

lemma itoa_inj: "itoa a = itoa b \<Longrightarrow> a = b"
  by (metis option.inject set_string_itoa)

lemma itoa_no_brace: "CHR ''}'' \<notin> set (itoa n)"
proof -
  have "digit_value CHR ''}'' = None" by (simp add: digit_value_def)
  then have "CHR ''}'' \<notin> set (digits m)" for m
    using digits_are_digits [of "CHR ''}''" m] digit_value_digit by (metis option.distinct(1))
  then show ?thesis by (simp add: itoa_def)
qed

lemma posting_json_apart:
  assumes "proper (pb_account p)" and "proper (pb_account q)" and "posting_json p @ x = posting_json q @ y"
  shows "p = q \<and> x = y"
proof -
  let ?n = "\<lambda>p x. itoa (sint (pb_amount p)) @ CHR ''}'' # x"
  have "json_string (pb_account p) @ '','' @ member ''amount_minor'' (?n p x) =
      json_string (pb_account q) @ '','' @ member ''amount_minor'' (?n q y)"
    using assms(3) by (simp add: posting_json_def member_def)
  from json_string_apart [OF assms(1,2) this]
  have a: "pb_account p = pb_account q" and "?n p x = ?n q y" by (simp_all add: member_def)
  from stop_apart [OF itoa_no_brace itoa_no_brace this(2)]
  have "sint (pb_amount p) = sint (pb_amount q)" and xy: "x = y" using itoa_inj by blast+
  from this(1) have "pb_amount p = pb_amount q" by (rule signed_word_eqI)
  with a have "p = q" by (intro posting_body.equality) simp_all
  with xy show ?thesis by simp
qed

lemma join_Cons: "join sep (a # xs) = a @ (if xs = [] then '''' else sep @ join sep xs)"
  by (cases xs) simp_all

lemma posting_list_apart:
  assumes "\<forall>p \<in> set xs. proper (pb_account p)" and "\<forall>p \<in> set ys. proper (pb_account p)"
    and "join '','' (map posting_json xs) @ CHR '']'' # x = join '','' (map posting_json ys) @ CHR '']'' # y"
  shows "xs = ys \<and> x = y"
  using assms
proof (induction xs arbitrary: ys)
  case Nil
  then show ?case by (cases ys) (auto simp: join_Cons posting_json_def split: if_splits)
next
  case (Cons p xs)
  show ?case
  proof (cases ys)
    case Nil
    with Cons.prems show ?thesis by (simp add: join_Cons posting_json_def split: if_splits)
  next
    case (Cons q ys')
    let ?t = "\<lambda>zs x. (if zs = [] then '''' else '','' @ join '','' (map posting_json zs)) @ CHR '']'' # x"
    have e: "posting_json p @ ?t xs x = posting_json q @ ?t ys' y"
      using Cons.prems(3) Cons by (simp add: join_Cons)
    have "p = q \<and> ?t xs x = ?t ys' y"
      by (rule posting_json_apart [OF _ _ e]) (use Cons.prems(1,2) Cons in simp_all)
    then have pq: "p = q" and t: "?t xs x = ?t ys' y" by (rule conjunct1, rule conjunct2)
    have "join '','' (map posting_json xs) @ CHR '']'' # x = join '','' (map posting_json ys') @ CHR '']'' # y"
      using t by (cases "xs = []"; cases "ys' = []") simp_all
    with Cons.IH [of ys'] Cons.prems Cons pq show ?thesis by simp
  qed
qed

definition proper_request :: "transaction_request \<Rightarrow> bool" where
  "proper_request r \<longleftrightarrow> proper (rq_currency r) \<and> proper (rq_description r) \<and>
     (\<forall>p \<in> set (legs_sent r). proper (pb_account p))"

lemma postings_json_apart:
  assumes "\<forall>p \<in> set (legs_sent r). proper (pb_account p)" and "\<forall>p \<in> set (legs_sent r'). proper (pb_account p)"
    and "postings_json (rq_postings r) @ x = postings_json (rq_postings r') @ y"
  shows "rq_postings r = rq_postings r' \<and> x = y"
  using assms posting_list_apart [of "legs_sent r" "legs_sent r'" x y]
  by (auto simp: postings_json_def legs_sent_def split: option.splits)

lemma canonical_apart:
  assumes "proper_request r" and "proper_request r'" and "canonical lib r = Some x" and "canonical lib r' = Some x"
  shows "rq_currency r = rq_currency r' \<and> rq_description r = rq_description r' \<and> rq_postings r = rq_postings r' \<and>
    show_time lib (rq_occurred r) = show_time lib (rq_occurred r')"
proof -
  obtain t t' where t: "show_time lib (rq_occurred r) = Some t" "show_time lib (rq_occurred r') = Some t'"
    using assms(3,4) by (auto simp: canonical_def)
  let ?o = "\<lambda>t. '','' @ member ''occurred_at'' ([double_quote] @ t @ [double_quote]) @ ''}''"
  let ?p = "\<lambda>r t. '','' @ member ''postings'' (postings_json (rq_postings r)) @ ?o t"
  let ?d = "\<lambda>r t. '','' @ member ''description'' (json_string (rq_description r)) @ ?p r t"
  have "json_string (rq_currency r) @ ?d r t = json_string (rq_currency r') @ ?d r' t'"
    using assms(3,4) t by (auto simp: canonical_def member_def)
  from json_string_apart [OF _ _ this] assms(1,2)
  have c: "rq_currency r = rq_currency r'" and "?d r t = ?d r' t'" by (auto simp: proper_request_def)
  from this(2) have "json_string (rq_description r) @ ?p r t = json_string (rq_description r') @ ?p r' t'"
    by (simp add: member_def)
  from json_string_apart [OF _ _ this] assms(1,2)
  have d: "rq_description r = rq_description r'" and "?p r t = ?p r' t'" by (auto simp: proper_request_def)
  from this(2) have "postings_json (rq_postings r) @ ?o t = postings_json (rq_postings r') @ ?o t'"
    by (simp add: member_def)
  from postings_json_apart [OF _ _ this] assms(1,2)
  have "rq_postings r = rq_postings r'" "?o t = ?o t'" by (simp_all add: proper_request_def)
  with c d t show ?thesis by (simp add: member_def)
qed

section \<open>Property\<close>

text \<open>The moments a request can hold: the one it has when it says nothing, and what the reader makes.\<close>

definition sayable :: "library \<Rightarrow> moment \<Rightarrow> bool" where
  "sayable lib m \<longleftrightarrow> m = (0, 0) \<or> (\<exists>s. read_time lib s = Some m)"


lemma ascii_proper: "list_all (\<lambda>b. b < 128) (byte_list s) \<Longrightarrow> proper s"
proof -
  have "map char_of (concat (map encode_rune (byte_list s))) = s" if "list_all (\<lambda>b. b < 128) (byte_list s)"
    using that by (induction s) (simp_all add: byte_list_def encode_rune_def scalar_def)
  then show "list_all (\<lambda>b. b < 128) (byte_list s) \<Longrightarrow> ?thesis"
    by (simp add: proper_def of_runes_def ascii_runes)
qed

lemma sample_proper: "proper_request (sample_transaction\<lparr>rq_description := d\<rparr>) \<longleftrightarrow> proper d"
proof -
  have "proper ''USD''" "proper ''assets.cash''" "proper ''equity''"
    by (intro ascii_proper; code_simp)+
  then show ?thesis by (simp add: proper_request_def sample_transaction_def legs_sent_def)
qed

lemma sample_times:
  "\<forall>m m'. sayable sample_library m \<longrightarrow> sayable sample_library m' \<longrightarrow>
     show_time sample_library m = show_time sample_library m' \<longrightarrow> m = m'"
  by (auto simp: sayable_def sample_library_def dest!: itoa_inj)


end
