(* ===== verification/Balances.thy ===== *)
theory Balances
  imports Idempotency
begin

text \<open>
  \<^verbatim>\<open>internal/ledger/balance.go\<close>: one account's balance, the list of them a filter matches, and
  the trial balance.  The theory shows that a balance is the exact sum of its account's
  postings and moves by exactly the legs posted to it, that pages taken one after the other
  are the whole list, and that in any consistent book every currency nets to zero.
\<close>

section \<open>One account\<close>

record balance =
  bl_account :: gostr
  bl_name :: gostr
  bl_kind :: gostr
  bl_currency :: gostr
  bl_amount :: minor
  bl_postings :: nat

text \<open>A numeric column reaches \<^verbatim>\<open>Scan\<close> as its digits.\<close>

definition numeric :: "int \<Rightarrow> driver_value" where
  "numeric n = VString (itoa n)"

definition scan_balance :: "balance_row \<Rightarrow> err + balance" where
  "scan_balance r =
     map_sum id (\<lambda>m. \<lparr>bl_account = acc_code (bal_account r), bl_name = acc_name (bal_account r),
       bl_kind = kind_text (acc_kind (bal_account r)), bl_currency = acc_currency (bal_account r),
       bl_amount = m, bl_postings = bal_postings r\<rparr>) (scan_minor (numeric (bal_minor r)))"

definition answer :: "err + 'a \<Rightarrow> 'a act" where
  "answer r = (case r of Inl e \<Rightarrow> fail e | Inr x \<Rightarrow> ret x)"

definition balance_query :: "gostr \<Rightarrow> session \<Rightarrow> pg_error + balance_row option" where
  "balance_query c s =
     (if \<not> text_ok c then Inl bad_text
      else Inr (List.find (\<lambda>r. acc_code (bal_account r) = c) (account_balances (work s))))"

definition balance_of :: "gostr \<Rightarrow> balance act" where
  "balance_of c =
     attempt (attempt (query_row (balance_query c)) fail (\<lambda>r. answer (scan_balance r)))
       (\<lambda>e. fail
          (if errors_is e ErrNoRows then Errorf [Cause (Sentinel ErrUnknownAccount), Txt '': '', Quo (shown c)]
           else Errorf [Txt ''read the balance of '', Quo (shown c), Txt '': '', Cause e]))
       ret"

section \<open>Many accounts\<close>

record account_filter =
  af_currency :: gostr
  af_kind :: gostr
  af_after :: gostr
  af_limit :: int

definition check_kind :: "gostr \<Rightarrow> unit act" where
  "check_kind kind =
     (if kind = '''' then ret ()
      else attempt account_kinds
        (\<lambda>e. fail (Errorf [Txt ''read the account kinds to check '', Quo (shown kind), Txt '' against: '', Cause e]))
        (\<lambda>ks. if kind \<in> set ks then ret () else fail (UnknownKindErr kind ks None)))"

text \<open>
  The WHERE, the ORDER BY and the LIMIT.  A comparison of text is the database's: strictly after
  is not at or before.
\<close>

definition matches :: "ctype \<Rightarrow> account_filter \<Rightarrow> balance_row \<Rightarrow> bool" where
  "matches ct f r \<longleftrightarrow>
     (af_currency f = '''' \<or> acc_currency (bal_account r) = af_currency f) \<and>
     (af_kind f = '''' \<or> kind_text (acc_kind (bal_account r)) = af_kind f) \<and>
     (af_after f = '''' \<or> \<not> collate_le ct (acc_code (bal_account r)) (af_after f))"

definition by_code :: "ctype \<Rightarrow> balance_row \<Rightarrow> balance_row \<Rightarrow> bool" where
  "by_code ct r r' \<longleftrightarrow> collate_le ct (acc_code (bal_account r)) (acc_code (bal_account r'))"

definition limit_rows :: "int \<Rightarrow> 'a list \<Rightarrow> 'a list" where
  "limit_rows n xs = (if n = 0 then xs else take (nat n) xs)"

definition list_rows :: "ctype \<Rightarrow> account_filter \<Rightarrow> book \<Rightarrow> balance_row list" where
  "list_rows ct f b =
     limit_rows (max (af_limit f) 0) (sort_by (by_code ct) (filter (matches ct f) (account_balances b)))"

definition list_query :: "account_filter \<Rightarrow> session \<Rightarrow> pg_error + balance_row list" where
  "list_query f s =
     (if \<not> text_ok (af_currency f) \<or> \<not> text_ok (af_kind f) \<or> \<not> text_ok (af_after f) then Inl bad_text
      else Inr (list_rows (ctype_of s) f (work s)))"

definition for_filter :: "gostr \<Rightarrow> account_filter \<Rightarrow> err \<Rightarrow> err" where
  "for_filter what f e =
     Errorf [Txt what, Txt '' (currency '', Quo (shown (af_currency f)), Txt '', kind '',
       Quo (shown (af_kind f)), Txt ''): '', Cause e]"

fun scan_balances :: "account_filter \<Rightarrow> balance_row list \<Rightarrow> err + balance list" where
  "scan_balances f [] = Inr []"
| "scan_balances f (r # rs) =
     (case scan_balance r of
        Inl e \<Rightarrow> Inl (for_filter ''read a balance'' f e)
      | Inr b \<Rightarrow> map_sum id (\<lambda>bs. b # bs) (scan_balances f rs))"

definition balances :: "account_filter \<Rightarrow> balance list act" where
  "balances f =
     attempt (check_kind (af_kind f)) fail (\<lambda>_.
     attempt (query (list_query f)) (\<lambda>e. fail (for_filter ''list balances'' f e)) (\<lambda>rows.
     answer (scan_balances f rows)))"

section \<open>The trial balance\<close>

record trial =
  tr_currency :: gostr
  tr_debits :: minor
  tr_credits :: minor
  tr_net :: minor
  tr_accounts :: nat
  tr_postings :: nat

definition trial_balanced :: "trial \<Rightarrow> bool" where
  "trial_balanced t \<longleftrightarrow> minor_is_zero (tr_net t)"

record trial_row =
  tw_currency :: gostr
  tw_debits :: int
  tw_credits :: int
  tw_net :: int
  tw_accounts :: nat
  tw_postings :: nat

definition amounts_in :: "book \<Rightarrow> gostr \<Rightarrow> int list" where
  "amounts_in b c =
     [sint (pst_amount p). a \<leftarrow> accounts b, acc_currency a = c, p \<leftarrow> postings_on b (acc_id a)]"

definition trial_row_of :: "book \<Rightarrow> gostr \<Rightarrow> trial_row" where
  "trial_row_of b c =
     (let ms = amounts_in b c in
      \<lparr>tw_currency = c, tw_debits = sum_list (filter (\<lambda>m. m > 0) ms),
       tw_credits = - sum_list (filter (\<lambda>m. m < 0) ms), tw_net = sum_list ms,
       tw_accounts = length (filter (\<lambda>a. acc_currency a = c) (accounts b)),
       tw_postings = length ms\<rparr>)"

definition trial_rows :: "ctype \<Rightarrow> book \<Rightarrow> trial_row list" where
  "trial_rows ct b = map (trial_row_of b) (sort_by (collate_le ct) (remdups (map acc_currency (accounts b))))"

definition scan_trial :: "trial_row \<Rightarrow> err + trial" where
  "scan_trial r =
     (case scan_minor (numeric (tw_debits r)) of Inl e \<Rightarrow> Inl e | Inr d \<Rightarrow>
      case scan_minor (numeric (tw_credits r)) of Inl e \<Rightarrow> Inl e | Inr c \<Rightarrow>
      case scan_minor (numeric (tw_net r)) of Inl e \<Rightarrow> Inl e | Inr n \<Rightarrow>
        Inr \<lparr>tr_currency = tw_currency r, tr_debits = d, tr_credits = c, tr_net = n,
             tr_accounts = tw_accounts r, tr_postings = tw_postings r\<rparr>)"

fun scan_trials :: "trial_row list \<Rightarrow> err + trial list" where
  "scan_trials [] = Inr []"
| "scan_trials (r # rs) =
     (case scan_trial r of
        Inl e \<Rightarrow> Inl (wrapped ''read one currency's totals'' e)
      | Inr t \<Rightarrow> map_sum id (\<lambda>ts. t # ts) (scan_trials rs))"

definition trial_balance :: "trial list act" where
  "trial_balance =
     attempt (query (\<lambda>s. Inr (trial_rows (ctype_of s) (work s))))
       (\<lambda>e. fail (wrapped ''read the trial balance'' e)) (\<lambda>rows. answer (scan_trials rows))"

section \<open>Reading only\<close>

lemma observes_answer [observe_intros]: "observes (answer r)"
  by (cases r) (simp_all add: answer_def observe_intros)

lemma via_answer [via_intros]: "via A (answer r)"
  by (cases r) (simp_all add: answer_def via_intros)

lemma observes_balance_of: "observes (balance_of c)"
  unfolding balance_of_def by (intro observe_intros)

lemma observes_check_kind [observe_intros]: "observes (check_kind k)"
  unfolding check_kind_def account_kinds_def by (intro observe_intros)

lemma observes_balances: "observes (balances f)"
  unfolding balances_def by (intro observe_intros)

lemma observes_trial_balance: "observes trial_balance"
  unfolding trial_balance_def by (intro observe_intros)

lemma via_balance_of [via_intros]: "via A (balance_of c)"
  unfolding balance_of_def by (intro via_intros)

lemma via_balances [via_intros]: "via A (balances f)"
  unfolding balances_def check_kind_def by (intro via_intros)

lemma via_trial_balance [via_intros]: "via A trial_balance"
  unfolding trial_balance_def by (intro via_intros)

section \<open>Scanning loses nothing\<close>

lemma scan_numeric [simp]: "scan_minor (numeric n) = Inr (Minor n)"
  using scan_string(1) [of "Minor n"] by (simp add: numeric_def minor_string_def)

definition balance_for :: "balance_row \<Rightarrow> balance" where
  "balance_for r = \<lparr>bl_account = acc_code (bal_account r), bl_name = acc_name (bal_account r),
     bl_kind = kind_text (acc_kind (bal_account r)), bl_currency = acc_currency (bal_account r),
     bl_amount = Minor (bal_minor r), bl_postings = bal_postings r\<rparr>"

definition trial_for :: "trial_row \<Rightarrow> trial" where
  "trial_for r = \<lparr>tr_currency = tw_currency r, tr_debits = Minor (tw_debits r), tr_credits = Minor (tw_credits r),
     tr_net = Minor (tw_net r), tr_accounts = tw_accounts r, tr_postings = tw_postings r\<rparr>"

lemma scan_balance_row: "scan_balance r = Inr (balance_for r)"
  by (simp add: scan_balance_def balance_for_def)

lemma scan_balances_rows: "scan_balances f rs = Inr (map balance_for rs)"
  by (induction rs) (simp_all add: scan_balance_row)

lemma scan_trials_rows: "scan_trials rs = Inr (map trial_for rs)"
  by (induction rs) (simp_all add: scan_trial_def trial_for_def)

section \<open>In a session no read goes wrong in\<close>

lemma answer_Inr: "answer (Inr x) s = (Inr x, s)"
  by (simp add: answer_def ret_def)

lemma balance_of_readable:
  assumes "readable s" and "text_ok c"
  shows "balance_of c s =
    (case account_with_code (work s) c of
       None \<Rightarrow> (Inl (Errorf [Cause (Sentinel ErrUnknownAccount), Txt '': '', Quo (shown c)]), s)
     | Some a \<Rightarrow> (Inr (balance_for (balance_row_of (work s) a)), s))"
proof -
  have "List.find (\<lambda>r. acc_code (bal_account r) = c) (map (balance_row_of b) as) =
      map_option (balance_row_of b) (List.find (\<lambda>a. acc_code a = c) as)" for b as
    by (induction as) (auto simp: balance_row_of_def)
  then show ?thesis
    using assms
    by (simp add: balance_of_def attempt_def query_row_readable balance_query_def account_balances_def
        account_with_code_def scan_balance_row answer_Inr fail_def ret_def errors_is_def split: option.split)
qed

lemma check_kind_readable:
  "readable s \<Longrightarrow> check_kind k s =
     (if k = '''' \<or> kind_in k \<noteq> None then (Inr (), s) else (Inl (UnknownKindErr k (map kind_text enum_range) None), s))"
  by (auto simp: check_kind_def ret_def fail_def attempt_def account_kinds_readable kind_in_def enum_range_def)

lemma kind_in_ok: "kind_in k \<noteq> None \<Longrightarrow> text_ok k"
proof -
  have "text_ok (kind_text a)" for a by (cases a) (simp_all, code_simp+)
  then show "kind_in k \<noteq> None \<Longrightarrow> text_ok k" by (auto simp: kind_in_def dest: find_SomeD)
qed

lemma balances_readable:
  assumes "readable s" and "text_ok (af_currency f)" and "text_ok (af_after f)"
    and "af_kind f = '''' \<or> kind_in (af_kind f) \<noteq> None"
  shows "balances f s = (Inr (map balance_for (list_rows (ctype_of s) f (work s))), s)"
proof -
  have "text_ok (af_kind f)"
  proof (cases "af_kind f = ''''")
    case True
    have "text_ok ''''" by code_simp
    with True show ?thesis by simp
  next
    case False
    with assms(4) kind_in_ok show ?thesis by blast
  qed
  with assms show ?thesis
    by (simp add: balances_def attempt_def check_kind_readable query_readable list_query_def scan_balances_rows answer_Inr)
qed

lemma trial_balance_readable:
  "readable s \<Longrightarrow> trial_balance s = (Inr (map trial_for (trial_rows (ctype_of s) (work s))), s)"
  by (simp add: trial_balance_def attempt_def query_readable scan_trials_rows answer_Inr)

section \<open>Pages\<close>

text \<open>The rows a filter matches, sorted: no two share a code, so the order is strict.\<close>

definition sorted_rows :: "ctype \<Rightarrow> account_filter \<Rightarrow> book \<Rightarrow> balance_row list" where
  "sorted_rows ct f b = sort_by (by_code ct) (filter (matches ct f) (account_balances b))"

lemma set_sorted_rows: "set (sorted_rows ct f b) = {r \<in> set (account_balances b). matches ct f r}"
  by (simp add: sorted_rows_def)

lemma codes_account_balances: "map (acc_code \<circ> bal_account) (account_balances b) = map acc_code (accounts b)"
  by (simp add: account_balances_def balance_row_of_def)

lemma distinct_sorted_rows:
  assumes "distinct (map acc_code (accounts b))"
  shows "distinct (map (acc_code \<circ> bal_account) (sorted_rows ct f b))"
  using assms unfolding codes_account_balances [symmetric] sorted_rows_def
  by (simp add: distinct_map_filter)

lemma sorted_sorted_rows:
  assumes "linear_le (collate_le ct)"
  shows "sorted_wrt (by_code ct) (sorted_rows ct f b)"
  using sorted_wrt_sort_by [OF assms, of "\<lambda>r. acc_code (bal_account r)"]
  unfolding sorted_rows_def by_code_def [abs_def] .

definition after :: "ctype \<Rightarrow> gostr \<Rightarrow> balance_row \<Rightarrow> bool" where
  "after ct c r \<longleftrightarrow> \<not> collate_le ct (acc_code (bal_account r)) c"

text \<open>In a strictly sorted list, what is after an element is what follows it.\<close>

lemma filter_after:
  assumes "linear_le (collate_le ct)" and "sorted_wrt (by_code ct) (xs @ r # ys)"
    and "distinct (map (acc_code \<circ> bal_account) (xs @ r # ys))"
  shows "filter (after ct (acc_code (bal_account r))) (xs @ r # ys) = ys"
proof -
  let ?le = "collate_le ct" and ?c = "acc_code (bal_account r)"
  have "\<not> after ct ?c x" if "x \<in> set xs" for x
    using assms(2) that by (auto simp: after_def by_code_def sorted_wrt_append)
  moreover have "\<not> after ct ?c r" using linear_le_refl [OF assms(1)] by (simp add: after_def)
  moreover have "after ct ?c y" if "y \<in> set ys" for y
  proof -
    have "?le ?c (acc_code (bal_account y))" using assms(2) that by (simp add: sorted_wrt_append by_code_def)
    moreover have "acc_code (bal_account y) \<noteq> ?c" using assms(3) that by (auto simp: image_iff)
    ultimately show ?thesis
      using linear_le_antisym [OF assms(1), of "acc_code (bal_account y)" ?c] by (auto simp: after_def)
  qed
  ultimately show ?thesis by (simp add: filter_id_conv filter_empty_conv)
qed

lemma insert_by_filter:
  assumes "linear_le le" and "sorted_wrt (\<lambda>a b. le (k a) (k b)) xs"
  shows "filter P (insert_by (\<lambda>a b. le (k a) (k b)) x xs) =
    (if P x then insert_by (\<lambda>a b. le (k a) (k b)) x (filter P xs) else filter P xs)"
  using assms(2)
proof (induction xs)
  case (Cons y ys)
  have head: "insert_by (\<lambda>a b. le (k a) (k b)) x zs = x # zs" if "\<forall>z \<in> set zs. le (k x) (k z)" for zs
    using that by (cases zs) auto
  have "\<forall>z \<in> set ys. le (k y) (k z)" using Cons.prems by simp
  then have "le (k x) (k y) \<Longrightarrow> \<forall>z \<in> set (filter P ys). le (k x) (k z)"
    using linear_le_trans [OF assms(1)] by auto
  with Cons show ?case by (auto simp: head)
qed simp

lemma filter_sort_by:
  assumes "linear_le le"
  shows "filter P (sort_by (\<lambda>a b. le (k a) (k b)) xs) = sort_by (\<lambda>a b. le (k a) (k b)) (filter P xs)"
  by (induction xs) (simp_all add: insert_by_filter [OF assms sorted_wrt_sort_by [OF assms]])

lemma filter_sorted_rows:
  assumes "linear_le (collate_le ct)" and "af_after f = '''' \<or> collate_le ct (af_after f) c" and "c \<noteq> ''''"
  shows "filter (after ct c) (sorted_rows ct f b) = sorted_rows ct (f\<lparr>af_after := c\<rparr>) b"
proof -
  have m: "after ct c r \<and> matches ct f r \<longleftrightarrow> matches ct (f\<lparr>af_after := c\<rparr>) r" for r
    using assms(2,3) linear_le_trans [OF assms(1)] linear_le_total [OF assms(1)]
    unfolding matches_def after_def by (simp del: not_False_eq_True) metis
  have "filter (after ct c) (sorted_rows ct f b) = sort_by (by_code ct) (filter (after ct c) (filter (matches ct f) (account_balances b)))"
    unfolding sorted_rows_def by_code_def [abs_def]
    by (rule filter_sort_by [OF assms(1), of "after ct c" "\<lambda>r. acc_code (bal_account r)"])
  also have "\<dots> = sorted_rows ct (f\<lparr>af_after := c\<rparr>) b"
    by (simp add: sorted_rows_def m conj_commute)
  finally show ?thesis .
qed

lemma next_page:
  assumes "linear_le (collate_le ct)" and "wf_book ct b" and "0 < n" and "n < length (sorted_rows ct f b)"
  defines "c \<equiv> acc_code (bal_account (sorted_rows ct f b ! (n - 1)))"
  shows "sorted_rows ct (f\<lparr>af_after := c\<rparr>) b = drop n (sorted_rows ct f b)"
proof -
  let ?rs = "sorted_rows ct f b"
  let ?r = "?rs ! (n - 1)"
  have split: "?rs = take (n - 1) ?rs @ ?r # drop n ?rs"
    using assms(3,4) by (metis Suc_diff_1 diff_less id_take_nth_drop less_trans zero_less_one)
  have d: "distinct (map (acc_code \<circ> bal_account) ?rs)"
    using wf_bookD(2) [OF assms(2)] by (rule distinct_sorted_rows)
  have "filter (after ct c) ?rs = drop n ?rs"
    using filter_after [OF assms(1), of "take (n - 1) ?rs" ?r "drop n ?rs"] sorted_sorted_rows [OF assms(1), of f b] d
    unfolding split [symmetric] c_def by blast
  moreover have r: "?r \<in> set (account_balances b)" "matches ct f ?r"
    using assms(3,4) nth_mem [of "n - 1" ?rs] unfolding set_sorted_rows by auto
  have "c \<in> set (map acc_code (accounts b))"
    using r(1) unfolding c_def codes_account_balances [symmetric] by simp
  then have "code_check c" using wf_bookD(5) [OF assms(2)] by (auto simp: account_fine_def)
  then have "c \<noteq> ''''" by (auto simp: code_check_def runes_def byte_list_def)
  moreover have "af_after f = '''' \<or> collate_le ct (af_after f) c"
    using r(2) linear_le_total [OF assms(1)] by (auto simp: matches_def c_def)
  ultimately show ?thesis using filter_sorted_rows [OF assms(1)] by metis
qed

section \<open>Postings by account and by transaction\<close>

text \<open>A sum taken group by group.\<close>

lemma sum_list_groups:
  fixes f :: "'a \<Rightarrow> int"
  assumes "distinct ks" and "\<And>x. x \<in> set xs \<Longrightarrow> k x \<in> set ks"
  shows "sum_list (map (\<lambda>c. sum_list (map f (filter (\<lambda>x. k x = c) xs))) ks) = sum_list (map f xs)"
  using assms(2)
proof (induction xs)
  case (Cons x xs)
  have none: "sum_list (map (\<lambda>c. if k x = c then f x else 0) cs) = 0" if "k x \<notin> set cs" for cs
    using that by (induction cs) auto
  have one: "sum_list (map (\<lambda>c. if k x = c then f x else 0) ks) = f x" if "k x \<in> set ks"
    using that assms(1) by (induction ks) (auto simp: none)
  have "sum_list (map f (filter (\<lambda>y. k y = c) (x # xs))) =
      (if k x = c then f x else 0) + sum_list (map f (filter (\<lambda>y. k y = c) xs))" for c
    by simp
  then have "sum_list (map (\<lambda>c. sum_list (map f (filter (\<lambda>y. k y = c) (x # xs)))) ks) =
      sum_list (map (\<lambda>c. if k x = c then f x else 0) ks) +
      sum_list (map (\<lambda>c. sum_list (map f (filter (\<lambda>y. k y = c) xs))) ks)"
    by (simp only: sum_list_addf)
  with Cons one show ?case by simp
qed simp

lemma concat_if_map: "concat (map (\<lambda>a. if P a then g a else []) as) = concat (map g (filter P as))"
  by (induction as) auto

lemma amounts_in_filter:
  "amounts_in b c = concat (map (\<lambda>a. map (sint \<circ> pst_amount) (postings_on b (acc_id a))) (filter (\<lambda>a. acc_currency a = c) (accounts b)))"
  by (simp add: amounts_in_def concat_if_map comp_def)

lemma sum_concat: "sum_list (concat xss) = sum_list (map sum_list (xss :: int list list))"
  by (induction xss) simp_all

lemma trial_net_of_balances:
  "tw_net (trial_row_of b c) =
     sum_list (map (\<lambda>a. bal_minor (balance_row_of b a)) (filter (\<lambda>a. acc_currency a = c) (accounts b)))"
  by (simp add: trial_row_of_def Let_def amounts_in_filter sum_concat comp_def balance_row_of_def)

text \<open>Both sides of a posting carry its currency, so a currency's accounts hold exactly its postings.\<close>

lemma posting_account:
  assumes "wf_book ct b" and "p \<in> set (postings b)"
  shows "\<exists>a \<in> set (accounts b). acc_id a = pst_account p \<and> acc_currency a = pst_currency p"
  using wf_bookD(7) [OF assms] by (auto simp: posting_fine_def has_account_def list_ex_iff)

lemma account_postings_currency:
  assumes "wf_book ct b" and "a \<in> set (accounts b)" and "p \<in> set (postings_on b (acc_id a))"
  shows "pst_currency p = acc_currency a"
proof -
  have p: "p \<in> set (postings b)" "pst_account p = acc_id a" using assms(3) by (auto simp: postings_on_def)
  obtain a' where "a' \<in> set (accounts b)" "acc_id a' = acc_id a" "acc_currency a' = pst_currency p"
    using posting_account [OF assms(1) p(1)] p(2) by auto
  with wf_bookD(1) [OF assms(1)] assms(2) show ?thesis by (metis distinct_map inj_onD)
qed

lemma trial_net_of_postings:
  assumes "wf_book ct b"
  shows "tw_net (trial_row_of b c) =
    sum_list (map (sint \<circ> pst_amount) (filter (\<lambda>p. pst_currency p = c) (postings b)))"
proof -
  let ?ps = "filter (\<lambda>p. pst_currency p = c) (postings b)"
  let ?as = "filter (\<lambda>a. acc_currency a = c) (accounts b)"
  have on: "postings_on b (acc_id a) = filter (\<lambda>p. pst_account p = acc_id a) ?ps" if "a \<in> set ?as" for a
    using account_postings_currency [OF assms, of a] that
    by (auto simp: postings_on_def intro!: filter_cong)
  have "tw_net (trial_row_of b c) =
      sum_list (map (\<lambda>a. sum_list (map (sint \<circ> pst_amount) (filter (\<lambda>p. pst_account p = acc_id a) ?ps))) ?as)"
    unfolding trial_net_of_balances balance_row_of_def balance_row.simps
    using on by (intro arg_cong [where f = sum_list] map_cong) auto
  also have "\<dots> = sum_list (map (\<lambda>i. sum_list (map (sint \<circ> pst_amount) (filter (\<lambda>p. pst_account p = i) ?ps))) (map acc_id ?as))"
    by (simp add: comp_def)
  also have "\<dots> = sum_list (map (sint \<circ> pst_amount) ?ps)"
  proof (rule sum_list_groups)
    show "distinct (map acc_id ?as)" using wf_bookD(1) [OF assms] by (rule distinct_map_filter)
    show "pst_account p \<in> set (map acc_id ?as)" if "p \<in> set ?ps" for p
      using posting_account [OF assms, of p] that by (auto simp: image_iff)
  qed
  finally show ?thesis .
qed

lemma transaction_postings_currency:
  assumes "wf_book ct b" and "t \<in> set (transactions b)" and "p \<in> set (legs_of b (txn_id t))"
  shows "pst_currency p = txn_currency t"
proof -
  have p: "p \<in> set (postings b)" "pst_txn p = txn_id t" using assms(3) by (auto simp: legs_of_def)
  obtain t' where "t' \<in> set (transactions b)" "txn_id t' = txn_id t" "txn_currency t' = pst_currency p"
    using wf_bookD(7) [OF assms(1) p(1)] p(2) by (auto simp: posting_fine_def has_transaction_def list_ex_iff)
  with wf_bookD(3) [OF assms(1)] assms(2) show ?thesis by (metis distinct_map inj_onD)
qed

text \<open>Double entry: a currency's postings are its transactions', and each of those nets to zero.\<close>

lemma currency_nets_to_zero:
  assumes "consistent ct b"
  shows "sum_list (map (sint \<circ> pst_amount) (filter (\<lambda>p. pst_currency p = c) (postings b))) = 0"
proof -
  have wf: "wf_book ct b" and bal: "\<And>t. t \<in> set (transactions b) \<Longrightarrow> net_of_transaction b (txn_id t) = 0"
    using assms by (auto simp: consistent_def balanced_def)
  let ?ps = "filter (\<lambda>p. pst_currency p = c) (postings b)"
  let ?ts = "filter (\<lambda>t. txn_currency t = c) (transactions b)"
  have "sum_list (map (sint \<circ> pst_amount) ?ps) =
      sum_list (map (\<lambda>i. sum_list (map (sint \<circ> pst_amount) (filter (\<lambda>p. pst_txn p = i) ?ps))) (map txn_id ?ts))"
  proof (rule sum_list_groups [symmetric])
    show "distinct (map txn_id ?ts)" using wf_bookD(3) [OF wf] by (rule distinct_map_filter)
    show "pst_txn p \<in> set (map txn_id ?ts)" if "p \<in> set ?ps" for p
      using wf_bookD(7) [OF wf, of p] that by (auto simp: posting_fine_def has_transaction_def list_ex_iff image_iff)
  qed
  also have "\<dots> = sum_list (map (\<lambda>t. net_of_transaction b (txn_id t)) ?ts)"
  proof -
    have "filter (\<lambda>p. pst_txn p = txn_id t) ?ps = legs_of b (txn_id t)" if "t \<in> set ?ts" for t
      using transaction_postings_currency [OF wf, of t] that
      by (auto simp: legs_of_def intro!: filter_cong)
    then show ?thesis
      by (simp add: comp_def net_of_transaction_def) (auto intro!: arg_cong [where f = sum_list] map_cong)
  qed
  also have "\<dots> = 0"
  proof -
    have "map (\<lambda>t. net_of_transaction b (txn_id t)) ?ts = map (\<lambda>t. 0) ?ts" using bal by simp
    then show ?thesis by (simp only: sum_list_0)
  qed
  finally show ?thesis .
qed

section \<open>Properties\<close>

text \<open>
  C10. \<open>BalanceOf\<close> answers an account with the exact sum of its postings, however far past 64 bits
  it runs, and how many there are; a code no account holds is \<open>ErrUnknownAccount\<close>, never a zero.
\<close>

theorem balance_is_the_sum_of_postings:
  assumes "readable s" and "text_ok c"
  shows "case account_with_code (work s) c of
      None \<Rightarrow> \<exists>e. balance_of c s = (Inl e, s) \<and> (\<forall>z. errors_is e z \<longleftrightarrow> z = ErrUnknownAccount)
    | Some a \<Rightarrow> \<exists>bl. balance_of c s = (Inr bl, s) \<and> bl_account bl = c \<and> bl_currency bl = acc_currency a \<and>
        big (bl_amount bl) = sum_list (map (sint \<circ> pst_amount) (filter (\<lambda>p. pst_account p = acc_id a) (postings (work s)))) \<and>
        bl_postings bl = length (filter (\<lambda>p. pst_account p = acc_id a) (postings (work s)))"
  using balance_of_readable [OF assms]
  by (auto simp: balance_for_def balance_row_of_def postings_on_def errors_is_def split: option.split
      dest: account_with_codeD)

theorem balance_is_the_sum_of_postings_witness:
  "\<exists>bl. balance_of ''assets.cash'' (quiet_session used_book) = (Inr bl, quiet_session used_book) \<and>
     big (bl_amount bl) = 5"
proof -
  have t: "text_ok ''assets.cash''" by code_simp
  have a: "account_with_code used_book ''assets.cash'' = Some (sample_account 0 ''assets.cash'' Asset ''USD'')"
    by (simp add: account_with_code_def used_book_def sample_book_def sample_account_def)
  have "sum_list (map (sint \<circ> pst_amount) (filter (\<lambda>p. pst_account p = 100) (postings used_book))) = 5"
    by (simp add: used_book_def)
  with balance_is_the_sum_of_postings [OF quiet_readable t, of used_book] a show ?thesis
    by (auto simp: sample_account_def)
qed

lemma rows_on_account:
  assumes "wf_book ct b" and "account_with_code b c = Some a" and "leg_verdict b cur ls = None"
  shows "map pst_amount (filter (\<lambda>p. pst_account p = acc_id a) (postings_for b u t n ls)) =
    map lg_amount (filter (\<lambda>l. lg_account l = c) ls)"
  using assms(3)
proof (induction ls arbitrary: n)
  case (Cons l ls)
  from Cons.prems obtain r where r: "account_with_code b (lg_account l) = Some r" and "leg_verdict b cur ls = None"
    by (auto simp: Let_def split: if_splits option.splits)
  with Cons.IH have IH: "map pst_amount (filter (\<lambda>p. pst_account p = acc_id a) (postings_for b u t (Suc n) ls)) =
      map lg_amount (filter (\<lambda>l. lg_account l = c) ls)" by blast
  have "acc_id r = acc_id a \<longleftrightarrow> lg_account l = c"
  proof
    assume "acc_id r = acc_id a"
    then have "r = a"
      using wf_bookD(1) [OF assms(1)] account_with_codeD [OF r] account_with_codeD [OF assms(2)]
      by (metis distinct_map inj_onD)
    then show "lg_account l = c" using account_with_codeD [OF r] account_with_codeD [OF assms(2)] by simp
  next
    assume "lg_account l = c"
    with r assms(2) show "acc_id r = acc_id a" by simp
  qed
  with r IH show ?case by (simp add: posting_of_def)
qed simp

text \<open>
  C11. Posting moves money by exactly the entry: the balance of every account in the chart is
  afterwards what it was plus the legs the entry put on that account, and has that many more
  postings.
\<close>

theorem posting_moves_balances_by_its_legs:
  assumes "ready s" and "post e s = (Inr idt, s')" and "account_with_code (work s) c = Some a" and "text_ok c"
    and "readable before" and "work before = work s" and "readable afterwards" and "work afterwards = work s'"
  shows "\<exists>x y. balance_of c before = (Inr x, before) \<and> balance_of c afterwards = (Inr y, afterwards) \<and>
    big (bl_amount y) = big (bl_amount x) +
      sum_list (map (sint \<circ> lg_amount) (filter (\<lambda>l. lg_account l = c) (en_legs e))) \<and>
    bl_postings y = bl_postings x + length (filter (\<lambda>l. lg_account l = c) (en_legs e))"
proof -
  have acc: "accepted s e" using post_refused [OF assms(1), of e] assms(2) unfolding accepted_def
    by (cases "entry_verdict (ctype_of s) (work s) e") auto
  then have v: "leg_verdict (work s) (en_currency e) (en_legs e) = None" by (simp add: accepted_iff)
  have w: "work s' = posted_book (work s) (fresh_id s) (now s) (next_posting s) e"
    using post_accepted [OF assms(1) acc] assms(2) by (simp add: posted_def)
  have wf: "wf_book (ctype_of s) (work s)" using assms(1) by (simp add: ready_def)
  let ?ps = "filter (\<lambda>p. pst_account p = acc_id a)
      (postings_for (work s) (fresh_id s) (now s) (next_posting s) (en_legs e))"
  have m: "map pst_amount ?ps = map lg_amount (filter (\<lambda>l. lg_account l = c) (en_legs e))"
    by (rule rows_on_account [OF wf assms(3) v])
  have "sum_list (map (sint \<circ> pst_amount) ?ps) = sum_list (map (sint \<circ> lg_amount) (filter (\<lambda>l. lg_account l = c) (en_legs e)))"
    using arg_cong [OF m, of "\<lambda>xs. sum_list (map sint xs)"] by (simp add: comp_def)
  moreover have "length ?ps = length (filter (\<lambda>l. lg_account l = c) (en_legs e))"
    using arg_cong [OF m, of length] by simp
  moreover have "account_with_code (work s') c = Some a"
    using assms(3) by (simp add: w posted_book_def account_with_code_def)
  ultimately show ?thesis
    using balance_of_readable [OF assms(5,4)] balance_of_readable [OF assms(7,4)] assms(3,6,8)
    by (simp add: balance_for_def balance_row_of_def postings_on_def w posted_book_def)
qed

theorem posting_moves_balances_by_its_legs_witness:
  "\<exists>x y. balance_of ''equity'' (quiet_session sample_book) = (Inr x, quiet_session sample_book) \<and>
     balance_of ''equity'' (quiet_session (work (posted (sample_entry 500) (quiet_session sample_book)))) =
       (Inr y, quiet_session (work (posted (sample_entry 500) (quiet_session sample_book)))) \<and>
     big (bl_amount y) = big (bl_amount x) - 500 \<and> bl_postings y = bl_postings x + 1"
proof -
  have "accepted (quiet_session sample_book) (sample_entry 500)"
    unfolding accepted_def quiet_frame by code_simp
  note p = post_accepted [OF quiet_ready this]
  have a: "account_with_code (work (quiet_session sample_book)) ''equity'' = Some (sample_account 1 ''equity'' Equity ''USD'')"
    by (simp add: account_with_code_def sample_book_def sample_account_def)
  have t: "text_ok ''equity''" by code_simp
  have l: "filter (\<lambda>l. lg_account l = ''equity'') (en_legs (sample_entry 500)) = [\<lparr>lg_account = ''equity'', lg_amount = - 500\<rparr>]"
    by (simp add: sample_entry_def)
  show ?thesis
    using posting_moves_balances_by_its_legs [OF quiet_ready p a t quiet_readable refl quiet_readable quiet_frame(1)]
    unfolding l by simp
qed

lemma balances_Inr:
  assumes "readable s" and "balances f s = (Inr bs, s')"
  shows "text_ok (af_currency f) \<and> text_ok (af_after f) \<and> (af_kind f = '''' \<or> kind_in (af_kind f) \<noteq> None) \<and>
    s' = s \<and> bs = map balance_for (list_rows (ctype_of s) f (work s))"
proof -
  have k: "af_kind f = '''' \<or> kind_in (af_kind f) \<noteq> None"
    using assms by (auto simp: balances_def attempt_def check_kind_readable fail_def split: if_splits)
  moreover from k have "text_ok (af_currency f) \<and> text_ok (af_after f)"
    using assms by (auto simp: balances_def attempt_def check_kind_readable fail_def query_readable list_query_def split: if_splits)
  ultimately show ?thesis using balances_readable [OF assms(1)] assms(2) by auto
qed

text \<open>Codes are listed in strictly ascending order, and each is text.\<close>

lemma codes_ascend:
  assumes "linear_le (collate_le ct)" and "wf_book ct b"
  shows "sorted_wrt (\<lambda>x y. collate_le ct (bl_account x) (bl_account y) \<and> bl_account x \<noteq> bl_account y)
    (map balance_for (sorted_rows ct f b))"
proof -
  have "sorted_wrt (\<lambda>x y. acc_code (bal_account x) \<noteq> acc_code (bal_account y)) (sorted_rows ct f b)"
    using distinct_sorted_rows [OF wf_bookD(2) [OF assms(2)], of ct f]
    by (simp add: distinct_conv_nth sorted_wrt_iff_nth_less)
  with sorted_sorted_rows [OF assms(1), of f b] show ?thesis
    by (simp add: sorted_wrt_map balance_for_def by_code_def sorted_wrt_iff_nth_less)
qed

lemma listed_code_ok:
  assumes "wf_book ct b" and "n < length (sorted_rows ct f b)"
  shows "text_ok (acc_code (bal_account (sorted_rows ct f b ! n)))"
proof -
  have "sorted_rows ct f b ! n \<in> set (account_balances b)"
    using nth_mem [OF assms(2)] unfolding set_sorted_rows by auto
  then have "acc_code (bal_account (sorted_rows ct f b ! n)) \<in> set (map acc_code (accounts b))"
    unfolding codes_account_balances [symmetric] by simp
  then show ?thesis using wf_bookD(5) [OF assms(1)] by (auto simp: account_fine_def intro: code_text_ok)
qed

text \<open>
  C12. Pages taken one after the other are the whole list.  Whatever the filter, the first page of a
  listing is the first so many of the accounts it matches; the listing that starts past the
  last code of that page is the rest of them, none missed and none twice; and codes are in
  strictly ascending order.  The database's order on text has to be linear.
\<close>

theorem pages_are_the_whole_list:
  assumes "readable s" and "wf_book (ctype_of s) (work s)" and "linear_le (collate_le (ctype_of s))"
    and "balances (f\<lparr>af_limit := 0\<rparr>) s = (Inr all, s)" and "0 < n" and "n < length all"
  shows "balances (f\<lparr>af_limit := int n\<rparr>) s = (Inr (take n all), s) \<and>
    balances (f\<lparr>af_limit := 0, af_after := bl_account (all ! (n - 1))\<rparr>) s = (Inr (drop n all), s) \<and>
    sorted_wrt (\<lambda>x y. collate_le (ctype_of s) (bl_account x) (bl_account y) \<and> bl_account x \<noteq> bl_account y) all"
proof -
  let ?rs = "sorted_rows (ctype_of s) f (work s)"
  note f0 = balances_Inr [OF assms(1,4)]
  have lim: "matches ct (g\<lparr>af_limit := m\<rparr>) = matches ct g" for ct g m
    by (simp add: fun_eq_iff matches_def)
  have srt: "sorted_rows (ctype_of s) (f\<lparr>af_limit := m\<rparr>) (work s) = ?rs" for m
    by (simp add: sorted_rows_def lim)
  have rows: "list_rows (ctype_of s) (f\<lparr>af_limit := m\<rparr>) (work s) = limit_rows (max m 0) ?rs" for m
    by (simp add: list_rows_def sorted_rows_def [symmetric] srt)
  have all: "all = map balance_for ?rs" using f0 by (simp add: rows limit_rows_def)
  have "balances (f\<lparr>af_limit := int n\<rparr>) s = (Inr (map balance_for (limit_rows (int n) ?rs)), s)"
    using balances_readable [OF assms(1), of "f\<lparr>af_limit := int n\<rparr>"] f0 by (simp add: rows)
  then have page: "balances (f\<lparr>af_limit := int n\<rparr>) s = (Inr (take n all), s)"
    using assms(5) by (simp add: limit_rows_def all take_map)
  have n: "n < length ?rs" using assms(6) by (simp add: all)
  let ?c = "acc_code (bal_account (?rs ! (n - 1)))"
  have c: "bl_account (all ! (n - 1)) = ?c" using n by (simp add: all balance_for_def)
  have "text_ok ?c" by (rule listed_code_ok [OF assms(2)]) (use n in simp)
  then have "balances (f\<lparr>af_limit := 0, af_after := ?c\<rparr>) s =
      (Inr (map balance_for (list_rows (ctype_of s) (f\<lparr>af_limit := 0, af_after := ?c\<rparr>) (work s))), s)"
    using f0 by (intro balances_readable [OF assms(1)]) simp_all
  moreover have "list_rows (ctype_of s) (f\<lparr>af_limit := 0, af_after := ?c\<rparr>) (work s) =
      sorted_rows (ctype_of s) (f\<lparr>af_after := ?c\<rparr>) (work s)"
  proof -
    have "matches ct (f\<lparr>af_limit := 0, af_after := ?c\<rparr>) = matches ct (f\<lparr>af_after := ?c\<rparr>)" for ct
      by (simp add: fun_eq_iff matches_def)
    then show ?thesis by (simp add: list_rows_def sorted_rows_def limit_rows_def)
  qed
  ultimately have "balances (f\<lparr>af_limit := 0, af_after := ?c\<rparr>) s = (Inr (drop n all), s)"
    using next_page [OF assms(3,2,5) n] by (simp add: all drop_map)
  with page c codes_ascend [OF assms(3,2), of f] show ?thesis by (simp add: all)
qed

definition every_account :: account_filter where
  "every_account = \<lparr>af_currency = '''', af_kind = '''', af_after = '''', af_limit = 0\<rparr>"

theorem pages_are_the_whole_list_witness:
  "\<exists>all. balances (every_account\<lparr>af_limit := 0\<rparr>) (quiet_session sample_book) = (Inr all, quiet_session sample_book) \<and>
     balances (every_account\<lparr>af_limit := int 2\<rparr>) (quiet_session sample_book) = (Inr (take 2 all), quiet_session sample_book) \<and>
     balances (every_account\<lparr>af_limit := 0, af_after := bl_account (all ! (2 - 1))\<rparr>) (quiet_session sample_book) =
       (Inr (drop 2 all), quiet_session sample_book) \<and> length all = 3"
proof -
  have e: "text_ok ''''" by code_simp
  let ?all = "map balance_for (list_rows c_locale (every_account\<lparr>af_limit := 0\<rparr>) sample_book)"
  have b: "balances (every_account\<lparr>af_limit := 0\<rparr>) (quiet_session sample_book) = (Inr ?all, quiet_session sample_book)"
    using balances_readable [OF quiet_readable, of "every_account\<lparr>af_limit := 0\<rparr>" sample_book] e by (simp add: every_account_def)
  have len: "length ?all = 3"
    by (simp add: list_rows_def limit_rows_def every_account_def matches_def account_balances_def sample_book_def)
  have l: "linear_le (collate_le (ctype_of (quiet_session sample_book)))" by (simp add: c_locale_def linear_bytes_le)
  have w: "wf_book (ctype_of (quiet_session sample_book)) (work (quiet_session sample_book))" by (simp add: sample_book_wf)
  show ?thesis
    using pages_are_the_whole_list [OF quiet_readable w l b, of 2] len b by auto
qed

lemma trial_balances:
  assumes "readable s" and "consistent (ctype_of s) (work s)" and "linear_le (collate_le (ctype_of s))"
  shows "\<exists>ts. trial_balance s = (Inr ts, s) \<and>
    set (map tr_currency ts) = acc_currency ` set (accounts (work s)) \<and>
    distinct (map tr_currency ts) \<and> sorted_wrt (collate_le (ctype_of s)) (map tr_currency ts) \<and>
    (\<forall>t \<in> set ts. trial_balanced t \<and> minor_equal (tr_debits t) (tr_credits t))"
proof -
  let ?ts = "map trial_for (trial_rows (ctype_of s) (work s))"
  have wf: "wf_book (ctype_of s) (work s)" using assms(2) by (simp add: consistent_def)
  have cur: "map tr_currency ?ts = sort_by (collate_le (ctype_of s)) (remdups (map acc_currency (accounts (work s))))"
    by (simp add: trial_rows_def trial_for_def trial_row_of_def Let_def comp_def)
  have "sorted_wrt (collate_le (ctype_of s)) (map tr_currency ?ts)"
    unfolding cur using sorted_wrt_sort_by [OF assms(3), of "\<lambda>x. x"] by simp
  moreover have "trial_balanced t \<and> minor_equal (tr_debits t) (tr_credits t)" if "t \<in> set ?ts" for t
  proof -
    from that obtain c where t: "t = trial_for (trial_row_of (work s) c)" by (auto simp: trial_rows_def)
    have net: "tw_net (trial_row_of (work s) c) = 0"
      unfolding trial_net_of_postings [OF wf] by (rule currency_nets_to_zero [OF assms(2)])
    have split: "sum_list (filter (\<lambda>m. m > 0) ms) + sum_list (filter (\<lambda>m. m < 0) ms) = sum_list ms" for ms :: "int list"
      by (induction ms) auto
    from net split [of "amounts_in (work s) c"] show ?thesis
      by (simp add: t trial_for_def trial_balanced_def trial_row_of_def Let_def minor_equal_def)
  qed
  moreover have "set (map tr_currency ?ts) = acc_currency ` set (accounts (work s))" "distinct (map tr_currency ?ts)"
    unfolding cur by simp_all
  ultimately show ?thesis using trial_balance_readable [OF assms(1)] by blast
qed

text \<open>
  C13. The trial balance of any consistent book balances, in every currency: it names each currency
  the chart holds once, in order, and for each the debits equal the credits and the net is zero.
\<close>

theorem trial_balance_always_balances:
  assumes "readable s" and "consistent (ctype_of s) (work s)" and "linear_le (collate_le (ctype_of s))"
  shows "\<exists>ts. trial_balance s = (Inr ts, s) \<and>
    set (map tr_currency ts) = acc_currency ` set (accounts (work s)) \<and>
    distinct (map tr_currency ts) \<and> sorted_wrt (collate_le (ctype_of s)) (map tr_currency ts) \<and>
    (\<forall>t \<in> set ts. trial_balanced t \<and> minor_equal (tr_debits t) (tr_credits t))"
  using assms by (rule trial_balances)

theorem trial_balance_always_balances_witness:
  "\<exists>ts. trial_balance (quiet_session sample_book) = (Inr ts, quiet_session sample_book) \<and>
     set (map tr_currency ts) = {''USD'', ''EUR''} \<and> (\<forall>t \<in> set ts. trial_balanced t)"
proof -
  have c: "consistent (ctype_of (quiet_session sample_book)) (work (quiet_session sample_book))"
    by (simp add: sample_consistent)
  have l: "linear_le (collate_le (ctype_of (quiet_session sample_book)))" by (simp add: c_locale_def linear_bytes_le)
  have "acc_currency ` set (accounts sample_book) = {''USD'', ''EUR''}"
    by (auto simp: sample_book_def sample_account_def)
  then have "acc_currency ` set (accounts (work (quiet_session sample_book))) = {''USD'', ''EUR''}" by simp
  with trial_balance_always_balances [OF quiet_readable c l] show ?thesis by metis
qed

text \<open>
  The two ways to total a currency agree: in any book the schema keeps, the net of a currency in the
  trial balance is the sum of the balances \<open>Balances\<close> lists for that currency, and its count of
  postings is theirs.
\<close>

theorem trial_agrees_with_balances:
  assumes "readable s" and "text_ok c" and "c \<noteq> ''''"
    and "trial_balance s = (Inr ts, s)" and "t \<in> set ts" and "tr_currency t = c"
  shows "\<exists>bs. balances \<lparr>af_currency = c, af_kind = '''', af_after = '''', af_limit = 0\<rparr> s = (Inr bs, s) \<and>
    tr_net t = sum_list (map bl_amount bs) \<and> tr_postings t = sum_list (map bl_postings bs) \<and>
    tr_accounts t = length bs"
proof -
  let ?f = "\<lparr>af_currency = c, af_kind = '''', af_after = '''', af_limit = 0\<rparr>"
  let ?as = "filter (\<lambda>a. acc_currency a = c) (accounts (work s))"
  let ?rs = "sort_by (by_code (ctype_of s)) (map (balance_row_of (work s)) ?as)"
  have t: "t = trial_for (trial_row_of (work s) c)"
    using assms(4-6) trial_balance_readable [OF assms(1)]
    by (auto simp: trial_rows_def trial_for_def trial_row_of_def Let_def)
  have "text_ok ''''" by code_simp
  then have b: "balances ?f s = (Inr (map balance_for (list_rows (ctype_of s) ?f (work s))), s)"
    using balances_readable [OF assms(1), of ?f] assms(2) by simp
  have "filter (matches (ctype_of s) ?f) (map (balance_row_of (work s)) as) =
      map (balance_row_of (work s)) (filter (\<lambda>a. acc_currency a = c) as)" for as
    using assms(3) by (induction as) (simp_all add: matches_def balance_row_of_def)
  then have rows: "list_rows (ctype_of s) ?f (work s) = ?rs"
    by (simp add: list_rows_def limit_rows_def account_balances_def)
  have perm: "sum_list (map g (sort_by le xs)) = sum_list (map g xs)"
    for g :: "balance_row \<Rightarrow> 'z::comm_monoid_add" and le xs
  proof -
    have "sum_list (map g (insert_by le x ys)) = g x + sum_list (map g ys)" for x ys
      by (induction ys) (simp_all add: ac_simps)
    then show ?thesis by (induction xs) simp_all
  qed
  have minors: "big (sum_list ms) = sum_list (map big ms)" for ms by (induction ms) simp_all
  have "big (sum_list (map bl_amount (map balance_for ?rs))) = sum_list (map bal_minor ?rs)"
    by (simp add: minors comp_def balance_for_def)
  also have "\<dots> = tw_net (trial_row_of (work s) c)"
    unfolding perm trial_net_of_balances by (simp add: comp_def)
  finally have "tr_net t = sum_list (map bl_amount (map balance_for ?rs))"
    by (simp add: t trial_for_def minor.expand)
  moreover have "sum_list (map bl_postings (map balance_for ?rs)) = sum_list (map bal_postings ?rs)"
    by (simp add: comp_def balance_for_def)
  then have "sum_list (map bl_postings (map balance_for ?rs)) = tr_postings t"
    unfolding perm by (simp add: t trial_for_def trial_row_of_def Let_def amounts_in_filter comp_def balance_row_of_def length_concat)
  moreover have "tr_accounts t = length (map balance_for ?rs)"
    by (simp add: t trial_for_def trial_row_of_def Let_def)
  ultimately show ?thesis using b rows by auto
qed

theorem trial_agrees_with_balances_witness:
  "\<exists>t bs. trial_balance (quiet_session used_book) = (Inr (map trial_for (trial_rows c_locale used_book)), quiet_session used_book) \<and>
     t \<in> set (map trial_for (trial_rows c_locale used_book)) \<and> tr_currency t = ''USD'' \<and>
     balances \<lparr>af_currency = ''USD'', af_kind = '''', af_after = '''', af_limit = 0\<rparr> (quiet_session used_book) = (Inr bs, quiet_session used_book) \<and>
     tr_net t = sum_list (map bl_amount bs)"
proof -
  let ?ts = "map trial_for (trial_rows c_locale used_book)"
  have b: "trial_balance (quiet_session used_book) = (Inr ?ts, quiet_session used_book)"
    using trial_balance_readable [OF quiet_readable, of used_book] by simp
  have "''USD'' \<in> set (map tr_currency ?ts)"
    by (simp add: trial_rows_def trial_for_def trial_row_of_def Let_def comp_def used_book_def sample_book_def sample_account_def)
  then obtain t where t: "t \<in> set ?ts" "tr_currency t = ''USD''" by (metis imageE image_set)
  have u: "text_ok ''USD''" by code_simp
  show ?thesis using trial_agrees_with_balances [OF quiet_readable u _ b t] b t by auto
qed

end
