(* ===== verification/History.thy ===== *)
theory History
  imports Balances
begin

text \<open>
  The life of a database: one transaction after another, each any statements whatever, under
  any faults, ending in a COMMIT whose answer may be lost or in no commit at all.  \<open>onward\<close> is
  where a database can get to.  The theory shows what holds of every database reached from an
  empty one, what is never undone on the way, and that a client's retry is answered with its
  first result however much has happened in between.
\<close>

section \<open>Where a database can get to\<close>

text \<open>
  Numbers drawn for postings are not given back when a transaction is not committed.
\<close>

inductive onward :: "(stmt \<Rightarrow> bool) \<Rightarrow> database \<Rightarrow> database \<Rightarrow> bool" for A d where
  here: "onward A d d"
| committed: "onward A d d' \<Longrightarrow> sql_steps A (begin_tx ro c d') s \<Longrightarrow> commit s = (r, Some b) \<Longrightarrow>
    onward A d (d'\<lparr>db_book := b, db_next_posting := next_posting s\<rparr>)"
| undone: "onward A d d' \<Longrightarrow> sql_steps A (begin_tx ro c d') s \<Longrightarrow>
    onward A d (d'\<lparr>db_next_posting := next_posting s\<rparr>)"

definition new_database :: "ctype \<Rightarrow> database" where
  "new_database ct = \<lparr>db_ctype = ct, db_book = empty_book, db_next_posting = 1\<rparr>"

lemma new_sound: "sound (new_database ct)"
  by (simp add: sound_def new_database_def numbered_def) (simp add: empty_book_def)

lemma onward_ctype: "onward A d d' \<Longrightarrow> db_ctype d' = db_ctype d"
  by (induction rule: onward.induct) simp_all

lemma steps_next_posting:
  assumes "sql_steps A (begin_tx ro c d) s"
  shows "db_next_posting d \<le> next_posting s"
  using steps_setting [OF assms] by (simp add: same_setting_def begin_tx_def)

lemma numbered_mono: "numbered n b \<Longrightarrow> n \<le> m \<Longrightarrow> numbered m b"
  by (auto simp: numbered_def)

lemma onward_sound:
  assumes "onward leaves_the_queue d d'" and "sound d"
  shows "sound d'"
  using assms(1)
proof induction
  case here
  show ?case by (rule assms(2))
next
  case (committed d' ro c s r b)
  from commit_sound [OF committed(4,2,3)] show ?case by (simp add: sound_def)
next
  case (undone d' ro c s)
  with steps_next_posting [OF undone(2)] show ?case by (auto simp: sound_def intro: numbered_mono)
qed

lemma onward_extends:
  assumes "onward A d d'"
  shows "extends (db_book d) (db_book d')"
  using assms
proof induction
  case (committed d' ro c s r b)
  have "append_law.holds (db_ctype d') (db_book d') (begin_tx ro c d')"
    by (simp add: append_law.holds_def begin_tx_def)
  from append_law.steps_keep [OF steps_mono [OF committed(2)] this]
  have "append_law.holds (db_ctype d') (db_book d') s" by simp
  from append_law.commit_keeps [OF this committed(3)] committed(4) show ?case by (auto intro: extends_trans)
qed simp_all

lemma onward_names:
  assumes "onward A d d'" and "\<And>q. A q \<Longrightarrow> q \<noteq> DeleteKey k" and "names k r (db_book d)"
  shows "names k r (db_book d')"
  using assms(1)
proof induction
  case here
  show ?case by (rule assms(3))
next
  case (committed d' ro c s x b)
  have "key_law.holds (db_ctype d') k r (begin_tx ro c d')"
    using committed(4) by (simp add: key_law.holds_def begin_tx_def)
  from key_law.steps_keep [OF steps_mono [OF committed(2)] this] assms(2)
  have "key_law.holds (db_ctype d') k r s" by blast
  from key_law.commit_keeps [OF this committed(3)] show ?case by simp
qed simp_all

lemma commit_quiet: "healthy s \<Longrightarrow> pending s = [] \<Longrightarrow> commit s = (Inr (), Some (work s))"
  by (simp add: commit_def healthy_def next_fault_def)

text \<open>A client's first call, committed: what it leaves under its key.\<close>

lemma once_post_steps: "once c (post e) t = (r, s) \<Longrightarrow> sql_steps issued t s"
  using via_once [OF via_post, of c e] unfolding via_def by (metis snd_conv)

lemma committed_call:
  assumes "sound d" and "once c (post e) (begin_tx False ci d) = (Inr rec, s)" and "commit s = (x, Some b)"
  obtains r u where "sound (d\<lparr>db_book := b, db_next_posting := next_posting s\<rparr>)"
    and "names (cl_key c) r (work s)" and "names (cl_key c) r b" and "key_hash r = cl_hash c" and "key_txn r = Some u"
    and "uuid_in (rc_transaction rec) = Some u" and "text_ok (cl_key c)" and "key_check (db_ctype d) (cl_key c)"
    and "length (cl_hash c) = 32"
proof -
  note new = commit_sound [OF assms(1) steps_mono [OF once_post_steps [OF assms(2)] issued_leaves_the_queue] assms(3)]
  obtain r u where r: "names (cl_key c) r (work s)" "key_hash r = cl_hash c" "key_txn r = Some u"
    "uuid_in (rc_transaction rec) = Some u" "text_ok (cl_key c)"
    using post_writer.key_of_success [OF assms(2)] by blast
  have n: "names (cl_key c) r b" by (rule key_law.commit_law [OF r(1) assms(3)])
  then have "key_fine (db_ctype d) b r" "key_key r = cl_key c"
    using key_withD wf_bookD(8) new(1) unfolding names_def consistent_def by blast+
  with r n new that [of r u] show ?thesis by (auto simp: key_fine_def sound_def)
qed

section \<open>Properties\<close>





text \<open>
  C16. At most once, ever.  A client's write under a key committed, though its answer may have been
  lost on the way (\<open>x\<close> is any answer COMMIT gave).  However many transactions follow, by
  whomever, as long as nobody deletes the key, sending the request again is answered with the
  transaction the first call created, marked a replay, and writes nothing.
\<close>

theorem a_retry_answers_with_the_first_result:
  assumes "sound d" and "once c (post e) (begin_tx False ci d) = (Inr rec, s)" and "commit s = (x, Some b)"
    and "onward (\<lambda>q. leaves_the_queue q \<and> q \<noteq> DeleteKey (cl_key c))
           (d\<lparr>db_book := b, db_next_posting := next_posting s\<rparr>) d'"
    and "c_faults ci' = []"
  shows "\<exists>idt. once c w (begin_tx False ci' d') =
      (Inr \<lparr>rc_key = cl_key c, rc_transaction = idt, rc_replayed = True\<rparr>, begin_tx False ci' d') \<and>
    uuid_in idt = uuid_in (rc_transaction rec)"
proof -
  let ?d1 = "d\<lparr>db_book := b, db_next_posting := next_posting s\<rparr>" and ?t = "begin_tx False ci' d'"
  obtain r u where r: "sound ?d1" "names (cl_key c) r b" "key_hash r = cl_hash c" "key_txn r = Some u"
    "uuid_in (rc_transaction rec) = Some u" "text_ok (cl_key c)" "length (cl_hash c) = 32"
    using committed_call [OF assms(1-3)] by metis
  have "names (cl_key c) r (db_book ?d1)" using r(2) by simp
  from onward_names [OF assms(4) _ this] have k: "names (cl_key c) r (db_book d')" by simp
  have "onward leaves_the_queue ?d1 d'"
    using assms(4) by induction (auto intro: onward.intros steps_mono)
  then have wf: "wf_book (db_ctype d') (db_book d')" using onward_sound [OF _ r(1)] by (auto simp: sound_def consistent_def)
  have "healthy ?t" using assms(5) by (simp add: begin_tx_def healthy_def)
  moreover have "key_with (work ?t) (cl_key c) = Some r" using k by (simp add: begin_tx_def names_def)
  ultimately have "once c w ?t = (Inr \<lparr>rc_key = cl_key c, rc_transaction = uuid_out u, rc_replayed = True\<rparr>, ?t)"
    using once_held [of ?t c r u w] wf r by (simp add: begin_tx_def)
  with r(5) show ?thesis by (simp add: uuid_in_fresh)
qed

lemma sample_sound: "sound (database_of sample_book)"
  by (simp add: sound_def database_of_def sample_consistent numbered_def)
     (simp add: sample_book_def empty_book_def)

theorem a_retry_answers_with_the_first_result_witness:
  "\<exists>d' idt. once (sample_claim CHR ''h'') (fail (Sentinel Canceled)) (begin_tx False quiet d') =
      (Inr \<lparr>rc_key = sample_key, rc_transaction = idt, rc_replayed = True\<rparr>, begin_tx False quiet d') \<and>
    uuid_in idt = Some 1"
proof -
  have acc: "accepted (quiet_session sample_book) (sample_entry 500)"
    unfolding accepted_def quiet_frame by code_simp
  have fit: "key_fit (quiet_session sample_book) (sample_claim CHR ''h'')"
    unfolding key_fit_def quiet_frame by code_simp
  have new: "key_with (work (quiet_session sample_book)) (cl_key (sample_claim CHR ''h'')) = None"
    unfolding quiet_frame by code_simp
  obtain s where s: "once (sample_claim CHR ''h'') (post (sample_entry 500)) (begin_tx False quiet (database_of sample_book)) =
      (Inr \<lparr>rc_key = sample_key, rc_transaction = uuid_out 1, rc_replayed = False\<rparr>, s)" "pending s = []" "healthy s"
    using once_first [OF quiet_ready quiet_frame(2) fit new acc]
    unfolding sample_fresh sample_claim_key by (auto simp: quiet_session_def)
  from a_retry_answers_with_the_first_result [OF sample_sound s(1) commit_quiet [OF s(3,2)] onward.here,
      of quiet "fail (Sentinel Canceled)"]
  show ?thesis by (auto simp: quiet_def sample_claim_key uuid_in_fresh)
qed

text \<open>
  In every database reached from an empty one, the trial balance a client reads balances in every
  currency.
\<close>

theorem every_reachable_trial_balance_balances:
  assumes "onward leaves_the_queue (new_database ct) d" and "linear_le (collate_le ct)" and "c_faults ci = []"
  shows "\<exists>ts. trial_balance (begin_tx ro ci d) = (Inr ts, begin_tx ro ci d) \<and> (\<forall>t \<in> set ts. trial_balanced t)"
proof -
  let ?s = "begin_tx ro ci d"
  have "sound d" "db_ctype d = ct"
    using onward_sound [OF assms(1) new_sound] onward_ctype [OF assms(1)] by (simp_all add: new_database_def)
  then have "consistent (ctype_of ?s) (work ?s)" "linear_le (collate_le (ctype_of ?s))"
    using assms(2) by (simp_all add: sound_def begin_tx_def)
  moreover have "readable ?s" using assms(3) by (simp add: readable_def begin_tx_def)
  ultimately show ?thesis using trial_balances by blast
qed

theorem every_reachable_trial_balance_balances_witness:
  "\<exists>ts. trial_balance (begin_tx True quiet (new_database c_locale)) =
     (Inr ts, begin_tx True quiet (new_database c_locale)) \<and> (\<forall>t \<in> set ts. trial_balanced t)"
  by (rule every_reachable_trial_balance_balances [OF onward.here]) (simp_all add: c_locale_def linear_bytes_le quiet_def)

section \<open>A hand on the queue\<close>

text \<open>
  The rule that a transaction balances has one way around it: the queue of balance checks is a
  table like any other, and nothing refuses an UPDATE of it.  A row renamed to another
  transaction keeps the event of the one it was queued for, so it is never deleted, and it
  is committed; a leg added later to that other transaction finds it there and queues no
  check.  The two transactions below do this, each committing without an error.
\<close>

definition two_entries :: book where
  "two_entries = used_book\<lparr>
     transactions := transactions used_book @
       [\<lparr>txn_id = 8, txn_currency = ''USD'', txn_description = ''Second'', txn_occurred = 0, txn_created = 0\<rparr>],
     postings := postings used_book @
       [\<lparr>pst_id = 3, pst_txn = 8, pst_account = 100, pst_currency = ''USD'', pst_amount = 9, pst_created = 0\<rparr>,
        \<lparr>pst_id = 4, pst_txn = 8, pst_account = 101, pst_currency = ''USD'', pst_amount = - 9, pst_created = 0\<rparr>]\<rparr>"

definition hand_on_the_queue :: "session \<Rightarrow> session" where
  "hand_on_the_queue s =
     (let s1 = snd (exec (RawPosting 8 (Some 100) (Some ''USD'') 5) s);
          s2 = snd (exec (RawPosting 8 (Some 101) (Some ''USD'') (- 5)) s1)
      in snd (exec (RenameBalanceCheck 8 7) s2))"

definition leg_nobody_checks :: "session \<Rightarrow> session" where
  "leg_nobody_checks s = snd (exec (RawPosting 7 (Some 100) (Some ''USD'') 1000) s)"

definition raw_row :: "session \<Rightarrow> uuid \<Rightarrow> uuid \<Rightarrow> int64 \<Rightarrow> posting_row" where
  "raw_row s u a m = \<lparr>pst_id = next_posting s, pst_txn = u, pst_account = a, pst_currency = ''USD'',
     pst_amount = m, pst_created = now s\<rparr>"

lemma raw_posting_taken:
  assumes "healthy s" and "\<not> modes s BalanceChecksMustBalance" and "has_transaction (work s) u ''USD''"
    and "has_account (work s) a ''USD''" and "m \<noteq> 0"
  shows "exec (RawPosting u (Some a) (Some ''USD'') m) s = (Inr '''', with_legs u [raw_row s u a m] s)"
  using assms
  by (simp add: exec_healthy post_row_def draw_posting_def write_rows_def with_legs_def insert_posting_def raw_row_def)

text \<open>The book after the first transaction: two more legs that cancel, and a row nobody will delete.\<close>

definition stale_book :: book where
  "stale_book = two_entries\<lparr>balance_checks := [7], postings := postings two_entries @
     [\<lparr>pst_id = 5, pst_txn = 8, pst_account = 100, pst_currency = ''USD'', pst_amount = 5, pst_created = 1000\<rparr>,
      \<lparr>pst_id = 6, pst_txn = 8, pst_account = 101, pst_currency = ''USD'', pst_amount = - 5, pst_created = 1000\<rparr>]\<rparr>"

lemma two_entries_rows:
  "has_transaction two_entries 7 ''USD''" "has_transaction two_entries 8 ''USD''"
  "has_account two_entries 100 ''USD''" "has_account two_entries 101 ''USD''"
  "balance_checks two_entries = []" "length (postings two_entries) = 4"
  by (simp_all add: two_entries_def used_book_def sample_book_def sample_account_def empty_book_def
      has_transaction_def has_account_def)

lemma first_commits:
  "commit (hand_on_the_queue (quiet_session two_entries)) = (Inr (), Some stale_book)"
proof -
  let ?s = "quiet_session two_entries"
  let ?r1 = "raw_row ?s 8 100 5"
  let ?s1 = "with_legs 8 [?r1] ?s"
  let ?r2 = "raw_row ?s1 8 101 (- 5)"
  have "exec (RawPosting 8 (Some 100) (Some ''USD'') 5) ?s = (Inr '''', ?s1)"
    by (rule raw_posting_taken) (simp_all add: two_entries_rows)
  moreover have "exec (RawPosting 8 (Some 101) (Some ''USD'') (- 5)) ?s1 = (Inr '''', with_legs 8 [?r2] ?s1)"
    by (rule raw_posting_taken)
       (use two_entries_rows in \<open>simp_all add: has_transaction_def has_account_def\<close>)
  ultimately have h: "hand_on_the_queue ?s = snd (exec (RenameBalanceCheck 8 7) (with_legs 8 [?r1, ?r2] ?s))"
    by (simp add: hand_on_the_queue_def Let_def with_legs_Cons)
  have bc: "balance_checks (work (with_legs 8 [?r1, ?r2] ?s)) = [8]"
    by (simp add: with_legs_def queue_a_balance_check_def two_entries_rows)
  have w: "(work (with_legs 8 [?r1, ?r2] ?s))\<lparr>balance_checks := [7]\<rparr> = stale_book"
    by (rule book.equality)
       (simp_all add: stale_book_def raw_row_def two_entries_rows with_legs_def queue_a_balance_check_def)
  let ?t = "hand_on_the_queue ?s"
  have t: "work ?t = stale_book" "pending ?t = [BalanceCheckInserted 8]" "healthy ?t"
    using bc w by (simp_all add: h exec_healthy) (simp add: with_legs_def two_entries_rows)
  have "assert_transaction_balances stale_book 8 = None"
    by (simp add: assert_transaction_balances_def legs_of_def net_of_transaction_def stale_book_def two_entries_def
        used_book_def Let_def)
  then have "fire_all (pending ?t) (work ?t) = Inr stale_book"
    by (simp add: t queued_balance_check_def) (simp add: stale_book_def)
  then show ?thesis using t(3) by (simp add: commit_def healthy_def next_fault_def t)
qed

lemma second_commits:
  "\<exists>b. commit (leg_nobody_checks (quiet_session stale_book)) = (Inr (), Some b) \<and> net_of_transaction b 7 = 1000"
proof -
  let ?s = "quiet_session stale_book"
  let ?r = "raw_row ?s 7 100 1000"
  have "exec (RawPosting 7 (Some 100) (Some ''USD'') 1000) ?s = (Inr '''', with_legs 7 [?r] ?s)"
    by (rule raw_posting_taken)
       (use two_entries_rows in \<open>simp_all add: has_transaction_def has_account_def stale_book_def\<close>)
  then have l: "leg_nobody_checks ?s = with_legs 7 [?r] ?s" by (simp add: leg_nobody_checks_def)
  have "pending (with_legs 7 [?r] ?s) = []" by (simp add: with_legs_def stale_book_def)
  then have "commit (leg_nobody_checks ?s) = (Inr (), Some (work (with_legs 7 [?r] ?s)))"
    unfolding l by (intro commit_quiet) simp_all
  moreover have "net_of_transaction (work (with_legs 7 [?r] ?s)) 7 = 1000"
    by (simp add: net_of_transaction_def legs_of_def raw_row_def stale_book_def two_entries_def used_book_def)
  ultimately show ?thesis by blast
qed

lemma two_entries_consistent: "consistent c_locale two_entries"
proof -
  have t: "transaction_fine c_locale \<lparr>txn_id = 8, txn_currency = ''USD'', txn_description = ''Second'', txn_occurred = 0, txn_created = 0\<rparr>"
    by code_simp
  have wf: "wf_book c_locale two_entries"
    using used_book_wf t
    by (auto simp: wf_book_def two_entries_def posting_fine_def key_fine_def has_transaction_def has_account_def
        used_book_def sample_book_def sample_account_def empty_book_def)
  show ?thesis
    by (simp add: consistent_def wf)
       (simp add: two_entries_def used_book_def sample_book_def empty_book_def used_row_def balanced_def
        legs_of_def net_of_transaction_def)
qed

text \<open>
  C20. The balance rule can be written around.  From a consistent book, a transaction that renames a
  queued balance check and, after it, one that adds a single leg to an old transaction both
  commit without an error, and the old transaction no longer balances.
\<close>

theorem the_queue_can_be_written_around:
  "consistent c_locale two_entries \<and>
   (\<exists>b. commit (hand_on_the_queue (quiet_session two_entries)) = (Inr (), Some b) \<and>
     (\<exists>b'. commit (leg_nobody_checks (quiet_session b)) = (Inr (), Some b') \<and>
       net_of_transaction b' 7 = 1000 \<and> \<not> consistent c_locale b'))"
proof -
  obtain b' where b': "commit (leg_nobody_checks (quiet_session stale_book)) = (Inr (), Some b')" "net_of_transaction b' 7 = 1000"
    using second_commits by blast
  have "sql_steps (\<lambda>q. True) (quiet_session stale_book) (leg_nobody_checks (quiet_session stale_book))"
    unfolding leg_nobody_checks_def by (rule sql_steps.stmt [OF sql_steps.none]) simp
  moreover have "append_law.holds c_locale stale_book (quiet_session stale_book)" by (simp add: append_law.holds_def)
  ultimately have "append_law.holds c_locale stale_book (leg_nobody_checks (quiet_session stale_book))"
    by (rule append_law.steps_keep)
  from append_law.commit_keeps [OF this b'(1)] have "extends stale_book b'" .
  then have "\<exists>t \<in> set (transactions b'). txn_id t = 7"
    by (auto simp: extends_def prefix_def stale_book_def two_entries_def used_book_def)
  then have "\<not> consistent c_locale b'"
  proof (elim bexE, intro notI)
    fix t
    assume "t \<in> set (transactions b')" "txn_id t = 7" "consistent c_locale b'"
    then have "balanced b' 7" by (auto simp: consistent_def)
    with b'(2) show False by (simp add: balanced_def)
  qed
  with b' two_entries_consistent first_commits show ?thesis by blast
qed

end
