(* ===== verification/Pool.thy ===== *)
theory Pool
  imports History
begin

text \<open>
  \<^verbatim>\<open>Pool\<close> of \<^verbatim>\<open>internal/ledgerhttp/ledgerhttp.go\<close>: a connection taken within a ceiling, one
  transaction lent to a read or a change, and its fate.  What a handler may rely on, whichever
  of the two it calls, is the locale \<open>lender\<close>.
\<close>

section \<open>A connection\<close>

text \<open>
  What \<^verbatim>\<open>DB.Conn\<close> answered, and what the two contexts say by then: whether the request's own
  budget is over, and whether the wait for a connection is.
\<close>

record conn_try =
  ct_error :: "err option"
  ct_request_over :: bool
  ct_wait_over :: bool

definition take_conn :: "int \<Rightarrow> conn_try \<Rightarrow> err + unit" where
  "take_conn acquire c =
     (if acquire \<le> 0 then (case ct_error c of None \<Rightarrow> Inr () | Some e \<Rightarrow> Inl e)
      else case ct_error c of
        None \<Rightarrow> Inr ()
      | Some e \<Rightarrow> if \<not> ct_request_over c \<and> ct_wait_over c then Inl (OverloadErr acquire) else Inl e)"

section \<open>One transaction\<close>

text \<open>
  Everything outside the program one call meets: the connection, what BEGIN answers, the
  circumstances of the transaction, and what ROLLBACK answers.
\<close>

record lending =
  ln_conn :: conn_try
  ln_begin :: "err option"
  ln_tx :: circumstances
  ln_rollback :: "err option"

definition read_tx :: "int \<Rightarrow> lending \<Rightarrow> 'a act \<Rightarrow> database \<Rightarrow> (err + 'a) \<times> database" where
  "read_tx acquire l f d =
     (case take_conn acquire (ln_conn l) of
        Inl e \<Rightarrow> (Inl (wrapped ''take a connection for the read'' e), d)
      | Inr _ \<Rightarrow>
          (case ln_begin l of
             Some e \<Rightarrow> (Inl (wrapped ''begin the read'' e), d)
           | None \<Rightarrow> (case f (begin_tx True (ln_tx l) d) of (r, s) \<Rightarrow> (r, d\<lparr>db_next_posting := next_posting s\<rparr>))))"

definition rolled_back_with :: "err option \<Rightarrow> err \<Rightarrow> err" where
  "rolled_back_with rb e =
     (case rb of
        None \<Rightarrow> e
      | Some x \<Rightarrow> if errors_is x ErrTxDone then e else Joined [e, wrapped ''roll back the write'' x])"

definition write_tx :: "int \<Rightarrow> lending \<Rightarrow> 'a act \<Rightarrow> database \<Rightarrow> (err + 'a) \<times> database" where
  "write_tx acquire l f d =
     (case take_conn acquire (ln_conn l) of
        Inl e \<Rightarrow> (Inl (wrapped ''take a connection for the write'' e), d)
      | Inr _ \<Rightarrow>
          (case ln_begin l of
             Some e \<Rightarrow> (Inl (wrapped ''begin the write'' e), d)
           | None \<Rightarrow>
               (case f (begin_tx False (ln_tx l) d) of
                  (Inl e, s) \<Rightarrow> (Inl (rolled_back_with (ln_rollback l) e), d\<lparr>db_next_posting := next_posting s\<rparr>)
                | (Inr x, s) \<Rightarrow>
                    (case commit s of (r, left) \<Rightarrow>
                       (map_sum (wrapped ''commit the write'') (\<lambda>_. x) r,
                        (case left of
                           None \<Rightarrow> d\<lparr>db_next_posting := next_posting s\<rparr>
                         | Some b \<Rightarrow> d\<lparr>db_book := b, db_next_posting := next_posting s\<rparr>))))))"

section \<open>What a caller may rely on\<close>

text \<open>
  A lender runs statements and nothing else, and leaves the database where statements and one
  end of a transaction can.  What holds of every such database then holds after any call.
\<close>

lemma via_mono: "via A m \<Longrightarrow> (\<And>q. A q \<Longrightarrow> B q) \<Longrightarrow> via B m"
  unfolding via_def by (blast intro: steps_mono)

locale lender =
  fixes run :: "'a act \<Rightarrow> database \<Rightarrow> (err + 'a) \<times> database"
  assumes goes_on: "via A m \<Longrightarrow> onward A d (snd (run m d))"
begin

lemma stays_sound:
  assumes "via issued m" and "sound d"
  shows "sound (snd (run m d))"
proof -
  have "via leaves_the_queue m" using via_mono [OF assms(1) issued_leaves_the_queue] .
  then show ?thesis by (rule onward_sound [OF goes_on assms(2)])
qed

lemma only_adds: "via A m \<Longrightarrow> extends (db_book d) (db_book (snd (run m d)))"
  by (rule onward_extends [OF goes_on])

lemma keeps_names:
  assumes "via issued m" and "names k r (db_book d)"
  shows "names k r (db_book (snd (run m d)))"
  by (rule onward_names [OF goes_on [OF assms(1)] issued_keeps_keys assms(2)])

end

lemma onward_undone:
  assumes "via A m"
  shows "onward A d (d\<lparr>db_next_posting := next_posting (snd (m (begin_tx ro c d)))\<rparr>)"
  using assms unfolding via_def by (blast intro: onward.undone [OF onward.here])

interpretation pool_read: lender "read_tx acquire l" for acquire l
proof
  fix A and m :: "'a act" and d
  assume "via A m"
  from onward_undone [OF this, of d True "ln_tx l"]
  show "onward A d (snd (read_tx acquire l m d))"
    by (auto simp: read_tx_def intro: onward.here split: sum.split option.split prod.split)
qed

interpretation pool_write: lender "write_tx acquire l" for acquire l
proof
  fix A and m :: "'a act" and d
  assume m: "via A m"
  obtain r s where s: "m (begin_tx False (ln_tx l) d) = (r, s)" by (cases "m (begin_tx False (ln_tx l) d)")
  have u: "onward A d (d\<lparr>db_next_posting := next_posting s\<rparr>)"
    using onward_undone [OF m, of d False "ln_tx l"] by (simp add: s)
  have c: "onward A d (d\<lparr>db_book := b, db_next_posting := next_posting s\<rparr>)" if "commit s = (x, Some b)" for x b
  proof -
    have "sql_steps A (begin_tx False (ln_tx l) d) s" using m s unfolding via_def by (metis snd_conv)
    from onward.committed [OF onward.here this that] show ?thesis .
  qed
  show "onward A d (snd (write_tx acquire l m d))"
    using u c by (auto simp: write_tx_def s intro: onward.here split: sum.split option.split prod.split)
qed

section \<open>The fate of a call\<close>

lemma read_leaves_the_book [simp]: "db_book (snd (read_tx acquire l f d)) = db_book d"
  by (simp add: read_tx_def split: sum.split option.split prod.split)

lemma commit_Inr: "commit s = (Inr x, left) \<Longrightarrow> \<exists>b. left = Some b"
  by (auto simp: commit_def Let_def split: option.splits prod.splits fault.splits sum.splits if_splits)

lemma commit_Inl: "commit s = (Inl e, Some b) \<Longrightarrow> \<exists>x. e = Sentinel x"
  by (auto simp: commit_def Let_def split: option.splits prod.splits fault.splits sum.splits if_splits)

lemma write_tx_Inr:
  assumes "write_tx acquire l f d = (Inr x, d')"
  shows "\<exists>s b. f (begin_tx False (ln_tx l) d) = (Inr x, s) \<and> commit s = (Inr (), Some b) \<and>
    d' = d\<lparr>db_book := b, db_next_posting := next_posting s\<rparr>"
proof -
  obtain r s where s: "f (begin_tx False (ln_tx l) d) = (r, s)" by (cases "f (begin_tx False (ln_tx l) d)")
  obtain c left where c: "commit s = (c, left)" by (cases "commit s")
  from assms obtain u where "r = Inr x" "c = Inr u"
    by (cases r; cases c) (auto simp: write_tx_def s c split: sum.splits option.splits)
  moreover from this commit_Inr c obtain b where "left = Some b" by blast
  ultimately show ?thesis
    using assms by (auto simp: write_tx_def s c split: sum.splits option.splits)
qed

lemma write_tx_Inl:
  assumes "write_tx acquire l f d = (Inl e, d')"
  shows "db_book d' = db_book d \<or>
    (\<exists>x c s b. f (begin_tx False (ln_tx l) d) = (Inr x, s) \<and> commit s = (Inl (Sentinel c), Some b) \<and>
       e = wrapped ''commit the write'' (Sentinel c) \<and> d' = d\<lparr>db_book := b, db_next_posting := next_posting s\<rparr>)"
proof -
  obtain r s where s: "f (begin_tx False (ln_tx l) d) = (r, s)" by (cases "f (begin_tx False (ln_tx l) d)")
  obtain c left where c: "commit s = (c, left)" by (cases "commit s")
  show ?thesis
  proof (cases left)
    case None
    with assms show ?thesis
      by (auto simp: write_tx_def s c split: sum.splits option.splits)
  next
    case (Some b)
    with assms show ?thesis
      using commit_Inl [of s _ b] by (cases c) (auto simp: write_tx_def s c split: sum.splits option.splits)
  qed
qed

text \<open>Where the connection comes, nothing goes wrong on the way, and the circumstances are quiet.\<close>

definition calm_lending :: "circumstances \<Rightarrow> lending" where
  "calm_lending c = \<lparr>ln_conn = \<lparr>ct_error = None, ct_request_over = False, ct_wait_over = False\<rparr>, ln_begin = None,
     ln_tx = c, ln_rollback = None\<rparr>"

lemma take_conn_calm [simp]: "take_conn acquire (ln_conn (calm_lending c)) = Inr ()"
  by (simp add: calm_lending_def take_conn_def)

lemma calm_lending_parts [simp]:
  "ln_begin (calm_lending c) = None" "ln_tx (calm_lending c) = c" "ln_rollback (calm_lending c) = None"
  by (simp_all add: calm_lending_def)

lemma read_tx_calm:
  "read_tx acquire (calm_lending c) f d =
     (case f (begin_tx True c d) of (r, s) \<Rightarrow> (r, d\<lparr>db_next_posting := next_posting s\<rparr>))"
  by (simp add: read_tx_def)

lemma write_tx_calm:
  "write_tx acquire (calm_lending c) f d =
     (case f (begin_tx False c d) of
        (Inl e, s) \<Rightarrow> (Inl e, d\<lparr>db_next_posting := next_posting s\<rparr>)
      | (Inr x, s) \<Rightarrow>
          (case commit s of (r, left) \<Rightarrow>
             (map_sum (wrapped ''commit the write'') (\<lambda>_. x) r,
              (case left of
                 None \<Rightarrow> d\<lparr>db_next_posting := next_posting s\<rparr>
               | Some b \<Rightarrow> d\<lparr>db_book := b, db_next_posting := next_posting s\<rparr>))))"
  by (simp add: write_tx_def rolled_back_with_def split: prod.split sum.split)

section \<open>Properties\<close>

text \<open>
  A change lent a transaction is all there or not there at all, and its caller is told which,
  with one exception: where \<^verbatim>\<open>Write\<close> answers an error and the book has changed, the change had
  been made in full and it is COMMIT's own answer that was lost.
\<close>

theorem refused_write_changes_nothing:
  assumes "write_tx acquire l f d = (Inl e, d')" and "db_book d' \<noteq> db_book d"
  shows "\<exists>x c s. f (begin_tx False (ln_tx l) d) = (Inr x, s) \<and> commit s = (Inl (Sentinel c), Some (db_book d')) \<and>
    e = wrapped ''commit the write'' (Sentinel c)"
  using write_tx_Inl [OF assms(1)] assms(2) by auto

definition sample_change :: "unit act" where
  "sample_change = open_account \<lparr>ac_code = ''assets.till'', ac_name = ''Till'', ac_kind = ''asset'', ac_currency = ''USD''\<rparr>"

text \<open>The third statement is the last of the change, and the answer to the COMMIT after it is lost.\<close>

definition answer_lost :: circumstances where
  "answer_lost = quiet\<lparr>c_faults := [None, None, None, Some (Lose DeadlineExceeded True)]\<rparr>"

lemma sample_change_lost:
  "fst (write_tx 0 (calm_lending answer_lost) sample_change (database_of empty_book)) =
     Inl (wrapped ''commit the write'' (Sentinel DeadlineExceeded))"
  "length (accounts (db_book (snd (write_tx 0 (calm_lending answer_lost) sample_change (database_of empty_book))))) = 1"
  by code_simp+

theorem refused_write_changes_nothing_witness:
  "\<exists>x c s. sample_change (begin_tx False answer_lost (database_of empty_book)) = (Inr x, s) \<and>
     commit s = (Inl (Sentinel c), Some (db_book (snd (write_tx 0 (calm_lending answer_lost) sample_change (database_of empty_book))))) \<and>
     wrapped ''commit the write'' (Sentinel DeadlineExceeded) = wrapped ''commit the write'' (Sentinel c)"
proof -
  let ?w = "write_tx 0 (calm_lending answer_lost) sample_change (database_of empty_book)"
  have "?w = (Inl (wrapped ''commit the write'' (Sentinel DeadlineExceeded)), snd ?w)"
    using sample_change_lost(1) by (simp add: prod_eq_iff)
  moreover have "db_book (snd ?w) \<noteq> db_book (database_of empty_book)"
    using sample_change_lost(2) by (auto simp: database_of_def empty_book_def)
  ultimately show ?thesis using refused_write_changes_nothing by fastforce
qed

end
