(* ===== verification/Query.thy ===== *)
theory Query
  imports Prelude
begin

text \<open>
  The query strings \<^verbatim>\<open>internal/ledgerhttp/ledgerhttp.go\<close> reads and writes: \<^verbatim>\<open>url.ParseQuery\<close>,
  \<^verbatim>\<open>url.QueryEscape\<close> and \<^verbatim>\<open>url.Values.Encode\<close>, as far as the code uses them.  What is written
  is read back.  The number of parameters the standard library will read is not bounded here.
\<close>

section \<open>Percent-encoding\<close>

definition unreserved :: "char \<Rightarrow> bool" where
  "unreserved c \<longleftrightarrow>
     (let n = of_char c :: nat in 48 \<le> n \<and> n \<le> 57 \<or> 65 \<le> n \<and> n \<le> 90 \<or> 97 \<le> n \<and> n \<le> 122
        \<or> n = 45 \<or> n = 46 \<or> n = 95 \<or> n = 126)"

definition hex_upper :: "nat \<Rightarrow> char" where
  "hex_upper d = (if d < 10 then char_of (48 + d) else char_of (55 + d))"

definition unhex :: "char \<Rightarrow> nat option" where
  "unhex c =
     (let n = of_char c :: nat in
      if 48 \<le> n \<and> n \<le> 57 then Some (n - 48)
      else if 97 \<le> n \<and> n \<le> 102 then Some (n - 87)
      else if 65 \<le> n \<and> n \<le> 70 then Some (n - 55)
      else None)"

definition escape_char :: "char \<Rightarrow> gostr" where
  "escape_char c =
     (if unreserved c then [c]
      else if c = CHR '' '' then ''+''
      else [CHR ''%'', hex_upper (of_char c div 16), hex_upper (of_char c mod 16)])"

definition query_escape :: "gostr \<Rightarrow> gostr" where
  "query_escape s = concat (map escape_char s)"

fun query_unescape :: "gostr \<Rightarrow> gostr option" where
  "query_unescape [] = Some []"
| "query_unescape (c # cs) =
     (if c = CHR ''%'' then
        (case cs of
           a # b # rest \<Rightarrow>
             (case (unhex a, unhex b) of
                (Some h, Some l) \<Rightarrow> map_option (\<lambda>t. char_of (16 * h + l) # t) (query_unescape rest)
              | _ \<Rightarrow> None)
         | _ \<Rightarrow> None)
      else map_option (\<lambda>t. (if c = CHR ''+'' then CHR '' '' else c) # t) (query_unescape cs))"

section \<open>Queries\<close>

text \<open>A parsed query: its parameters in the order they came, a name as often as it came.\<close>

type_synonym query_values = "(gostr \<times> gostr) list"

definition query_get :: "query_values \<Rightarrow> gostr \<Rightarrow> gostr" where
  "query_get q name = (case map_of q name of Some v \<Rightarrow> v | None \<Rightarrow> '''')"

fun split_on :: "char \<Rightarrow> gostr \<Rightarrow> gostr list" where
  "split_on c [] = [[]]"
| "split_on c (x # xs) =
     (if x = c then [] # split_on c xs
      else case split_on c xs of [] \<Rightarrow> [[x]] | p # ps \<Rightarrow> (x # p) # ps)"

definition parse_piece :: "gostr \<Rightarrow> (gostr \<times> gostr) option" where
  "parse_piece p =
     (if CHR '';'' \<in> set p then None
      else case (query_unescape (takeWhile (\<lambda>c. c \<noteq> CHR ''='') p), query_unescape (drop 1 (dropWhile (\<lambda>c. c \<noteq> CHR ''='') p))) of
        (Some k, Some v) \<Rightarrow> Some (k, v)
      | _ \<Rightarrow> None)"

fun parse_pieces :: "gostr list \<Rightarrow> query_values option" where
  "parse_pieces [] = Some []"
| "parse_pieces (p # ps) =
     (case (parse_piece p, parse_pieces ps) of
        (Some kv, Some q) \<Rightarrow> Some (kv # q)
      | _ \<Rightarrow> None)"

definition parse_query :: "gostr \<Rightarrow> query_values option" where
  "parse_query s = parse_pieces (filter (\<lambda>p. p \<noteq> []) (split_on CHR ''&'' s))"

definition by_name :: "gostr \<times> gostr \<Rightarrow> gostr \<times> gostr \<Rightarrow> bool" where
  "by_name a b \<longleftrightarrow> bytes_le (fst a) (fst b)"

definition encode_pair :: "gostr \<times> gostr \<Rightarrow> gostr" where
  "encode_pair kv = query_escape (fst kv) @ ''='' @ query_escape (snd kv)"

fun join_pairs :: "gostr list \<Rightarrow> gostr" where
  "join_pairs [] = ''''"
| "join_pairs [p] = p"
| "join_pairs (p # q # ps) = p @ ''&'' @ join_pairs (q # ps)"

definition encode_query :: "query_values \<Rightarrow> gostr" where
  "encode_query q = join_pairs (map encode_pair (sort_by by_name q))"

section \<open>What is written is read back\<close>

lemma unhex_upper: "d < 16 \<Longrightarrow> unhex (hex_upper d) = Some d"
  by (simp add: hex_upper_def unhex_def)

lemma unescape_char: "query_unescape (escape_char c @ s) = map_option (\<lambda>t. c # t) (query_unescape s)"
proof -
  have n: "(of_char c :: nat) < 256" by (rule nat_of_char_less_256)
  have c: "char_of (16 * (of_char c div 16) + of_char c mod 16 :: nat) = c"
    by (simp add: mult_div_mod_eq)
  have "unhex (hex_upper (of_char c div 16)) = Some (of_char c div 16)"
    using n by (intro unhex_upper) (simp add: less_mult_imp_div_less)
  moreover have "unhex (hex_upper (of_char c mod 16)) = Some (of_char c mod 16)"
    by (rule unhex_upper) simp
  moreover have "c \<noteq> CHR ''%''" "c \<noteq> CHR ''+''" if "unreserved c"
    using that by (auto simp: unreserved_def)
  ultimately show ?thesis by (auto simp: escape_char_def c)
qed

lemma unescape_escape: "query_unescape (query_escape s) = Some s"
  by (induction s) (simp_all add: query_escape_def unescape_char)

text \<open>What separates is never in what is escaped.\<close>

lemma hex_upper_plain: "d < 16 \<Longrightarrow> unreserved (hex_upper d)"
  by (simp add: hex_upper_def unreserved_def)

lemma escape_char_chars:
  assumes "x \<in> set (escape_char c)"
  shows "unreserved x \<or> x = CHR ''+'' \<or> x = CHR ''%''"
proof -
  have "unreserved (hex_upper (of_char c div 16))"
    using nat_of_char_less_256 [of c] by (intro hex_upper_plain less_mult_imp_div_less) simp
  moreover have "unreserved (hex_upper (of_char c mod 16))" by (rule hex_upper_plain) simp
  ultimately show ?thesis using assms by (cases "unreserved c"; cases "c = CHR '' ''") (auto simp: escape_char_def)
qed

lemma escape_chars: "x \<in> set (query_escape s) \<Longrightarrow> unreserved x \<or> x = CHR ''+'' \<or> x = CHR ''%''"
  by (auto simp: query_escape_def dest: escape_char_chars)

lemma escaped_no_separator:
  "CHR ''&'' \<notin> set (query_escape s)" "CHR ''='' \<notin> set (query_escape s)" "CHR '';'' \<notin> set (query_escape s)"
  by (auto dest!: escape_chars simp: unreserved_def)

lemma cut_at:
  "c \<notin> set xs \<Longrightarrow> takeWhile (\<lambda>y. y \<noteq> c) (xs @ c # ys) = xs \<and> dropWhile (\<lambda>y. y \<noteq> c) (xs @ c # ys) = c # ys"
  by (induction xs) auto

lemma parse_encode_pair: "parse_piece (encode_pair kv) = Some kv"
proof -
  have "takeWhile (\<lambda>c. c \<noteq> CHR ''='') (encode_pair kv) = query_escape (fst kv)"
    "dropWhile (\<lambda>c. c \<noteq> CHR ''='') (encode_pair kv) = CHR ''='' # query_escape (snd kv)"
    using cut_at [OF escaped_no_separator(2) [of "fst kv"], of "query_escape (snd kv)"]
    by (simp_all add: encode_pair_def)
  then show ?thesis
    using escaped_no_separator(3) by (auto simp: parse_piece_def unescape_escape) (auto simp: encode_pair_def)
qed

lemma split_on_none: "c \<notin> set p \<Longrightarrow> split_on c p = [p]"
  by (induction p) auto

lemma split_on_append: "c \<notin> set p \<Longrightarrow> split_on c (p @ c # rest) = p # split_on c rest"
  by (induction p) auto

lemma split_join:
  "list_all (\<lambda>p. CHR ''&'' \<notin> set p) ps \<Longrightarrow> ps \<noteq> [] \<Longrightarrow> split_on CHR ''&'' (join_pairs ps) = ps"
  by (induction ps rule: join_pairs.induct) (simp_all add: split_on_none split_on_append)

lemma parse_pieces_pairs: "parse_pieces (map encode_pair q) = Some q"
  by (induction q) (simp_all add: parse_encode_pair)

theorem parse_encode: "parse_query (encode_query q) = Some (sort_by by_name q)"
proof (cases "sort_by by_name q = []")
  case True
  then show ?thesis by (simp add: encode_query_def parse_query_def)
next
  case False
  have "list_all (\<lambda>p. CHR ''&'' \<notin> set p) (map encode_pair (sort_by by_name q))"
    using escaped_no_separator(1) by (auto simp: list_all_iff encode_pair_def)
  from split_join [OF this] False
  have "split_on CHR ''&'' (encode_query q) = map encode_pair (sort_by by_name q)"
    by (simp add: encode_query_def)
  moreover have "filter (\<lambda>p. p \<noteq> []) (map encode_pair xs) = map encode_pair xs" for xs
    by (induction xs) (simp_all add: encode_pair_def)
  ultimately show ?thesis by (simp add: parse_query_def parse_pieces_pairs)
qed

end
