(* ===== verification/Answers.thy ===== *)
theory Answers
  imports Fingerprint Pool Query "HOL-Library.Signed_Division"
begin

text \<open>
  How an error becomes an answer: \<^verbatim>\<open>fail\<close>, \<^verbatim>\<open>refuse\<close>, \<^verbatim>\<open>refuseAccount\<close> and what they call, of
  \<^verbatim>\<open>internal/ledgerhttp\<close>, and the conversions from what the ledger answers to what goes over
  the wire.
\<close>

section \<open>A request the ledger never got to\<close>

definition cancelled :: "err \<Rightarrow> bool" where
  "cancelled e \<longleftrightarrow> errors_is e Canceled \<or> errors_is e DeadlineExceeded \<or> errors_is e ErrBadConn"

definition gave_up :: reply where
  "gave_up = refuse_with 503
     ((error_said ''the ledger did not get to this request and nothing was written'')
        \<lparr>eb_expected := ''the same request again; a write carries its idempotency key, so sending it twice cannot post it twice''\<rparr>)"

text \<open>A \<^verbatim>\<open>time.Duration\<close> is 64 bits of nanoseconds, and its division truncates.\<close>

definition second :: int where
  "second = 1000000000"

definition retry_seconds :: "int64 \<Rightarrow> int" where
  "retry_seconds d =
     (let s = sint (d + word_of_int second - 1) sdiv second in if s < 1 then 1 else s)"

definition retry_after :: "int \<Rightarrow> gostr" where
  "retry_after d = itoa (retry_seconds (word_of_int d))"

definition busy :: "library \<Rightarrow> int \<Rightarrow> reply" where
  "busy lib ceiling = write_reply [(''Retry-After'', retry_after ceiling)] 503 (Refused
     ((error_said ''the ledger is busy and had no free connection for this request, so nothing was written'')
        \<lparr>eb_expected := ''the same request again after '' @ show_duration lib ceiling @
           ''; a write carries its idempotency key, so sending it twice cannot post it twice''\<rparr>))"

definition not_reached :: "library \<Rightarrow> err \<Rightarrow> reply option" where
  "not_reached lib e =
     (case as_overload e of
        Some ceiling \<Rightarrow> Some (busy lib ceiling)
      | None \<Rightarrow> if cancelled e then Some gave_up else None)"

definition internal_error :: reply where
  "internal_error = refuse_with 500 (error_body0\<lparr>eb_error := ''internal error''\<rparr>)"

definition took_too_long :: "library \<Rightarrow> int \<Rightarrow> error_body" where
  "took_too_long lib d =
     (error_said ''the ledger did not answer in time and the request was cancelled'')
       \<lparr>eb_expected := ''an answer within '' @ show_duration lib d\<rparr>"

section \<open>Reads\<close>

text \<open>\<open>fail_reply\<close> is \<^verbatim>\<open>fail\<close>; what it logs is not modelled.\<close>

definition fail_reply :: "library \<Rightarrow> err \<Rightarrow> error_body \<Rightarrow> reply" where
  "fail_reply lib e named =
     (case not_reached lib e of
        Some r \<Rightarrow> r
      | None \<Rightarrow>
          let named = named\<lparr>eb_see := docs_home\<rparr> in
          if errors_is e ErrUnknownAccount then
            refuse_with 404 (named\<lparr>eb_error := ''no such account''\<rparr>)
          else if errors_is e ErrUnknownKind then
            refuse_with 400 (named\<lparr>eb_valid := valid_kinds e, eb_error := ''no such account kind''\<rparr>)
          else if errors_is e ErrBadTransactionID then
            refuse_with 400 (named\<lparr>eb_error := ''that is not a transaction id'', eb_expected := id_shape\<rparr>)
          else if errors_is e ErrUnknownTransaction then
            refuse_with 404 (named\<lparr>eb_error := ''no such transaction''\<rparr>)
          else internal_error)"

definition balance_body_of :: "balance \<Rightarrow> balance_body" where
  "balance_body_of b = \<lparr>bb_account = bl_account b, bb_name = bl_name b, bb_kind = bl_kind b,
     bb_currency = bl_currency b, bb_balance = bl_amount b, bb_postings = bl_postings b\<rparr>"

definition trial_body_of :: "trial \<Rightarrow> trial_body" where
  "trial_body_of t = \<lparr>yb_currency = tr_currency t, yb_debits = tr_debits t, yb_credits = tr_credits t,
     yb_net = tr_net t, yb_balanced = trial_balanced t, yb_accounts = tr_accounts t, yb_postings = tr_postings t\<rparr>"

definition entry_body :: "gostr \<Rightarrow> entry \<Rightarrow> transaction_body" where
  "entry_body txn e = \<lparr>tb_transaction = txn, tb_currency = en_currency e, tb_description = en_description e,
     tb_postings = map (\<lambda>l. \<lparr>pb_account = lg_account l, pb_amount = lg_amount l\<rparr>) (en_legs e)\<rparr>"

section \<open>Opening an account\<close>

definition account_value :: "account_request \<Rightarrow> gostr \<Rightarrow> gostr" where
  "account_value r field =
     (if field = ''code'' then ar_code r
      else if field = ''name'' then ar_name r
      else if field = ''kind'' then ar_kind r
      else if field = ''currency'' then ar_currency r
      else '''')"

definition refuse_account :: "library \<Rightarrow> err \<Rightarrow> account_request \<Rightarrow> reply" where
  "refuse_account lib e r =
     (case not_reached lib e of
        Some a \<Rightarrow> a
      | None \<Rightarrow>
          if errors_is e ErrAccountExists then
            refuse_with 409 ((error_said ''an account already holds that code'')
              \<lparr>eb_parameter := ''code'', eb_value := shown (ar_code r), eb_expected := ''a code no account holds'',
               eb_see := ''GET /v1/accounts/'' @ shown (ar_code r) @ '' says what holds it; '' @ docs_home\<rparr>)
          else if errors_is e ErrUnknownKind then
            refuse_with 422 ((error_said ''no such account kind'')
              \<lparr>eb_parameter := ''kind'', eb_value := shown (ar_kind r), eb_valid := valid_kinds e\<rparr>)
          else if errors_is e ErrRejected then
            refuse_with 422
              (let b = (error_said ''the ledger will not hold that account'')\<lparr>eb_code := shown (ar_code r)\<rparr>;
                   field = refused_field e account_fields
               in if field \<noteq> '''' then
                    let v = account_value r field
                    in bound (b\<lparr>eb_parameter := field, eb_value := shown v\<rparr>) field v
                  else b)
          else internal_error)"

section \<open>Posting a transaction\<close>

definition request_value :: "transaction_request \<Rightarrow> gostr \<Rightarrow> leg_fields option \<Rightarrow> gostr" where
  "request_value r field l =
     (if field = ''currency'' then rq_currency r
      else if field = ''description'' then rq_description r
      else if field = ''amount_minor'' then (case l of Some f \<Rightarrow> itoa (sint (lf_amount f)) | None \<Rightarrow> '''')
      else '''')"

definition request_net :: "transaction_request \<Rightarrow> minor \<times> int" where
  "request_net r = (net_of (map pb_amount (legs_sent r)), int (length (legs_sent r)))"

definition key_header :: gostr where
  "key_header = ''Idempotency-Key''"

definition replayed_header :: gostr where
  "replayed_header = ''Idempotent-Replayed''"

definition refuse_transaction :: "library \<Rightarrow> err \<Rightarrow> transaction_request \<Rightarrow> gostr \<Rightarrow> reply" where
  "refuse_transaction lib e r key =
     (let l = as_leg e;
          named = (case l of
            None \<Rightarrow> error_body0
          | Some f \<Rightarrow> error_body0\<lparr>eb_parameter := ''postings['' @ itoa (lf_index f) @ '']'', eb_code := shown (lf_account f)\<rparr>)
      in case not_reached lib e of
        Some a \<Rightarrow> a
      | None \<Rightarrow>
          let named = named\<lparr>eb_see := docs_home\<rparr> in
          if errors_is e ErrKeyReused then
            refuse_with 409 ((error_said ''the idempotency key was used for a different request'')
              \<lparr>eb_parameter := key_header, eb_value := shown key,
               eb_expected := ''a key this endpoint has not seen, or the same request it was first sent with''\<rparr>)
          else if errors_is e ErrBadKey then
            refuse_with 422 ((error_said ''the ledger will not hold that idempotency key'')
              \<lparr>eb_parameter := key_header, eb_value := shown key, eb_expected := key_shape\<rparr>)
          else if errors_is e ErrUnbalanced then
            (case request_net r of (net, legs) \<Rightarrow>
               write_reply [] 422 (Unbalanced \<lparr>ub_error = ''the transaction does not balance'', ub_net = net,
                 ub_postings = legs,
                 ub_expected = ''postings that net to 0; debits are positive and credits negative'',
                 ub_see = docs_home\<rparr>))
          else if errors_is e ErrUnknownAccount then
            refuse_with 422 (named\<lparr>eb_error := ''no such account''\<rparr>)
          else if errors_is e ErrCurrencyMismatch then
            refuse_with 422
              (named\<lparr>eb_error := ''the account does not hold the transaction's currency'',
                 eb_value := shown (rq_currency r),
                 eb_valid := (case l of Some f \<Rightarrow> if lf_holds f \<noteq> '''' then [lf_holds f] else [] | None \<Rightarrow> [])\<rparr>)
          else if errors_is e ErrRejected then
            refuse_with 422
              (let b = named\<lparr>eb_error := ''the ledger refused the transaction''\<rparr>;
                   field = refused_field e transaction_fields
               in if field \<noteq> '''' then
                    let b = (if l = None then b\<lparr>eb_parameter := field\<rparr> else b);
                        v = request_value r field l
                    in bound (b\<lparr>eb_value := shown v\<rparr>) field v
                  else b)
          else internal_error)"

end
