(* ===== verification/Endpoints.thy ===== *)
theory Endpoints
  imports Answers
begin

text \<open>
  The handlers of \<^verbatim>\<open>internal/ledgerhttp\<close>, each a function of the request, of what the pool
  lends it and of the database, and the routes and the deadline around them.
\<close>

section \<open>Requests\<close>

text \<open>
  What a handler reads off a request: a header, the body, the last segment of the path, and the
  query string as it came.
\<close>

record http_request =
  hr_header :: "gostr \<Rightarrow> gostr"
  hr_body :: sent_body
  hr_path :: gostr
  hr_query :: gostr

type_synonym handler = "library \<Rightarrow> int \<Rightarrow> lending \<Rightarrow> http_request \<Rightarrow> database \<Rightarrow> reply \<times> database"

definition declared_json :: "library \<Rightarrow> http_request \<Rightarrow> reply option" where
  "declared_json lib r =
     (let declared = hr_header r ''Content-Type'' in
      if media_type lib declared = Some json_media_type then None
      else Some (refuse_with 415
        ((error_said ''this endpoint takes only a json body, and the request does not declare one'')
           \<lparr>eb_parameter := ''Content-Type'', eb_value := shown declared, eb_expected := json_media_type\<rparr>)))"

section \<open>Reading\<close>

definition get_balance :: handler where
  "get_balance lib acquire l r d =
     (let code = hr_path r in
      case read_tx acquire l (balance_of code) d of
        (Inl e, d') \<Rightarrow> (fail_reply lib e (error_body0\<lparr>eb_code := shown code\<rparr>), d')
      | (Inr b, d') \<Rightarrow> (write_reply [] 200 (BalanceIs (balance_body_of b)), d'))"

definition accounts_query :: "gostr list" where
  "accounts_query = [''currency'', ''kind'', ''limit'', ''after'']"

definition default_page :: int where "default_page = 100"

definition max_page :: int where "max_page = 1000"

definition page_shape :: gostr where
  "page_shape = ''a whole number from 1 to '' @ itoa max_page"

definition query_parameters :: "gostr list" where
  "query_parameters = sort_by bytes_le accounts_query"

definition unknown_parameters :: "query_values \<Rightarrow> gostr list" where
  "unknown_parameters q = sort_by bytes_le (filter (\<lambda>name. name \<notin> set accounts_query) (remdups (map fst q)))"

definition page_size :: "query_values \<Rightarrow> reply + int" where
  "page_size q =
     (let asked = query_get q ''limit'' in
      if asked = '''' then Inr default_page
      else case map_option sint (parse_int64 asked) of
        Some page \<Rightarrow>
          if page < 1 \<or> page > max_page then Inl (refuse_with 400
            ((error_said ''that is not a page size this endpoint answers with'')
               \<lparr>eb_parameter := ''limit'', eb_value := shown asked, eb_expected := page_shape\<rparr>))
          else Inr page
      | None \<Rightarrow> Inl (refuse_with 400
            ((error_said ''that is not a page size this endpoint answers with'')
               \<lparr>eb_parameter := ''limit'', eb_value := shown asked, eb_expected := page_shape\<rparr>)))"

definition next_page_query :: "account_filter \<Rightarrow> int \<Rightarrow> gostr \<Rightarrow> query_values" where
  "next_page_query f page last_code =
     (if af_currency f \<noteq> '''' then [(''currency'', af_currency f)] else []) @
     (if af_kind f \<noteq> '''' then [(''kind'', af_kind f)] else []) @
     [(''limit'', itoa page), (''after'', last_code)]"

definition next_page :: "account_filter \<Rightarrow> int \<Rightarrow> gostr \<Rightarrow> gostr" where
  "next_page f page last_code = ''/v1/accounts?'' @ encode_query (next_page_query f page last_code)"

definition accounts_reply :: "account_filter \<Rightarrow> int \<Rightarrow> balance list \<Rightarrow> reply" where
  "accounts_reply f page rows =
     (let beyond = int (length rows) > page;
          kept = (if beyond then take (nat page) rows else rows)
      in write_reply [] 200 (AccountsAre \<lparr>al_accounts = map balance_body_of kept,
           al_next = (if beyond then next_page f page (bl_account (kept ! (length kept - 1))) else '''')\<rparr>))"

definition list_accounts :: handler where
  "list_accounts lib acquire l r d =
     (case parse_query (hr_query r) of
        None \<Rightarrow> (refuse_with 400
          ((error_said ''the query string could not be read'')\<lparr>eb_value := shown (hr_query r)\<rparr>), d)
      | Some q \<Rightarrow>
          (case unknown_parameters q of
             name # _ \<Rightarrow> (refuse_with 400
               ((error_said ''no such query parameter'')\<lparr>eb_parameter := name, eb_valid := query_parameters\<rparr>), d)
           | [] \<Rightarrow>
               (case page_size q of
                  Inl a \<Rightarrow> (a, d)
                | Inr page \<Rightarrow>
                    let f = \<lparr>af_currency = query_get q ''currency'', af_kind = query_get q ''kind'',
                             af_after = query_get q ''after'', af_limit = page + 1\<rparr>
                    in case read_tx acquire l (balances f) d of
                         (Inl e, d') \<Rightarrow> (fail_reply lib e (error_body0\<lparr>eb_parameter := ''kind'', eb_value := shown (af_kind f)\<rparr>), d')
                       | (Inr rows, d') \<Rightarrow> (accounts_reply f page rows, d'))))"

definition get_trial :: handler where
  "get_trial lib acquire l r d =
     (case read_tx acquire l trial_balance d of
        (Inl e, d') \<Rightarrow> (fail_reply lib e error_body0, d')
      | (Inr rows, d') \<Rightarrow> (write_reply [] 200 (TrialIs (map trial_body_of rows)), d'))"

definition get_transaction :: handler where
  "get_transaction lib acquire l r d =
     (let idt = hr_path r in
      case read_tx acquire l (entry_of idt) d of
        (Inl e, d') \<Rightarrow> (fail_reply lib e (error_body0\<lparr>eb_parameter := ''id'', eb_value := shown idt\<rparr>), d')
      | (Inr (held, e), d') \<Rightarrow> (write_reply [] 200 (TransactionIs (entry_body held e)), d'))"

section \<open>Writing\<close>

definition max_account_body :: int where "max_account_body = 4 * 1024"

definition max_transaction_body :: int where "max_transaction_body = 256 * 1024"

definition account_of :: "account_request \<Rightarrow> account" where
  "account_of r = \<lparr>ac_code = ar_code r, ac_name = ar_name r, ac_kind = ar_kind r, ac_currency = ar_currency r\<rparr>"

definition open_and_read :: "account_request \<Rightarrow> balance act" where
  "open_and_read req = attempt (open_account (account_of req)) fail (\<lambda>_. balance_of (ar_code req))"

definition post_account :: handler where
  "post_account lib acquire l r d =
     (case declared_json lib r of
        Some a \<Rightarrow> (a, d)
      | None \<Rightarrow>
          (case decode lib account_type max_account_body (hr_body r) of
             Inl a \<Rightarrow> (a, d)
           | Inr v \<Rightarrow>
               let req = account_from v in
               case write_tx acquire l (open_and_read req) d of
                 (Inl e, d') \<Rightarrow> (refuse_account lib e req, d')
               | (Inr b, d') \<Rightarrow>
                   (write_reply [(''Location'', ''/v1/accounts/'' @ ar_code req)] 201 (BalanceIs (balance_body_of b)), d')))"

definition entry_from :: "transaction_request \<Rightarrow> entry" where
  "entry_from req = \<lparr>en_currency = rq_currency req, en_description = rq_description req,
     en_legs = map (\<lambda>p. \<lparr>lg_account = pb_account p, lg_amount = pb_amount p\<rparr>) (legs_sent req),
     en_occurred = fst (rq_occurred req)\<rparr>"

definition post_and_read :: "claim \<Rightarrow> entry \<Rightarrow> (once_record \<times> entry option) act" where
  "post_and_read c e =
     attempt (once c (post e)) fail (\<lambda>rec.
       if \<not> rc_replayed rec then ret (rec, None)
       else attempt (entry_of (rc_transaction rec)) fail (\<lambda>(held, stored). ret (rec, Some stored)))"

definition posted_reply :: "transaction_request \<Rightarrow> once_record \<Rightarrow> entry option \<Rightarrow> reply" where
  "posted_reply req rec stored =
     (let location = (''Location'', ''/v1/transactions/'' @ rc_transaction rec) in
      case stored of
        Some e \<Rightarrow> write_reply [location, (replayed_header, ''true'')] 201 (TransactionIs (entry_body (rc_transaction rec) e))
      | None \<Rightarrow> write_reply [location] 201 (TransactionIs
          \<lparr>tb_transaction = rc_transaction rec, tb_currency = rq_currency req, tb_description = rq_description req,
           tb_postings = legs_sent req\<rparr>))"

definition post_transaction :: handler where
  "post_transaction lib acquire l r d =
     (case declared_json lib r of
        Some a \<Rightarrow> (a, d)
      | None \<Rightarrow>
          let key = hr_header r key_header in
          if key = '''' then (refuse_with 400
            ((error_said ''this endpoint will not take a write it cannot make safe to retry'')
               \<lparr>eb_parameter := key_header, eb_expected := key_shape\<rparr>), d)
          else case decode lib transaction_type max_transaction_body (hr_body r) of
            Inl a \<Rightarrow> (a, d)
          | Inr v \<Rightarrow>
              let req = transaction_from v in
              if length (legs_sent req) > max_postings then (refuse_with 422
                ((error_said ''the entry carries more postings than this endpoint takes'')
                   \<lparr>eb_parameter := ''postings'', eb_value := itoa (int (length (legs_sent req))),
                    eb_expected := ''at most '' @ itoa (int max_postings) @ '' postings''\<rparr>), d)
              else case claim_of lib key req of
                None \<Rightarrow> (internal_error, d)
              | Some c \<Rightarrow>
                  (case write_tx acquire l (post_and_read c (entry_from req)) d of
                     (Inl e, d') \<Rightarrow> (refuse_transaction lib e req key, d')
                   | (Inr (rec, stored), d') \<Rightarrow> (posted_reply req rec stored, d')))"

section \<open>Routes and the deadline\<close>

datatype endpoint = ListAccounts | OpenAccount | GetBalance gostr | GetTrial | PostTransaction | GetTransaction gostr

text \<open>The patterns \<^verbatim>\<open>Handler\<close> registers; a GET pattern answers HEAD too.\<close>

definition reads_method :: "gostr \<Rightarrow> bool" where
  "reads_method m \<longleftrightarrow> m = ''GET'' \<or> m = ''HEAD''"

fun route :: "gostr \<Rightarrow> gostr list \<Rightarrow> endpoint option" where
  "route m [v, a] =
     (if v \<noteq> ''v1'' then None
      else if a = ''accounts'' \<and> reads_method m then Some ListAccounts
      else if a = ''accounts'' \<and> m = ''POST'' then Some OpenAccount
      else if a = ''trial-balance'' \<and> reads_method m then Some GetTrial
      else if a = ''transactions'' \<and> m = ''POST'' then Some PostTransaction
      else None)"
| "route m [v, a, x] =
     (if v \<noteq> ''v1'' \<or> x = '''' \<or> \<not> reads_method m then None
      else if a = ''accounts'' then Some (GetBalance x)
      else if a = ''transactions'' then Some (GetTransaction x)
      else None)"
| "route m _ = None"

fun serve_endpoint :: "endpoint \<Rightarrow> handler" where
  "serve_endpoint ListAccounts lib acquire l r d = list_accounts lib acquire l r d"
| "serve_endpoint OpenAccount lib acquire l r d = post_account lib acquire l r d"
| "serve_endpoint (GetBalance c) lib acquire l r d = get_balance lib acquire l (r\<lparr>hr_path := c\<rparr>) d"
| "serve_endpoint GetTrial lib acquire l r d = get_trial lib acquire l r d"
| "serve_endpoint PostTransaction lib acquire l r d = post_transaction lib acquire l r d"
| "serve_endpoint (GetTransaction i) lib acquire l r d = get_transaction lib acquire l (r\<lparr>hr_path := i\<rparr>) d"

text \<open>
  \<^verbatim>\<open>http.TimeoutHandler\<close> answers for the handler when the budget runs out first; what the handler
  did to the database, it did.
\<close>

definition deadline :: "library \<Rightarrow> int \<Rightarrow> bool \<Rightarrow> reply \<times> database \<Rightarrow> reply \<times> database" where
  "deadline lib budget ran_out served =
     (if ran_out then (refuse_with 503 (took_too_long lib budget), snd served) else served)"

end
