(* ===== verification/Service.thy ===== *)
theory Service
  imports Endpoints
begin

text \<open>
  What the service answers and what it leaves in the database, under any lending: reads change
  nothing, a change is answered with 201 or not made, and what was created is in the book.
\<close>

section \<open>Statuses\<close>

lemma write_reply_status [simp]: "rp_status (write_reply hs st v) = st" "rp_body (write_reply hs st v) = v"
  by (simp_all add: write_reply_def)

lemma busy_status [simp]: "rp_status (busy lib c) = 503" and gave_up_status [simp]: "rp_status gave_up = 503"
  and internal_error_status [simp]: "rp_status internal_error = 500"
  by (simp_all add: busy_def gave_up_def internal_error_def)

lemma not_reached_status: "not_reached lib e = Some a \<Longrightarrow> rp_status a = 503"
  by (auto simp: not_reached_def split: option.splits if_splits)

lemma refuse_transaction_status: "rp_status (refuse_transaction lib e req key) \<in> {409, 422, 500, 503}"
  using not_reached_status [of lib e]
  by (auto simp: refuse_transaction_def Let_def split: option.split prod.split)

lemma refuse_account_status: "rp_status (refuse_account lib e req) \<in> {409, 422, 500, 503}"
  using not_reached_status [of lib e]
  by (auto simp: refuse_account_def Let_def split: option.split)

lemma fail_reply_status: "rp_status (fail_reply lib e named) \<in> {400, 404, 500, 503}"
  using not_reached_status [of lib e]
  by (auto simp: fail_reply_def Let_def split: option.split)

lemma unreadable_status: "rp_status (unreadable ceiling why) \<in> {400, 413}"
  by (cases why) simp_all

lemma decode_status: "decode lib t ceiling b = Inl a \<Longrightarrow> rp_status a \<in> {400, 413}"
  using unreadable_status [of ceiling]
  by (cases b) (auto simp: decode_def refuse_fields_def Let_def split: if_splits prod.splits)

lemma declared_json_status: "declared_json lib r = Some a \<Longrightarrow> rp_status a = 415"
  by (auto simp: declared_json_def Let_def split: if_splits)

lemma posted_reply_status [simp]: "rp_status (posted_reply req rec stored) = 201"
  by (simp add: posted_reply_def Let_def split: option.split)

text \<open>A COMMIT whose answer was lost is a request the ledger \<open>gave up\<close>, as far as the answer says.\<close>

lemma lost_commit_errors:
  "as_overload (wrapped w (Sentinel c)) = None" "errors_is (wrapped w (Sentinel c)) x \<longleftrightarrow> x = c"
  by (auto simp: wrapped_def as_overload_def errors_is_def)

lemma not_reached_lost: "cancelled (Sentinel c) \<Longrightarrow> not_reached lib (wrapped w (Sentinel c)) = Some gave_up"
  by (auto simp: not_reached_def cancelled_def lost_commit_errors) (auto simp: errors_is_def)

section \<open>The two writes, past what they check first\<close>

text \<open>A request for a transaction that gets as far as the ledger.\<close>

definition asks :: "library \<Rightarrow> http_request \<Rightarrow> transaction_request \<Rightarrow> claim \<Rightarrow> bool" where
  "asks lib r req c \<longleftrightarrow>
     declared_json lib r = None \<and> hr_header r key_header \<noteq> '''' \<and>
     (\<exists>v. decode lib transaction_type max_transaction_body (hr_body r) = Inr v \<and> req = transaction_from v) \<and>
     length (legs_sent req) \<le> max_postings \<and> claim_of lib (hr_header r key_header) req = Some c"

lemma post_transaction_asks:
  assumes "asks lib r req c"
  shows "post_transaction lib acquire l r d =
    (case write_tx acquire l (post_and_read c (entry_from req)) d of
       (Inl e, d') \<Rightarrow> (refuse_transaction lib e req (cl_key c), d')
     | (Inr (rec, stored), d') \<Rightarrow> (posted_reply req rec stored, d'))"
proof -
  have "cl_key c = hr_header r key_header" using assms by (auto simp: asks_def claim_of_def)
  then show ?thesis
    using assms by (auto simp: asks_def post_transaction_def Let_def split: sum.split prod.split)
qed

lemma post_transaction_stops:
  assumes "\<nexists>req c. asks lib r req c"
  shows "snd (post_transaction lib acquire l r d) = d \<and> rp_status (fst (post_transaction lib acquire l r d)) \<in> {400, 413, 415, 422, 500}"
proof (cases "declared_json lib r")
  case (Some a)
  then show ?thesis using declared_json_status by (simp add: post_transaction_def)
next
  case None
  show ?thesis
  proof (cases "decode lib transaction_type max_transaction_body (hr_body r)")
    case (Inl a)
    with None decode_status [OF Inl] show ?thesis by (auto simp: post_transaction_def Let_def)
  next
    case (Inr v)
    let ?req = "transaction_from v"
    show ?thesis
    proof (cases "claim_of lib (hr_header r key_header) ?req")
      case None
      with \<open>declared_json lib r = None\<close> Inr show ?thesis by (simp add: post_transaction_def Let_def)
    next
      case (Some c)
      with \<open>declared_json lib r = None\<close> Inr assms
      have "hr_header r key_header = '''' \<or> length (legs_sent ?req) > max_postings"
        by (auto simp: asks_def not_le)
      with \<open>declared_json lib r = None\<close> Inr show ?thesis by (auto simp: post_transaction_def Let_def)
    qed
  qed
qed

definition asks_account :: "library \<Rightarrow> http_request \<Rightarrow> account_request \<Rightarrow> bool" where
  "asks_account lib r req \<longleftrightarrow>
     declared_json lib r = None \<and>
     (\<exists>v. decode lib account_type max_account_body (hr_body r) = Inr v \<and> req = account_from v)"

lemma post_account_asks:
  assumes "asks_account lib r req"
  shows "post_account lib acquire l r d =
    (case write_tx acquire l (open_and_read req) d of
       (Inl e, d') \<Rightarrow> (refuse_account lib e req, d')
     | (Inr b, d') \<Rightarrow> (write_reply [(''Location'', ''/v1/accounts/'' @ ar_code req)] 201 (BalanceIs (balance_body_of b)), d'))"
  using assms by (auto simp: asks_account_def post_account_def Let_def)

lemma post_account_stops:
  assumes "\<nexists>req. asks_account lib r req"
  shows "snd (post_account lib acquire l r d) = d \<and> rp_status (fst (post_account lib acquire l r d)) \<in> {400, 413, 415}"
proof (cases "declared_json lib r")
  case (Some a)
  then show ?thesis using declared_json_status by (simp add: post_account_def)
next
  case None
  then show ?thesis
    using assms decode_status [of lib account_type max_account_body "hr_body r"]
    by (cases "decode lib account_type max_account_body (hr_body r)") (auto simp: asks_account_def post_account_def)
qed

lemma via_open_and_read: "via issued (open_and_read req)"
  unfolding open_and_read_def by (intro via_intros)

lemma via_post_and_read: "via issued (post_and_read c e)"
proof -
  have "via issued (case p of (held, stored) \<Rightarrow> ret (rec, Some stored))" for p rec
    by (cases p) (simp add: via_intros)
  then show ?thesis unfolding post_and_read_def by (intro via_intros)
qed

section \<open>Properties\<close>

text \<open>
  Nothing a client reads changes anything: whichever route a GET or a HEAD takes, and whatever
  goes wrong on the way, the book is afterwards what it was.
\<close>

theorem reads_never_change_the_book:
  assumes "route m path = Some ep" and "reads_method m"
  shows "db_book (snd (serve_endpoint ep lib acquire l r d)) = db_book d"
proof -
  have book: "db_book d' = db_book d" if "read_tx acquire l f d = (x, d')" for f :: "'a act" and x d'
    using read_leaves_the_book [of acquire l f d] that by simp
  have "ep \<noteq> OpenAccount \<and> ep \<noteq> PostTransaction"
    using assms by (cases "(m, path)" rule: route.cases) (auto simp: reads_method_def split: if_splits)
  then show ?thesis
    by (cases ep)
       (auto simp: list_accounts_def get_balance_def get_trial_def get_transaction_def Let_def dest: book
         split: prod.split sum.split option.split list.split)
qed

theorem reads_never_change_the_book_witness:
  "db_book (snd (serve_endpoint (GetBalance ''equity'') sample_library 0 (calm_lending answer_lost)
     \<lparr>hr_header = (\<lambda>h. ''''), hr_body = Unread NoBody, hr_path = '''', hr_query = ''''\<rparr> (database_of used_book))) = used_book"
  using reads_never_change_the_book [of "''GET''" "[''v1'', ''accounts'', ''equity'']" "GetBalance ''equity''" sample_library 0
      "calm_lending answer_lost" "\<lparr>hr_header = (\<lambda>h. ''''), hr_body = Unread NoBody, hr_path = '''', hr_query = ''''\<rparr>"
      "database_of used_book"]
  by (simp add: reads_method_def database_of_def)

text \<open>A change whose COMMIT was not answered, and what the two writes make of it.\<close>

lemma lost_change:
  assumes "write_tx acquire l f d = (Inl e, d')" and "db_book d' \<noteq> db_book d"
  shows "\<exists>c s. commit s = (Inl (Sentinel c), Some (db_book d')) \<and> e = wrapped ''commit the write'' (Sentinel c)"
proof -
  obtain c s b where "commit s = (Inl (Sentinel c), Some b)" "e = wrapped ''commit the write'' (Sentinel c)"
    "d' = d\<lparr>db_book := b, db_next_posting := next_posting s\<rparr>"
    using write_tx_Inl [OF assms(1)] assms(2) by blast
  then show ?thesis by (intro exI [of _ c] exI [of _ s]) simp
qed

lemma changed_by_post:
  assumes "post_transaction lib acquire l r d = (a, d')" and "db_book d' \<noteq> db_book d"
  shows "rp_status a = 201 \<or>
    (\<exists>c s. commit s = (Inl (Sentinel c), Some (db_book d')) \<and> (cancelled (Sentinel c) \<longrightarrow> a = gave_up))"
proof (cases "\<exists>req c. asks lib r req c")
  case True
  then obtain req c where rc: "asks lib r req c" by blast
  obtain x d1 where x: "write_tx acquire l (post_and_read c (entry_from req)) d = (x, d1)"
    by (cases "write_tx acquire l (post_and_read c (entry_from req)) d")
  show ?thesis
  proof (cases x)
    case (Inl e)
    with assms(1) x post_transaction_asks [OF rc, of acquire l d]
    have "a = refuse_transaction lib e req (cl_key c)" "d1 = d'" by simp_all
    with lost_change [of acquire l "post_and_read c (entry_from req)" d e d'] x Inl assms(2) not_reached_lost [of _ lib]
    show ?thesis by (auto simp: refuse_transaction_def Let_def)
  next
    case (Inr p)
    with assms(1) x post_transaction_asks [OF rc, of acquire l d] show ?thesis by (auto split: prod.splits)
  qed
next
  case False
  with post_transaction_stops [OF False, of acquire l d] assms show ?thesis by simp
qed

lemma changed_by_open:
  assumes "post_account lib acquire l r d = (a, d')" and "db_book d' \<noteq> db_book d"
  shows "rp_status a = 201 \<or>
    (\<exists>c s. commit s = (Inl (Sentinel c), Some (db_book d')) \<and> (cancelled (Sentinel c) \<longrightarrow> a = gave_up))"
proof (cases "\<exists>req. asks_account lib r req")
  case True
  then obtain req where rc: "asks_account lib r req" by blast
  obtain x d1 where x: "write_tx acquire l (open_and_read req) d = (x, d1)"
    by (cases "write_tx acquire l (open_and_read req) d")
  show ?thesis
  proof (cases x)
    case (Inl e)
    with assms(1) x post_account_asks [OF rc, of acquire l d]
    have "a = refuse_account lib e req" "d1 = d'" by simp_all
    with lost_change [of acquire l "open_and_read req" d e d'] x Inl assms(2) not_reached_lost [of _ lib]
    show ?thesis by (auto simp: refuse_account_def Let_def)
  next
    case (Inr p)
    with assms(1) x post_account_asks [OF rc, of acquire l d] show ?thesis by auto
  qed
next
  case False
  with post_account_stops [OF False, of acquire l d] assms show ?thesis by simp
qed

lemma only_writes_change:
  assumes "serve_endpoint ep lib acquire l r d = (a, d')" and "db_book d' \<noteq> db_book d"
  shows "ep = OpenAccount \<or> ep = PostTransaction"
proof -
  have same: "db_book d' = db_book d" if "read_tx acquire l f d = (x, d')" for f :: "'a act" and x d'
    using read_leaves_the_book [of acquire l f d] that by simp
  from assms show ?thesis
    by (cases ep)
       (auto simp: list_accounts_def get_balance_def get_trial_def get_transaction_def Let_def dest: same
         split: prod.splits sum.splits option.splits list.splits)
qed


definition json_headers :: "gostr \<Rightarrow> gostr" where
  "json_headers h = (if h = ''Content-Type'' then json_media_type else if h = key_header then sample_key else '''')"

definition sample_open :: http_request where
  "sample_open = \<lparr>hr_header = json_headers, hr_body = OneValue sample_account_json, hr_path = '''', hr_query = ''''\<rparr>"

text \<open>Four statements open the account and read it back; the answer to the COMMIT after them is lost.\<close>

definition commit_answer_lost :: circumstances where
  "commit_answer_lost = quiet\<lparr>c_faults := [None, None, None, None, Some (Lose DeadlineExceeded True)]\<rparr>"

definition sample_open_request :: account_request where
  "sample_open_request = \<lparr>ar_code = ''assets.till'', ar_name = ''Till'', ar_kind = ''asset'', ar_currency = ''USD''\<rparr>"

lemma sample_open_asks: "asks_account sample_library sample_open sample_open_request"
proof -
  have "decode sample_library account_type max_account_body (OneValue sample_account_json) =
      Inr (VStruct [VString ''assets.till'', VString ''Till'', VString ''asset'', VString ''USD''])"
    by code_simp
  moreover have "declared_json sample_library sample_open = None"
    by (simp add: declared_json_def sample_open_def sample_library_def json_headers_def)
  ultimately show ?thesis by (simp add: asks_account_def sample_open_def sample_open_request_def)
qed

lemma sample_open_lost:
  "write_tx 0 (calm_lending commit_answer_lost) (open_and_read sample_open_request) (database_of empty_book) =
     (Inl (wrapped ''commit the write'' (Sentinel DeadlineExceeded)), snd (write_tx 0 (calm_lending commit_answer_lost) (open_and_read sample_open_request) (database_of empty_book)))"
  "map acc_code (accounts (db_book (snd (write_tx 0 (calm_lending commit_answer_lost) (open_and_read sample_open_request) (database_of empty_book))))) = [''assets.till'']"
  by (simp add: prod_eq_iff, code_simp) code_simp

text \<open>
  C35. The 503 of a request \<open>the ledger did not get to\<close> is not always true.  With the answer to its
  COMMIT lost, opening an account is answered with that 503, which says that nothing was
  written, and the account is in the book.
\<close>

theorem gave_up_may_have_written:
  "\<exists>d'. serve_endpoint OpenAccount sample_library 0 (calm_lending commit_answer_lost) sample_open (database_of empty_book) =
       (gave_up, d') \<and>
     rp_status gave_up = 503 \<and> map acc_code (accounts (db_book d')) = [''assets.till'']"
proof -
  have "cancelled (Sentinel DeadlineExceeded)" by (simp add: cancelled_def errors_is_def)
  then have "refuse_account sample_library (wrapped ''commit the write'' (Sentinel DeadlineExceeded)) sample_open_request = gave_up"
    by (simp add: refuse_account_def not_reached_lost)
  with sample_open_lost(2) post_account_asks [OF sample_open_asks, of 0 "calm_lending commit_answer_lost" "database_of empty_book"]
  show ?thesis unfolding serve_endpoint.simps by (subst (asm) sample_open_lost(1)) simp
qed


section \<open>Past a 201\<close>

lemma post_and_read_Inr:
  assumes "post_and_read c e s = (Inr (rec, stored), s')"
  shows "\<exists>s1. once c (post e) s = (Inr rec, s1) \<and> work s' = work s1 \<and> (stored = None \<longleftrightarrow> \<not> rc_replayed rec)"
proof -
  from attempt_Inr [OF assms [unfolded post_and_read_def] refuses_fail] obtain rec' s1 where
    o1: "once c (post e) s = (Inr rec', s1)"
    and k: "(if \<not> rc_replayed rec' then ret (rec', None)
       else attempt (entry_of (rc_transaction rec')) fail (\<lambda>(held, stored). ret (rec', Some stored))) s1 = (Inr (rec, stored), s')"
    by blast
  show ?thesis
  proof (cases "rc_replayed rec'")
    case False
    with k o1 show ?thesis by (auto simp: ret_def)
  next
    case True
    with k have "attempt (entry_of (rc_transaction rec')) fail (\<lambda>(held, stored). ret (rec', Some stored)) s1 = (Inr (rec, stored), s')"
      by simp
    from attempt_Inr [OF this refuses_fail] obtain x s2 where
      "entry_of (rc_transaction rec') s1 = (Inr x, s2)" "(case x of (held, stored) \<Rightarrow> ret (rec', Some stored)) s2 = (Inr (rec, stored), s')"
      by blast
    with o1 True observesD [OF observes_entry_of this(1)] show ?thesis
      by (cases x) (auto simp: ret_def)
  qed
qed

lemma created_was_asked:
  assumes "post_transaction lib acquire l r d = (a, d')" and "rp_status a = 201"
  shows "\<exists>req c rec stored. asks lib r req c \<and>
    write_tx acquire l (post_and_read c (entry_from req)) d = (Inr (rec, stored), d') \<and> a = posted_reply req rec stored"
proof -
  obtain req c where rc: "asks lib r req c"
    using post_transaction_stops [of lib r acquire l d] assms by fastforce
  obtain x d1 where x: "write_tx acquire l (post_and_read c (entry_from req)) d = (x, d1)"
    by (cases "write_tx acquire l (post_and_read c (entry_from req)) d")
  show ?thesis
  proof (cases x)
    case (Inl e)
    with post_transaction_asks [OF rc, of acquire l d] x assms refuse_transaction_status [of lib e req "cl_key c"]
    show ?thesis by auto
  next
    case (Inr p)
    then obtain rec stored where "x = Inr (rec, stored)" by (cases p) simp
    moreover from this have "a = posted_reply req rec stored" "d' = d1"
      using post_transaction_asks [OF rc, of acquire l d] x assms(1) by simp_all
    ultimately show ?thesis using rc x by blast
  qed
qed

lemma consistentD:
  "consistent ct b \<Longrightarrow> wf_book ct b" "consistent ct b \<Longrightarrow> t \<in> set (transactions b) \<Longrightarrow> balanced b (txn_id t)"
  by (simp_all add: consistent_def)

lemma named_transaction:
  assumes "consistent ct b" and "key_with b k = Some r" and "key_txn r = Some u"
  shows "u \<in> txn_id ` set (transactions b) \<and> balanced b u"
proof -
  have "key_fine ct b r" using key_withD [OF assms(2)] wf_bookD(8) [OF consistentD(1) [OF assms(1)]] by blast
  then have "u \<in> txn_id ` set (transactions b)" using assms(3) by (simp add: key_fine_def)
  with consistentD(2) [OF assms(1)] show ?thesis by blast
qed

lemma write_tx_names:
  assumes "write_tx acquire l (post_and_read c e) d = (Inr (rec, stored), d')"
  shows "\<exists>k u. names (cl_key c) k (db_book d') \<and> key_hash k = cl_hash c \<and> key_txn k = Some u \<and>
    uuid_in (rc_transaction rec) = Some u \<and> text_ok (cl_key c)"
proof -
  obtain s b where s: "post_and_read c e (begin_tx False (ln_tx l) d) = (Inr (rec, stored), s)"
    "commit s = (Inr (), Some b)" "d' = d\<lparr>db_book := b, db_next_posting := next_posting s\<rparr>"
    using write_tx_Inr [OF assms] by blast
  obtain s1 where s1: "once c (post e) (begin_tx False (ln_tx l) d) = (Inr rec, s1)" "work s = work s1"
    using post_and_read_Inr [OF s(1)] by blast
  obtain k u where k: "names (cl_key c) k (work s1)" "key_hash k = cl_hash c" "key_txn k = Some u"
    "uuid_in (rc_transaction rec) = Some u" "text_ok (cl_key c)"
    using post_writer.key_of_success [OF s1(1)] by blast
  have "names (cl_key c) k b" using key_law.commit_law [OF _ s(2)] k(1) s1(2) by simp
  with k s(3) show ?thesis by auto
qed

end
