(* ===== verification/Verdicts.thy ===== *)
theory Verdicts
  imports Service
begin

text \<open>
  The answer to every request that reaches the ledger when nothing goes wrong on the way, by the
  contract of the ledger below it: which status, which body, and what is in the book.
\<close>

section \<open>Only the pool is ever overloaded\<close>

named_theorems calm_errors \<open>an operation of the ledger never answers an OverloadError\<close>

definition never_busy :: "'a act \<Rightarrow> bool" where
  "never_busy m \<longleftrightarrow> (\<forall>s e s'. m s = (Inl e, s') \<longrightarrow> as_overload e = None)"

lemma as_overload_None: "as_overload e = None \<longleftrightarrow> (\<forall>x \<in> set (err_tree e). overload_of x = None)"
proof -
  have "first_of f xs = None \<longleftrightarrow> (\<forall>x \<in> set xs. f x = None)" for f :: "err \<Rightarrow> int option" and xs
    by (induction xs) (auto split: option.split)
  then show ?thesis by (simp add: as_overload_def)
qed

lemma never_busy_fail [calm_errors]: "as_overload e = None \<Longrightarrow> never_busy (fail e)"
  by (simp add: never_busy_def fail_def)

lemma never_busy_ret [calm_errors]: "never_busy (ret x)"
  by (simp add: never_busy_def ret_def)

lemma never_busy_attempt [calm_errors]:
  assumes "never_busy m" and "\<And>e. as_overload e = None \<Longrightarrow> never_busy (h e)" and "\<And>x. never_busy (k x)"
  shows "never_busy (attempt m h k)"
  unfolding never_busy_def
proof (intro allI impI)
  fix s e s'
  assume a: "attempt m h k s = (Inl e, s')"
  obtain r s1 where m: "m s = (r, s1)" by (cases "m s")
  show "as_overload e = None"
  proof (cases r)
    case (Inl e1)
    have "as_overload e1 = None" using assms(1) m Inl unfolding never_busy_def by blast
    then show ?thesis using assms(2) [of e1] a m Inl by (auto simp: attempt_def never_busy_def)
  next
    case (Inr x)
    then show ?thesis using assms(3) [of x] a m by (auto simp: attempt_def never_busy_def)
  qed
qed

lemma never_busy_if [calm_errors]: "never_busy m \<Longrightarrow> never_busy m' \<Longrightarrow> never_busy (if b then m else m')"
  by simp

lemma never_busy_option [calm_errors]:
  "never_busy m \<Longrightarrow> (\<And>x. never_busy (k x)) \<Longrightarrow> never_busy (case v of None \<Rightarrow> m | Some x \<Rightarrow> k x)"
  by (cases v) auto

lemma never_busy_round_trip: "never_busy (round_trip r f)"
  unfolding never_busy_def
proof (intro allI impI)
  fix s e s'
  assume a: "round_trip r f s = (Inl e, s')"
  obtain g s1 where g: "next_fault s = (g, s1)" by (cases "next_fault s")
  from a g show "as_overload e = None"
    by (auto simp: round_trip_def as_overload_def split: option.splits fault.splits sum.splits prod.splits if_splits)
qed

lemma never_busy_exec [calm_errors]: "never_busy (exec q)"
  unfolding exec_def by (rule never_busy_round_trip)

lemma never_busy_query [calm_errors]: "never_busy (query f)"
  unfolding query_def by (rule never_busy_round_trip)

lemma never_busy_query_row [calm_errors]: "never_busy (query_row f)"
  unfolding query_row_def scan_row_def by (intro calm_errors) (simp_all add: as_overload_def)

lemma as_pg_no_overload: "as_overload (PgErr p) = None"
  by (simp add: as_overload_def)

lemma wrapped_no_overload [calm_errors]: "as_overload e = None \<Longrightarrow> as_overload (wrapped w e) = None"
  by (simp add: as_overload_None wrapped_def)

lemma joined_no_overload [calm_errors]: "as_overload e = None \<Longrightarrow> as_overload e' = None \<Longrightarrow> as_overload (Joined [e, e']) = None"
  by (simp add: as_overload_None ball_Un)

lemma classify_no_overload [calm_errors]: "as_overload x = None \<Longrightarrow> as_overload (classify x e i l) = None"
  by (auto simp: classify_def unbalanced_def leg_err_def as_overload_None split: option.split prod.split)

lemma never_busy_insert_legs [calm_errors]: "never_busy (insert_legs idt e i ls)"
  by (induction ls arbitrary: i) (auto intro!: calm_errors)

lemma never_busy_explain [calm_errors]: "as_overload x = None \<Longrightarrow> never_busy (explain x e)"
  unfolding explain_def by (intro calm_errors) (simp_all add: as_overload_None)

lemma never_busy_post [calm_errors]: "never_busy (post e)"
  unfolding post_def post_inner_def by (intro calm_errors)

lemma never_busy_replay [calm_errors]: "never_busy (replay c)"
  unfolding replay_def by (intro calm_errors) (simp_all add: as_overload_None)

lemma never_busy_undo [calm_errors]: "as_overload e = None \<Longrightarrow> as_overload a = None \<Longrightarrow> never_busy (undo_once e a)"
  unfolding undo_once_def rollback_to_once_def by (intro calm_errors) simp_all

lemma never_busy_once [calm_errors]: "never_busy w \<Longrightarrow> never_busy (once c w)"
  unfolding once_def key_taken_def settle_def release_once_def rollback_to_once_def
  by (intro calm_errors) (auto simp: as_overload_None bad_key_def split: option.split)

lemma never_busy_entry_of [calm_errors]: "never_busy (entry_of idt)"
  unfolding entry_of_def Let_def by (intro calm_errors) (auto simp: as_overload_None)

lemma never_busy_post_and_read: "never_busy (post_and_read c e)"
proof -
  have "never_busy (case p of (held, stored) \<Rightarrow> ret (rec, Some stored))" for p rec
    by (cases p) (simp add: calm_errors)
  then show ?thesis unfolding post_and_read_def by (intro calm_errors)
qed

section \<open>What the ledger answers, branch by branch\<close>

lemma begin_ready:
  assumes "sound d" and "c_faults ci = []" and "c_ids ci 0 \<notin> txn_id ` set (transactions (db_book d))"
  shows "ready (begin_tx False ci d)"
  using assms by (simp add: ready_def begin_tx_def healthy_def sound_def consistent_def)

lemma begin_parts [simp]:
  "work (begin_tx ro ci d) = db_book d" "pending (begin_tx ro ci d) = []" "ctype_of (begin_tx ro ci d) = db_ctype d"
  "fresh_id (begin_tx ro ci d) = c_ids ci 0" "now (begin_tx ro ci d) = c_now ci"
  "next_posting (begin_tx ro ci d) = db_next_posting d" "drawn (begin_tx ro ci d) = 0"
  "uuid_supply (begin_tx ro ci d) = c_ids ci"
  by (simp_all add: begin_tx_def fresh_id_def)

lemma begin_readable: "c_faults ci = [] \<Longrightarrow> readable (begin_tx ro ci d)"
  by (simp add: begin_tx_def readable_def)

lemma rollback_past_post:
  assumes "healthy s"
  shows "\<exists>s'. rollback_to_once (refused_session (reserved c b s) n) = (Inr (), s')"
proof -
  have "post_savepoint \<noteq> once_savepoint" by (simp add: post_savepoint_def once_savepoint_def)
  then show ?thesis
    using healthyD [OF assms]
    by (simp add: rollback_to_once_def attempt_def rollback_healthy refused_session_def reserved_def rollback_to_def
        restore_def snapshot_of_def ret_def)
qed

lemma entry_verdict_cong:
  assumes "accounts b' = accounts b"
  shows "entry_verdict ct b' e = entry_verdict ct b e" "told b' e x at' = told b e x at'"
proof -
  have h: "held_currency b' = held_currency b"
    by (rule ext) (simp add: held_currency_def account_with_code_cong [OF assms])
  show "told b' e x at' = told b e x at'" unfolding told_def h ..
qed (simp add: entry_verdict_def leg_verdict_cong [OF assms])

lemma once_refused:
  assumes "ready s" and "pending s = []" and "key_fit s c" and "key_with (work s) (cl_key c) = None"
    and "entry_verdict (ctype_of s) (work s) e = Some (x, at')"
  shows "\<exists>err s'. once c (post e) s = (Inl err, s') \<and> tells err x (told (work s) e x at')"
proof -
  define b where "b = (work s)\<lparr>idempotency_keys := idempotency_keys (work s) @ [key_row_for s c None]\<rparr>"
  have "cl_key c \<notin> key_key ` set (idempotency_keys (work s))" using assms(4) by (simp add: key_with_None)
  then have ins: "insert_key (ctype_of s) (now s) (cl_key c) (cl_hash c) (work s) = Inr b"
    using assms(3) by (simp add: insert_key_def key_fit_def b_def key_row_for_def)
  let ?s1 = "reserved c b s"
  have h: "healthy s" using assms(1) by (simp add: ready_def)
  have r1: "ready ?s1" by (rule reserved_ready [OF assms(1,2) ins])
  have "entry_verdict (ctype_of ?s1) (work ?s1) e = Some (x, at')" "told (work ?s1) e x at' = told (work s) e x at'"
    using assms(5) entry_verdict_cong [of b "work s"] by (simp_all add: reserved_def b_def)
  then obtain err n where p: "post e ?s1 = (Inl err, refused_session ?s1 n)" "tells err x (told (work s) e x at')"
    using post_refused [OF r1] by metis
  obtain s' where "rollback_to_once (refused_session ?s1 n) = (Inr (), s')" using rollback_past_post [OF h] by blast
  with once_key_reserved [OF h ins, of "post e"] p show ?thesis
    by (simp add: attempt_def undo_once_def fail_def)
qed

definition entry_held :: "book \<Rightarrow> transaction_row \<Rightarrow> entry" where
  "entry_held b t = \<lparr>en_currency = txn_currency t, en_description = txn_description t,
     en_legs = legs_joined b (txn_id t), en_occurred = txn_occurred t\<rparr>"

lemma entry_of_held:
  assumes "readable s" and "distinct (map txn_id (transactions (work s)))" and "t \<in> set (transactions (work s))"
    and "text_ok idt" and "uuid_in idt = Some (txn_id t)"
  shows "entry_of idt s = (Inr (uuid_out (txn_id t), entry_held (work s) t), s)"
  using find_map_inj_key [OF assms(2,3)] assms(4,5)
  by (simp add: entry_of_def attempt_def query_row_readable [OF assms(1)] query_readable [OF assms(1)] transaction_query_def
      legs_query_def uuid_in_fresh Let_def ret_def entry_held_def)

lemma post_and_read_refused:
  "once c (post e) s = (Inl err, s') \<Longrightarrow> post_and_read c e s = (Inl err, s')"
  by (simp add: post_and_read_def attempt_def fail_def)

lemma post_and_read_first:
  "once c (post e) s = (Inr rec, s') \<Longrightarrow> \<not> rc_replayed rec \<Longrightarrow> post_and_read c e s = (Inr (rec, None), s')"
  by (simp add: post_and_read_def attempt_def ret_def)

lemma post_and_read_replayed:
  assumes "once c (post e) s = (Inr \<lparr>rc_key = k, rc_transaction = uuid_out (txn_id t), rc_replayed = True\<rparr>, s)"
    and "readable s" and "distinct (map txn_id (transactions (work s)))" and "t \<in> set (transactions (work s))"
  shows "post_and_read c e s =
    (Inr (\<lparr>rc_key = k, rc_transaction = uuid_out (txn_id t), rc_replayed = True\<rparr>, Some (entry_held (work s) t)), s)"
  using assms(1) entry_of_held [OF assms(2-4) text_ok_uuid_out uuid_in_fresh]
  by (simp add: post_and_read_def attempt_def ret_def)

section \<open>What a refusal is answered with\<close>

definition verdict_sentinels :: "sentinel set" where
  "verdict_sentinels = {ErrUnbalanced, ErrUnknownAccount, ErrCurrencyMismatch, ErrRejected}"

lemma entry_verdict_sentinel: "entry_verdict ct b e = Some (x, at') \<Longrightarrow> x \<in> verdict_sentinels"
proof -
  have "leg_verdict b cur ls = Some (i, y) \<Longrightarrow> y \<in> verdict_sentinels" for cur ls i y
    by (induction ls arbitrary: i) (auto simp: Let_def verdict_sentinels_def split: if_splits option.splits)
  then show "entry_verdict ct b e = Some (x, at') \<Longrightarrow> ?thesis"
    by (auto simp: entry_verdict_def verdict_sentinels_def split: if_splits option.splits)
qed

lemma told_not_reached:
  assumes "as_overload err = None" and "\<And>z. errors_is err z \<longleftrightarrow> z = x" and "x \<notin> {Canceled, DeadlineExceeded, ErrBadConn}"
  shows "not_reached lib err = None"
  using assms by (auto simp: not_reached_def cancelled_def)

text \<open>The answer to an entry the contract refuses, for the reason \<open>x\<close> and the leg \<open>l\<close> it names.\<close>

definition refusal_says :: "transaction_request \<Rightarrow> sentinel \<Rightarrow> leg_fields option \<Rightarrow> reply \<Rightarrow> bool" where
  "refusal_says req x l a \<longleftrightarrow>
     rp_status a = 422 \<and>
     (if x = ErrUnbalanced then
        (\<exists>u. rp_body a = Unbalanced u \<and> big (ub_net u) = sum_list (map (sint \<circ> pb_amount) (legs_sent req)) \<and>
           ub_postings u = int (length (legs_sent req)))
      else (\<exists>b. rp_body a = Refused b \<and> eb_see b = docs_home \<and>
        (\<forall>f. l = Some f \<longrightarrow> eb_parameter b = ''postings['' @ itoa (lf_index f) @ '']'' \<and> eb_code b = shown (lf_account f)) \<and>
        (x = ErrUnknownAccount \<longrightarrow> eb_error b = ''no such account'') \<and>
        (x = ErrCurrencyMismatch \<longrightarrow> eb_value b = shown (rq_currency req) \<and>
           (\<forall>f. l = Some f \<longrightarrow> lf_holds f \<noteq> '''' \<longrightarrow> eb_valid b = [lf_holds f]))))"

lemma bound_frame [simp]:
  "eb_parameter (bound b f v) = eb_parameter b" "eb_code (bound b f v) = eb_code b" "eb_see (bound b f v) = eb_see b"
  "eb_value (bound b f v) = eb_value b" "eb_error (bound b f v) = eb_error b" "eb_valid (bound b f v) = eb_valid b"
  by (simp_all add: bound_def split: option.split prod.split)

lemma refuse_transaction_says:
  assumes "as_overload err = None" and "tells err x l" and "x \<in> verdict_sentinels"
  shows "refusal_says req x l (refuse_transaction lib err req key)"
proof -
  have this_one: "\<And>z. errors_is err z \<longleftrightarrow> z = x" and l: "as_leg err = l" using assms(2) by (auto simp: tells_def)
  have n: "not_reached lib err = None"
    by (rule told_not_reached [OF assms(1) this_one]) (use assms(3) in \<open>auto simp: verdict_sentinels_def\<close>)
  show ?thesis
    using assms(3)
    by (auto simp: refuse_transaction_def n this_one l Let_def refusal_says_def verdict_sentinels_def error_body0_def
        request_net_def comp_def split: option.splits)
qed

section \<open>Branch by branch over the wire\<close>

lemma write_refused:
  assumes "asks lib r req c" and "post_and_read c (entry_from req) (begin_tx False ci d) = (Inl err, s')"
  shows "fst (post_transaction lib acquire (calm_lending ci) r d) = refuse_transaction lib err req (cl_key c)"
    and "db_book (snd (post_transaction lib acquire (calm_lending ci) r d)) = db_book d"
    and "as_overload err = None"
  using assms(2) never_busy_post_and_read [of c "entry_from req"]
  by (auto simp: post_transaction_asks [OF assms(1)] write_tx_calm never_busy_def)

lemma write_done:
  assumes "asks lib r req c" and "post_and_read c (entry_from req) (begin_tx False ci d) = (Inr (rec, stored), s')"
    and "healthy s'" and "pending s' = []"
  shows "fst (post_transaction lib acquire (calm_lending ci) r d) = posted_reply req rec stored"
    and "db_book (snd (post_transaction lib acquire (calm_lending ci) r d)) = work s'"
  using assms(2)
  by (simp_all add: post_transaction_asks [OF assms(1)] write_tx_calm commit_quiet [OF assms(3,4)])

lemma begin_healthy: "c_faults ci = [] \<Longrightarrow> healthy (begin_tx False ci d)"
  by (simp add: begin_tx_def healthy_def)

lemma post_bad_key:
  assumes "asks lib r req c" and "c_faults ci = []" and "\<not> key_fit (begin_tx False ci d) c"
    and "post_transaction lib acquire (calm_lending ci) r d = (a, d')"
  shows "rp_status a = 422 \<and> db_book d' = db_book d"
proof -
  let ?s = "begin_tx False ci d"
  have "\<exists>p. insert_key (ctype_of ?s) (now ?s) (cl_key c) (cl_hash c) (work ?s) = Inl p \<and> pg_code p \<noteq> ''23505''"
    using assms(3) by (simp add: key_fit_def insert_key_def server_refusal_def check_violation_def)
  then obtain p where p: "insert_key (ctype_of ?s) (now ?s) (cl_key c) (cl_hash c) (work ?s) = Inl p" "pg_code p \<noteq> ''23505''"
    by blast
  have "once c (post (entry_from req)) ?s = (Inl (bad_key (PgErr p) c), marked ?s)"
    using once_key_refused [OF begin_healthy [OF assms(2)] p(1)] p(2) by (simp add: fail_def)
  note w = write_refused [OF assms(1) post_and_read_refused [OF this]]
  have "errors_is (bad_key (PgErr p) c) z \<longleftrightarrow> z = ErrBadKey" for z
    by (auto simp: bad_key_def errors_is_def as_pg_def)
  with told_not_reached [OF w(3), of ErrBadKey lib] w(1,2) [of acquire] assms(4) show ?thesis
    by (simp add: refuse_transaction_def Let_def)
qed

lemma post_held_key:
  assumes "sound d" and "asks lib r req c" and "c_faults ci = []" and "key_fit (begin_tx False ci d) c"
    and "key_with (db_book d) (cl_key c) = Some k"
    and "post_transaction lib acquire (calm_lending ci) r d = (a, d')"
  shows "db_book d' = db_book d \<and>
    (if key_hash k = cl_hash c
     then rp_status a = 201 \<and> (replayed_header, ''true'') \<in> set (rp_headers a) \<and>
       (\<exists>t \<in> set (transactions (db_book d)). key_txn k = Some (txn_id t) \<and>
          rp_body a = TransactionIs (entry_body (uuid_out (txn_id t)) (entry_held (db_book d) t)))
     else rp_status a = 409)"
proof -
  let ?s = "begin_tx False ci d"
  have con: "consistent (db_ctype d) (db_book d)" using assms(1) by (simp add: sound_def)
  note wf = consistentD(1) [OF con]
  have "key_txn k \<noteq> None" using con key_withD [OF assms(5)] by (auto simp: consistent_def)
  then obtain u where u: "key_txn k = Some u" by blast
  then obtain t where t: "t \<in> set (transactions (db_book d))" "u = txn_id t"
    using named_transaction [OF con assms(5)] by blast
  have len: "length (cl_hash c) = 32" and tk: "text_ok (cl_key c)" using assms(4) by (simp_all add: key_fit_def)
  note held = once_held [OF begin_healthy [OF assms(3)] _ len tk, of d k u "post (entry_from req)"]
  show ?thesis
  proof (cases "key_hash k = cl_hash c")
    case True
    then have o1: "once c (post (entry_from req)) ?s =
        (Inr \<lparr>rc_key = cl_key c, rc_transaction = uuid_out (txn_id t), rc_replayed = True\<rparr>, ?s)"
      using held wf assms(5) u t(2) by simp
    have "post_and_read c (entry_from req) ?s =
        (Inr (\<lparr>rc_key = cl_key c, rc_transaction = uuid_out (txn_id t), rc_replayed = True\<rparr>, Some (entry_held (db_book d) t)), ?s)"
      using post_and_read_replayed [OF o1 begin_readable [OF assms(3)]] wf_bookD(3) [OF wf] t(1) by simp
    from write_done [OF assms(2) this begin_healthy [OF assms(3)], of acquire] assms(6) True u t show ?thesis
      by (auto simp: posted_reply_def Let_def write_reply_def)
  next
    case False
    let ?e = "Errorf [Cause (Sentinel ErrKeyReused), Txt '': '', Quo (shown (cl_key c))]"
    have o1: "once c (post (entry_from req)) ?s = (Inl ?e, ?s)" using held wf assms(5) u False by simp
    note w = write_refused [OF assms(2) post_and_read_refused [OF o1]]
    have "errors_is ?e z \<longleftrightarrow> z = ErrKeyReused" for z by (auto simp: errors_is_def)
    with told_not_reached [OF w(3), of ErrKeyReused lib] w(1,2) [of acquire] assms(6) False show ?thesis
      by (simp add: refuse_transaction_def Let_def)
  qed
qed

lemma post_new_key:
  assumes "sound d" and "asks lib r req c" and "c_faults ci = []" and "key_fit (begin_tx False ci d) c"
    and "key_with (db_book d) (cl_key c) = None" and "c_ids ci 0 \<notin> txn_id ` set (transactions (db_book d))"
    and "post_transaction lib acquire (calm_lending ci) r d = (a, d')"
  shows "case entry_verdict (db_ctype d) (db_book d) (entry_from req) of
      None \<Rightarrow> rp_status a = 201 \<and>
        rp_headers a = rp_headers (posted_reply req \<lparr>rc_key = cl_key c, rc_transaction = uuid_out (c_ids ci 0), rc_replayed = False\<rparr> None) \<and>
        rp_body a = TransactionIs \<lparr>tb_transaction = uuid_out (c_ids ci 0), tb_currency = rq_currency req,
          tb_description = rq_description req, tb_postings = legs_sent req\<rparr> \<and>
        db_book d' = (posted_book (db_book d) (c_ids ci 0) (c_now ci) (db_next_posting d) (entry_from req))
          \<lparr>idempotency_keys := idempotency_keys (db_book d) @ [\<lparr>key_key = cl_key c, key_hash = cl_hash c,
             key_txn = Some (c_ids ci 0), key_created = c_now ci\<rparr>]\<rparr>
    | Some (x, at') \<Rightarrow> refusal_says req x (told (db_book d) (entry_from req) x at') a \<and> db_book d' = db_book d"
proof -
  let ?s = "begin_tx False ci d"
  note r1 = begin_ready [OF assms(1,3,6)]
  have k: "key_with (work ?s) (cl_key c) = None" using assms(5) by simp
  show ?thesis
  proof (cases "entry_verdict (db_ctype d) (db_book d) (entry_from req)")
    case None
    then have acc: "accepted ?s (entry_from req)" by (simp add: accepted_def)
    obtain s' where s': "once c (post (entry_from req)) ?s =
        (Inr \<lparr>rc_key = cl_key c, rc_transaction = uuid_out (c_ids ci 0), rc_replayed = False\<rparr>, s')"
      "work s' = (posted_book (db_book d) (c_ids ci 0) (c_now ci) (db_next_posting d) (entry_from req))
        \<lparr>idempotency_keys := idempotency_keys (db_book d) @ [key_row_for ?s c (Some (c_ids ci 0))]\<rparr>"
      "pending s' = []" "healthy s'"
      using once_first [OF r1 _ assms(4) k acc] by auto
    have "post_and_read c (entry_from req) ?s =
        (Inr (\<lparr>rc_key = cl_key c, rc_transaction = uuid_out (c_ids ci 0), rc_replayed = False\<rparr>, None), s')"
      by (rule post_and_read_first [OF s'(1)]) simp
    from write_done [OF assms(2) this s'(4,3), of acquire] assms(7) None s'(2) show ?thesis
      by (simp add: posted_reply_def Let_def key_row_for_def)
  next
    case (Some p)
    obtain x at' where p: "p = (x, at')" by (cases p)
    have "entry_verdict (ctype_of ?s) (work ?s) (entry_from req) = Some (x, at')" using Some p by simp
    from once_refused [OF r1 _ assms(4) k this] obtain err s' where
      e: "once c (post (entry_from req)) ?s = (Inl err, s')" "tells err x (told (db_book d) (entry_from req) x at')"
      by auto
    note w = write_refused [OF assms(2) post_and_read_refused [OF e(1)]]
    have "refusal_says req x (told (db_book d) (entry_from req) x at') (refuse_transaction lib err req (cl_key c))"
      by (rule refuse_transaction_says [OF w(3) e(2) entry_verdict_sentinel]) (use Some p in simp)
    with w(1,2) [of acquire] assms(7) Some p show ?thesis by simp
  qed
qed

section \<open>Properties\<close>


definition sample_post :: http_request where
  "sample_post = \<lparr>hr_header = json_headers, hr_body = OneValue sample_body, hr_path = '''', hr_query = ''''\<rparr>"

lemma sample_post_asks: "asks sample_library sample_post sample_transaction (sample_claim CHR ''h'')"
proof -
  have "decode sample_library transaction_type max_transaction_body (OneValue sample_body) = Inr (value_of_transaction sample_transaction)"
    by code_simp
  moreover have "declared_json sample_library sample_post = None"
    by (simp add: declared_json_def sample_post_def sample_library_def json_headers_def)
  moreover have "json_headers key_header = sample_key" by (simp add: json_headers_def key_header_def)
  moreover have "sample_key \<noteq> ''''" by (simp add: sample_key_def)
  moreover have "length (legs_sent sample_transaction) \<le> max_postings"
    by (simp add: legs_sent_def sample_transaction_def max_postings_def)
  moreover have "claim_of sample_library sample_key sample_transaction = Some (sample_claim CHR ''h'')"
    by (simp add: claim_of_def canonical_def sample_library_def sample_claim_def)
  ultimately show ?thesis by (simp add: asks_def sample_post_def transaction_from_value)
qed

lemma sample_setting:
  "key_fit (begin_tx False quiet (database_of sample_book)) (sample_claim CHR ''h'')"
  "key_with (db_book (database_of sample_book)) (cl_key (sample_claim CHR ''h'')) = None"
  "entry_verdict (db_ctype (database_of sample_book)) (db_book (database_of sample_book)) (entry_from sample_transaction) = None"
  "c_faults quiet = []" "c_ids quiet 0 \<notin> txn_id ` set (transactions (db_book (database_of sample_book)))"
  unfolding key_fit_def begin_parts by code_simp+

text \<open>The first POST of the sample request, and what it leaves.\<close>

definition sample_posted :: "reply \<times> database" where
  "sample_posted = post_transaction sample_library 0 (calm_lending quiet) sample_post (database_of sample_book)"



lemma sample_posted_status: "rp_status (fst sample_posted) = 201"
proof -
  have "post_transaction sample_library 0 (calm_lending quiet) sample_post (database_of sample_book) =
      (fst sample_posted, snd sample_posted)" by (simp add: sample_posted_def)
  from post_new_key [OF sample_sound sample_post_asks sample_setting(4,1,2,5) this] sample_setting(3)
  show ?thesis by simp
qed


end
