(* ===== verification/Retries.thy ===== *)
theory Retries
  imports Verdicts
begin

text \<open>
  What a client may count on across requests: a retry is answered as its first sending was, and a
  transaction posted is the one served from then on.
\<close>

section \<open>An entry stays what it was\<close>

lemma accounts_of_prefix:
  assumes "prefix as bs" and "distinct (map acc_id bs)" and "a \<in> set as" and "acc_id a = i"
  shows "filter (\<lambda>x. acc_id x = i) bs = filter (\<lambda>x. acc_id x = i) as"
proof -
  obtain cs where cs: "bs = as @ cs" using assms(1) by (auto simp: prefix_def)
  have "acc_id x \<noteq> i" if "x \<in> set cs" for x
    using assms(2-4) that by (auto simp: cs)
  then show ?thesis by (simp add: cs filter_empty_conv)
qed

lemma legs_joined_extends:
  assumes "extends b b'" and "wf_book ct b" and "wf_book ct b'" and "legs_of b' u = legs_of b u"
  shows "legs_joined b' u = legs_joined b u"
proof -
  have "filter (\<lambda>a. acc_id a = pst_account p) (accounts b') = filter (\<lambda>a. acc_id a = pst_account p) (accounts b)"
    if "p \<in> set (legs_of b u)" for p
  proof -
    have "p \<in> set (postings b)" using that by (simp add: legs_of_def)
    then obtain a where "a \<in> set (accounts b)" "acc_id a = pst_account p"
      using posting_account [OF assms(2)] by blast
    then show ?thesis
      using assms(1) wf_bookD(1) [OF assms(3)] by (intro accounts_of_prefix) (auto simp: extends_def)
  qed
  then show ?thesis
    unfolding legs_joined_def assms(4) concat_if_filter by (intro arg_cong [where f = concat] map_cong) simp_all
qed

lemma entry_held_extends:
  assumes "onward leaves_the_queue d d'" and "sound d" and "legs_of (db_book d') (txn_id t) = legs_of (db_book d) (txn_id t)"
  shows "entry_held (db_book d') t = entry_held (db_book d) t"
proof -
  have "sound d'" by (rule onward_sound [OF assms(1,2)])
  then have "wf_book (db_ctype d) (db_book d')" "wf_book (db_ctype d) (db_book d)"
    using assms(2) onward_ctype [OF assms(1)] by (simp_all add: sound_def consistent_def)
  from legs_joined_extends [OF onward_extends [OF assms(1)] this(2,1) assms(3)] show ?thesis
    by (simp add: entry_held_def)
qed

lemma transactions_kept:
  "onward A d d' \<Longrightarrow> t \<in> set (transactions (db_book d)) \<Longrightarrow> t \<in> set (transactions (db_book d'))"
  using onward_extends [of A d d'] by (auto simp: extends_def prefix_def)

section \<open>Serving an entry\<close>

lemma get_transaction_held:
  assumes "sound d" and "c_faults ci = []" and "t \<in> set (transactions (db_book d))" and "hr_path r = uuid_out (txn_id t)"
  shows "fst (get_transaction lib acquire (calm_lending ci) r d) =
    write_reply [] 200 (TransactionIs (entry_body (uuid_out (txn_id t)) (entry_held (db_book d) t)))"
proof -
  have "distinct (map txn_id (transactions (db_book d)))"
    using assms(1) wf_bookD(3) by (auto simp: sound_def consistent_def)
  then have "entry_of (uuid_out (txn_id t)) (begin_tx True ci d) =
      (Inr (uuid_out (txn_id t), entry_held (db_book d) t), begin_tx True ci d)"
    using entry_of_held [OF begin_readable [OF assms(2)], of True d t "uuid_out (txn_id t)"] assms(3)
    by (simp add: text_ok_uuid_out uuid_in_fresh)
  then show ?thesis by (simp add: get_transaction_def Let_def assms(4) read_tx_calm)
qed

lemma posted_entry_held:
  fixes n :: nat and t :: int and ks :: "key_row list"
  assumes "wf_book ct b" and "entry_verdict ct b e = None" and "u \<notin> txn_id ` set (transactions b)"
  defines "b' \<equiv> (posted_book b u t n e)\<lparr>idempotency_keys := ks\<rparr>"
  shows "transaction_of u t e \<in> set (transactions b')"
    and "entry_held b' (transaction_of u t e) = e\<lparr>en_occurred := txn_occurred (transaction_of u t e)\<rparr>"
proof -
  have v: "leg_verdict b (en_currency e) (en_legs e) = None"
    using assms(2) by (auto simp: entry_verdict_def split: if_splits option.splits)
  have "legs_of b' u = postings_for b u t n (en_legs e)"
    using no_postings_yet [OF assms(1,3)] postings_for_shape [OF v, of u t n]
    by (simp add: b'_def posted_book_def legs_of_def filter_id_conv)
  from legs_joined_posted [OF wf_bookD(1) [OF assms(1)] v this]
  have "legs_joined b' u = en_legs e" by (simp add: b'_def posted_book_def)
  then show "entry_held b' (transaction_of u t e) = e\<lparr>en_occurred := txn_occurred (transaction_of u t e)\<rparr>"
    by (simp add: entry_held_def transaction_of_def)
  show "transaction_of u t e \<in> set (transactions b')" by (simp add: b'_def posted_book_def)
qed

text \<open>What a 201 answered with is what the book holds.\<close>

lemma created_body:
  assumes "sound d" and "asks lib r req c" and "c_faults ci = []" and "c_ids ci 0 \<notin> txn_id ` set (transactions (db_book d))"
    and "post_transaction lib acquire (calm_lending ci) r d = (a, d')" and "rp_status a = 201"
  shows "\<exists>t \<in> set (transactions (db_book d')).
    rp_body a = TransactionIs (entry_body (uuid_out (txn_id t)) (entry_held (db_book d') t))"
proof (cases "key_fit (begin_tx False ci d) c")
  case False
  with post_bad_key [OF assms(2,3) _ assms(5)] assms(6) show ?thesis by simp
next
  case fit: True
  show ?thesis
  proof (cases "key_with (db_book d) (cl_key c)")
    case (Some k)
    with post_held_key [OF assms(1-3) fit Some assms(5)] assms(6) show ?thesis by (auto split: if_splits)
  next
    case None
    note new = post_new_key [OF assms(1-3) fit None assms(4,5)]
    have v: "entry_verdict (db_ctype d) (db_book d) (entry_from req) = None"
    proof (rule ccontr)
      assume "entry_verdict (db_ctype d) (db_book d) (entry_from req) \<noteq> None"
      with new assms(6) show False by (auto simp: refusal_says_def)
    qed
    have "wf_book (db_ctype d) (db_book d)" using assms(1) by (simp add: sound_def consistent_def)
    note held = posted_entry_held [OF this v assms(4)]
    let ?t = "transaction_of (c_ids ci 0) (c_now ci) (entry_from req)"
    have legs: "map (\<lambda>l. \<lparr>pb_account = lg_account l, pb_amount = lg_amount l\<rparr>) (en_legs (entry_from req)) = legs_sent req"
      by (simp add: entry_from_def comp_def map_idI)
    from new v have "db_book d' = (posted_book (db_book d) (c_ids ci 0) (c_now ci) (db_next_posting d) (entry_from req))
            \<lparr>idempotency_keys := idempotency_keys (db_book d) @ [\<lparr>key_key = cl_key c, key_hash = cl_hash c,
               key_txn = Some (c_ids ci 0), key_created = c_now ci\<rparr>]\<rparr>"
      and body: "rp_body a = TransactionIs \<lparr>tb_transaction = uuid_out (c_ids ci 0), tb_currency = rq_currency req,
            tb_description = rq_description req, tb_postings = legs_sent req\<rparr>" by simp_all
    then have "?t \<in> set (transactions (db_book d'))"
      and "entry_held (db_book d') ?t = (entry_from req)\<lparr>en_occurred := txn_occurred ?t\<rparr>"
      using held by simp_all
    moreover have "entry_body (uuid_out (txn_id ?t)) ((entry_from req)\<lparr>en_occurred := txn_occurred ?t\<rparr>) =
        \<lparr>tb_transaction = uuid_out (c_ids ci 0), tb_currency = rq_currency req, tb_description = rq_description req,
         tb_postings = legs_sent req\<rparr>"
      using legs by (simp add: entry_body_def transaction_of_def) (simp add: entry_from_def)
    ultimately show ?thesis using body by metis
  qed
qed

section \<open>Sending a request again\<close>

lemma post_keeps_sound:
  assumes "sound d" and "asks lib r req c" and "post_transaction lib acquire l r d = (a, d')"
  shows "sound d'"
proof -
  have "snd (write_tx acquire l (post_and_read c (entry_from req)) d) = d'"
    using post_transaction_asks [OF assms(2), of acquire l d] assms(3) by (auto split: prod.splits sum.splits)
  with pool_write.stays_sound [OF via_post_and_read assms(1)] show ?thesis by metis
qed

lemma made_names:
  assumes "asks lib r req c" and "post_transaction lib acquire l r d = (a, d')"
    and "rp_status a = 201 \<or> db_book d' \<noteq> db_book d"
  shows "\<exists>k. names (cl_key c) k (db_book d') \<and> key_hash k = cl_hash c \<and> text_ok (cl_key c)"
proof -
  obtain x d1 where x: "write_tx acquire l (post_and_read c (entry_from req)) d = (x, d1)"
    by (cases "write_tx acquire l (post_and_read c (entry_from req)) d")
  have d1: "d1 = d'" using post_transaction_asks [OF assms(1), of acquire l d] assms(2) x
    by (cases x) (auto split: prod.splits)
  show ?thesis
  proof (cases x)
    case (Inr p)
    then show ?thesis using write_tx_names [of acquire l c "entry_from req" d] x d1 by (cases p) blast
  next
    case (Inl e)
    have "rp_status a \<noteq> 201"
      using post_transaction_asks [OF assms(1), of acquire l d] assms(2) x Inl refuse_transaction_status [of lib e req "cl_key c"]
      by auto
    with assms(3) have "db_book d' \<noteq> db_book d" by simp
    with write_tx_Inl [OF x [unfolded Inl d1]] obtain y c' s b where
      s: "post_and_read c (entry_from req) (begin_tx False (ln_tx l) d) = (Inr y, s)" "commit s = (Inl (Sentinel c'), Some b)"
        "d' = d\<lparr>db_book := b, db_next_posting := next_posting s\<rparr>" by blast
    obtain rec stored where "y = (rec, stored)" by (cases y)
    then obtain s1 where s1: "once c (post (entry_from req)) (begin_tx False (ln_tx l) d) = (Inr rec, s1)" "work s = work s1"
      using post_and_read_Inr s(1) by blast
    obtain k u where k: "names (cl_key c) k (work s1)" "key_hash k = cl_hash c" "text_ok (cl_key c)"
      using post_writer.key_of_success [OF s1(1)] by blast
    have "names (cl_key c) k b" using key_law.commit_law [OF _ s(2)] k(1) s1(2) by simp
    with k s(3) show ?thesis by auto
  qed
qed

section \<open>Properties\<close>





end
