(* ===== verification/Listings.thy ===== *)
theory Listings
  imports Retries
begin

text \<open>
  What GET /v1/accounts, GET /v1/accounts/{code} and POST /v1/accounts answer when nothing goes
  wrong on the way: pages that, followed by their links, are the whole list; a balance that is the
  exact sum or a 404; an account opened or the reason it is not.
\<close>

section \<open>The query of a page\<close>

definition page_query :: "account_filter \<Rightarrow> int \<Rightarrow> query_values" where
  "page_query f page =
     (if af_currency f \<noteq> '''' then [(''currency'', af_currency f)] else []) @
     (if af_kind f \<noteq> '''' then [(''kind'', af_kind f)] else []) @
     [(''limit'', itoa page)] @
     (if af_after f \<noteq> '''' then [(''after'', af_after f)] else [])"

lemma next_page_is_a_page:
  "c \<noteq> '''' \<Longrightarrow> next_page_query f page c = page_query (f\<lparr>af_after := c\<rparr>) page"
  by (simp add: next_page_query_def page_query_def)

lemma map_of_sorted:
  assumes "distinct (map fst q)"
  shows "map_of (sort_by by_name q) = map_of q"
proof -
  have "distinct (map fst (sort_by by_name q))" using assms by simp
  from map_of_inject_set [OF this assms] show ?thesis by simp
qed

lemma page_query_gets:
  "distinct (map fst (page_query f page))"
  "query_get (page_query f page) ''currency'' = af_currency f" "query_get (page_query f page) ''kind'' = af_kind f"
  "query_get (page_query f page) ''limit'' = itoa page" "query_get (page_query f page) ''after'' = af_after f"
  by (auto simp: page_query_def query_get_def)

lemma sorted_gets: "query_get (sort_by by_name (page_query f page)) name = query_get (page_query f page) name"
  by (simp add: query_get_def map_of_sorted page_query_gets)

lemma page_query_known: "unknown_parameters (sort_by by_name (page_query f page)) = []"
proof -
  have "fst ` set (page_query f page) \<subseteq> set accounts_query" by (auto simp: page_query_def accounts_query_def)
  then have "filter (\<lambda>name. name \<notin> set accounts_query) (remdups (map fst (sort_by by_name (page_query f page)))) = []"
    by (auto simp: filter_empty_conv)
  then show ?thesis by (simp add: unknown_parameters_def)
qed

lemma itoa_nonempty [simp]: "itoa n \<noteq> []"
  by (simp add: itoa_def)

lemma page_size_itoa:
  assumes "q = page_query f page" and "1 \<le> page" and "page \<le> max_page"
  shows "page_size (sort_by by_name q) = Inr page"
proof -
  have "parse_int64 (itoa page) = Some (word_of_int page)"
    using assms(2,3) by (simp add: parse_int64_def set_string_itoa max_page_def)
  moreover have "sint (word_of_int page :: int64) = page"
    using assms(2,3) by (simp add: max_page_def signed_of_int signed_take_bit_int_eq_self)
  ultimately show ?thesis
    using assms(2,3) by (simp add: page_size_def Let_def sorted_gets page_query_gets assms(1))
qed

section \<open>One page\<close>

lemma list_accounts_page:
  assumes "c_faults ci = []" and "1 \<le> page" and "page \<le> max_page" and "hr_query r = encode_query (page_query f page)"
    and "text_ok (af_currency f)" and "text_ok (af_after f)" and "af_kind f = '''' \<or> kind_in (af_kind f) \<noteq> None"
  shows "fst (list_accounts lib acquire (calm_lending ci) r d) =
    accounts_reply (f\<lparr>af_limit := page + 1\<rparr>) page
      (map balance_for (take (nat (page + 1)) (sorted_rows (db_ctype d) f (db_book d))))"
proof -
  let ?f = "f\<lparr>af_limit := page + 1\<rparr>"
  have f: "\<lparr>af_currency = af_currency f, af_kind = af_kind f, af_after = af_after f, af_limit = page + 1\<rparr> = ?f"
    by simp
  have rows: "list_rows (db_ctype d) ?f (db_book d) = take (nat (page + 1)) (sorted_rows (db_ctype d) f (db_book d))"
  proof -
    have "matches ct ?f = matches ct f" for ct by (rule ext) (simp add: matches_def)
    then show ?thesis using assms(2) by (simp add: list_rows_def limit_rows_def sorted_rows_def)
  qed
  have "balances ?f (begin_tx True ci d) = (Inr (map balance_for (list_rows (db_ctype d) ?f (db_book d))), begin_tx True ci d)"
    using balances_readable [OF begin_readable [OF assms(1)], of ?f True d] assms(5-7) by simp
  then show ?thesis
    by (simp add: list_accounts_def assms(4) parse_encode page_query_known page_size_itoa [OF refl assms(2,3)]
        sorted_gets page_query_gets Let_def f read_tx_calm rows)
qed

section \<open>Following the links\<close>

definition page_path :: gostr where
  "page_path = ''/v1/accounts?''"

text \<open>A client that asks for a page and goes on to the next for as long as there is one.\<close>

fun walk :: "nat \<Rightarrow> library \<Rightarrow> int \<Rightarrow> circumstances \<Rightarrow> database \<Rightarrow> http_request \<Rightarrow> balance_body list" where
  "walk 0 lib acquire ci d r = []"
| "walk (Suc n) lib acquire ci d r =
     (case rp_body (fst (list_accounts lib acquire (calm_lending ci) r d)) of
        AccountsAre al \<Rightarrow> al_accounts al @
          (if al_next al = '''' then []
           else walk n lib acquire ci d (r\<lparr>hr_query := drop (length page_path) (al_next al)\<rparr>))
      | _ \<Rightarrow> [])"

definition listed :: "database \<Rightarrow> account_filter \<Rightarrow> balance_body list" where
  "listed d f = map (balance_body_of \<circ> balance_for) (sorted_rows (db_ctype d) f (db_book d))"

lemma accounts_reply_last:
  "length rows \<le> nat page \<Longrightarrow> 1 \<le> page \<Longrightarrow> accounts_reply f page rows =
     write_reply [] 200 (AccountsAre \<lparr>al_accounts = map balance_body_of rows, al_next = ''''\<rparr>)"
  by (simp add: accounts_reply_def Let_def)

lemma accounts_reply_more:
  assumes "1 \<le> page" and "nat page < length rows"
  shows "accounts_reply f page rows =
    write_reply [] 200 (AccountsAre \<lparr>al_accounts = map balance_body_of (take (nat page) rows),
      al_next = next_page f page (bl_account (rows ! (nat page - 1)))\<rparr>)"
proof -
  have "int (length rows) > page" "length (take (nat page) rows) = nat page" "nat page - 1 < nat page"
    using assms by simp_all
  then show ?thesis by (simp add: accounts_reply_def Let_def)
qed

lemma row_code:
  assumes "wf_book ct b" and "row \<in> set (sorted_rows ct f b)"
  shows "code_check (acc_code (bal_account row))"
proof -
  have "row \<in> set (account_balances b)" using assms(2) by (simp add: set_sorted_rows)
  then have "acc_code (bal_account row) \<in> acc_code ` set (accounts b)"
    using codes_account_balances [of b] by (metis comp_apply image_set image_eqI list.set_map)
  then show ?thesis using wf_bookD(5) [OF assms(1)] by (auto simp: account_fine_def)
qed

lemma walk_page:
  assumes "sound d" and "linear_le (collate_le (db_ctype d))" and "c_faults ci = []" and "1 \<le> page" and "page \<le> max_page"
    and "text_ok (af_currency f)" and "text_ok (af_after f)" and "af_kind f = '''' \<or> kind_in (af_kind f) \<noteq> None"
    and "length (sorted_rows (db_ctype d) f (db_book d)) \<le> n"
  shows "walk (Suc n) lib acquire ci d (r\<lparr>hr_query := encode_query (page_query f page)\<rparr>) = listed d f"
  using assms(6-9)
proof (induction n arbitrary: f r)
  case 0
  let ?r = "r\<lparr>hr_query := encode_query (page_query f page)\<rparr>"
  have q: "hr_query ?r = encode_query (page_query f page)" by simp
  have "sorted_rows (db_ctype d) f (db_book d) = []" using 0 by simp
  with list_accounts_page [OF assms(3,4,5) q 0(1,2,3), of lib acquire d] assms(4) show ?case
    by (simp add: listed_def accounts_reply_last)
next
  case (Suc n)
  let ?ct = "db_ctype d" and ?b = "db_book d"
  let ?r = "r\<lparr>hr_query := encode_query (page_query f page)\<rparr>"
  let ?rows = "sorted_rows ?ct f ?b"
  have wf: "wf_book ?ct ?b" using assms(1) by (simp add: sound_def consistent_def)
  have q: "hr_query ?r = encode_query (page_query f page)" by simp
  note page1 = list_accounts_page [OF assms(3,4,5) q Suc.prems(1,2,3), of lib acquire d]
  define p where "p = nat page"
  have p: "0 < p" "nat (page + 1) = Suc p" using assms(4) by (simp_all add: p_def)
  show ?case
  proof (cases "length ?rows \<le> p")
    case True
    then have "take (nat (page + 1)) ?rows = ?rows" using p by simp
    with page1 True assms(4) show ?thesis
      by (simp add: listed_def accounts_reply_last p_def)
  next
    case False
    define c where "c = acc_code (bal_account (?rows ! (p - 1)))"
    have code: "code_check c" unfolding c_def
      by (rule row_code [OF wf nth_mem]) (use False p in simp)
    then have c: "c \<noteq> ''''" "text_ok c" by (auto simp: code_check_def runes_def byte_list_def intro: code_text_ok [OF code])
    let ?f = "f\<lparr>af_after := c\<rparr>"
    have rest: "sorted_rows ?ct ?f ?b = drop p ?rows"
      using next_page [OF assms(2) wf p(1), of f] False unfolding c_def by simp
    have kept: "take (nat page) (map balance_for (take (nat (page + 1)) ?rows)) = map balance_for (take p ?rows)"
      by (simp add: take_map p(2) flip: p_def)
    have last_code: "bl_account (map balance_for (take (nat (page + 1)) ?rows) ! (nat page - 1)) = c"
      using False p by (simp add: p(2) c_def balance_for_def flip: p_def)
    have link: "next_page (f\<lparr>af_limit := page + 1\<rparr>) page c = page_path @ encode_query (page_query ?f page)"
      using next_page_is_a_page [OF c(1), of "f\<lparr>af_limit := page + 1\<rparr>" page]
      by (simp add: Endpoints.next_page_def page_path_def page_query_def)
    have "nat page < length (map balance_for (take (nat (page + 1)) ?rows))"
      using False by (simp add: p(2) flip: p_def)
    from page1 [unfolded accounts_reply_more [OF assms(4) this] kept last_code link]
    have "fst (list_accounts lib acquire (calm_lending ci) ?r d) = write_reply [] 200 (AccountsAre
        \<lparr>al_accounts = map balance_body_of (map balance_for (take p ?rows)), al_next = page_path @ encode_query (page_query ?f page)\<rparr>)" .
    then have step: "walk (Suc (Suc n)) lib acquire ci d ?r =
        map balance_body_of (map balance_for (take p ?rows)) @
        walk (Suc n) lib acquire ci d (?r\<lparr>hr_query := encode_query (page_query ?f page)\<rparr>)"
      by (subst walk.simps) (simp add: page_path_def del: walk.simps)
    have "walk (Suc n) lib acquire ci d (?r\<lparr>hr_query := encode_query (page_query ?f page)\<rparr>) = listed d ?f"
    proof (rule Suc.IH)
      show "length (sorted_rows ?ct ?f ?b) \<le> n" using Suc.prems(4) p(1) False by (simp add: rest)
    qed (use Suc.prems c in simp_all)
    then have "walk (Suc (Suc n)) lib acquire ci d ?r =
        map (balance_body_of \<circ> balance_for) (take p ?rows) @ map (balance_body_of \<circ> balance_for) (drop p ?rows)"
      unfolding step listed_def rest by simp
    then show ?thesis by (simp add: listed_def flip: map_append)
  qed
qed

lemma sorted_rows_length: "length (sorted_rows ct f b) \<le> length (accounts b)"
  by (simp add: sorted_rows_def account_balances_def le_trans [OF length_filter_le])

section \<open>Properties\<close>


definition sample_filter :: account_filter where
  "sample_filter = \<lparr>af_currency = ''USD'', af_kind = '''', af_after = '''', af_limit = 0\<rparr>"


section \<open>One account\<close>

lemma bad_text_unclassified:
  "errors_is (Errorf [Txt w, Quo q, Txt x, Cause (PgErr bad_text)]) z \<longleftrightarrow> False"
  "as_overload (Errorf [Txt w, Quo q, Txt x, Cause (PgErr bad_text)]) = None"
  by (auto simp: errors_is_def as_overload_def)

lemma get_balance_unreadable:
  assumes "c_faults ci = []" and "\<not> text_ok (hr_path r)"
  shows "fst (get_balance lib acquire (calm_lending ci) r d) = internal_error"
proof -
  let ?s = "begin_tx True ci d" and ?e = "PgErr bad_text"
  have "fst (balance_of (hr_path r) ?s) = Inl (Errorf [Txt ''read the balance of '', Quo (shown (hr_path r)), Txt '': '', Cause ?e])"
    using assms(2) begin_readable [OF assms(1), of True d]
    by (simp add: balance_of_def attempt_def query_row_readable balance_query_def fail_def errors_is_def)
  then show ?thesis
    by (auto simp: get_balance_def Let_def read_tx_calm fail_reply_def not_reached_def cancelled_def bad_text_unclassified
        split: prod.splits)
qed

text \<open>
  What GET /v1/accounts/{code} answers: for a code the database can be asked about, 200 with the
  exact sum and count of the account's postings, or 404 with the code where no account holds it.
\<close>

theorem balance_is_served_or_not_found:
  assumes "c_faults ci = []" and "text_ok (hr_path r)" and "get_balance lib acquire (calm_lending ci) r d = (a, d')"
  shows "case account_with_code (db_book d) (hr_path r) of
      None \<Rightarrow> rp_status a = 404 \<and> (\<exists>b. rp_body a = Refused b \<and> eb_error b = ''no such account'' \<and> eb_code b = shown (hr_path r))
    | Some x \<Rightarrow> rp_status a = 200 \<and> (\<exists>b. rp_body a = BalanceIs b \<and> bb_account b = hr_path r \<and> bb_name b = acc_name x \<and>
        bb_kind b = kind_text (acc_kind x) \<and> bb_currency b = acc_currency x \<and>
        big (bb_balance b) = sum_list (map (sint \<circ> pst_amount) (filter (\<lambda>p. pst_account p = acc_id x) (postings (db_book d)))) \<and>
        bb_postings b = length (filter (\<lambda>p. pst_account p = acc_id x) (postings (db_book d))))"
proof -
  let ?s = "begin_tx True ci d"
  note b = balance_of_readable [OF begin_readable [OF assms(1), of True d] assms(2)]
  let ?e = "Errorf [Cause (Sentinel ErrUnknownAccount), Txt '': '', Quo (shown (hr_path r))]"
  have e: "as_overload ?e = None" "\<And>z. errors_is ?e z \<longleftrightarrow> z = ErrUnknownAccount"
    by (auto simp: as_overload_def errors_is_def)
  show ?thesis
  proof (cases "account_with_code (db_book d) (hr_path r)")
    case None
    with b assms(3) told_not_reached [OF e, of lib] show ?thesis
      by (auto simp: get_balance_def Let_def read_tx_calm fail_reply_def e error_body0_def)
  next
    case (Some x)
    with b assms(3) account_with_codeD [OF Some] show ?thesis
      by (auto simp: get_balance_def Let_def read_tx_calm balance_body_of_def balance_for_def balance_row_of_def postings_on_def)
  qed
qed

theorem balance_is_served_or_not_found_witness:
  "\<exists>b. rp_body (fst (get_balance sample_library 0 (calm_lending quiet) (sample_post\<lparr>hr_path := ''assets.cash''\<rparr>) (database_of used_book))) = BalanceIs b \<and>
     big (bb_balance b) = 5"
proof -
  let ?g = "get_balance sample_library 0 (calm_lending quiet) (sample_post\<lparr>hr_path := ''assets.cash''\<rparr>) (database_of used_book)"
  have t: "text_ok (hr_path (sample_post\<lparr>hr_path := ''assets.cash''\<rparr>))" by simp code_simp
  have a: "account_with_code (db_book (database_of used_book)) ''assets.cash'' = Some (sample_account 0 ''assets.cash'' Asset ''USD'')"
    by (simp add: account_with_code_def database_of_def used_book_def sample_book_def sample_account_def)
  have "sum_list (map (sint \<circ> pst_amount) (filter (\<lambda>p. pst_account p = 100) (postings (db_book (database_of used_book))))) = 5"
    by (simp add: database_of_def used_book_def)
  with balance_is_served_or_not_found [OF sample_setting(4) t prod.collapse [symmetric], of sample_library 0 "database_of used_book"] a
  show ?thesis by (auto simp: sample_account_def)
qed

text \<open>
  C36. A code the database cannot be asked about is answered as a fault of the server's own: a null
  byte for the code makes GET /v1/accounts/{code} a 500, whatever the book holds.
\<close>

theorem a_null_byte_is_a_500:
  "rp_status (fst (get_balance lib acquire (calm_lending quiet) (r\<lparr>hr_path := [CHR 0x00]\<rparr>) d)) = 500"
proof -
  have "\<not> text_ok [CHR 0x00]" by code_simp
  then show ?thesis using get_balance_unreadable [OF sample_setting(4), of "r\<lparr>hr_path := [CHR 0x00]\<rparr>"] by simp
qed

section \<open>Opening an account\<close>

text \<open>The field a refusal of the schema is about, and what the answer says of it.\<close>

definition field_refused :: "ctype \<Rightarrow> account_request \<Rightarrow> gostr" where
  "field_refused ct req =
     (if \<not> text_ok (ar_code req) \<or> \<not> text_ok (ar_name req) \<or> \<not> text_ok (ar_kind req) \<or> \<not> text_ok (ar_currency req)
      then ''''
      else if \<not> code_check (ar_code req) then ''code''
      else if \<not> currency_check (ar_currency req) then ''currency''
      else ''name'')"

definition account_refusal_says :: "ctype \<Rightarrow> account_request \<Rightarrow> sentinel \<Rightarrow> reply \<Rightarrow> bool" where
  "account_refusal_says ct req x a \<longleftrightarrow>
     (\<exists>b. rp_body a = Refused b \<and>
       (x = ErrAccountExists \<longrightarrow> rp_status a = 409 \<and> eb_parameter b = ''code'' \<and> eb_value b = shown (ar_code req)) \<and>
       (x = ErrUnknownKind \<longrightarrow> rp_status a = 422 \<and> eb_parameter b = ''kind'' \<and> eb_valid b = map kind_text enum_range) \<and>
       (x = ErrRejected \<longrightarrow> rp_status a = 422 \<and> eb_parameter b = field_refused ct req \<and>
          (field_refused ct req \<noteq> '''' \<longrightarrow> eb_value b = shown (account_value req (field_refused ct req)))))"

lemma account_fields_are: "account_fields = [''code'', ''currency'', ''kind'', ''name'']"
  by code_simp

lemma refused_field_check:
  "as_pg e = Some (check_violation ''accounts'' ''accounts_code_check'') \<Longrightarrow> refused_field e account_fields = ''code''"
  "as_pg e = Some (check_violation ''accounts'' ''accounts_currency_check'') \<Longrightarrow> refused_field e account_fields = ''currency''"
  "as_pg e = Some (check_violation ''accounts'' ''accounts_name_check'') \<Longrightarrow> refused_field e account_fields = ''name''"
  "as_pg e = Some bad_text \<Longrightarrow> refused_field e account_fields = ''''"
  by (simp_all add: refused_field_def account_fields_are check_violation_def server_refusal_def trim_prefix_def
      trim_suffix_def)

lemma classify_open_parts:
  "as_pg (classify_open (PgErr p) a (look_at b p a)) = Some p"
  "as_overload (classify_open (PgErr p) a (look_at b p a)) = None"
  "pg_code p = ''22P02'' \<Longrightarrow> valid_kinds (classify_open (PgErr p) a (look_at b p a)) = map kind_text enum_range"
proof -
  have h: "first_of f (concat (map part_tree (rf_holder (look_at b p a))) @ es) = first_of f es"
    for f :: "err \<Rightarrow> 'x option" and es
  proof -
    have "concat (map part_tree (rf_holder (look_at b p a))) = []" using holder_silent [of _ b p a] by simp
    then show ?thesis by (simp only: append_Nil)
  qed
  show "as_pg (classify_open (PgErr p) a (look_at b p a)) = Some p"
    "as_overload (classify_open (PgErr p) a (look_at b p a)) = None"
    by (simp_all add: classify_open_def as_pg_def as_overload_def h)
  show "pg_code p = ''22P02'' \<Longrightarrow> valid_kinds (classify_open (PgErr p) a (look_at b p a)) = map kind_text enum_range"
    by (simp add: classify_open_def as_pg_def valid_kinds_def as_unknown_kind_def look_at_def no_refusal_def)
qed

text \<open>Which refusal the schema answers an account with, by the contract.\<close>

lemma insert_account_Inl:
  assumes "insert_account ct u t (ar_code req) (ar_name req) (ar_kind req) (ar_currency req) b = Inl p"
    and "u \<notin> acc_id ` set (accounts b)"
  shows "open_verdict ct b (account_of req) = Some ErrRejected \<Longrightarrow>
    p = (if field_refused ct req = '''' then bad_text
         else if field_refused ct req = ''code'' then check_violation ''accounts'' ''accounts_code_check''
         else if field_refused ct req = ''currency'' then check_violation ''accounts'' ''accounts_currency_check''
         else check_violation ''accounts'' ''accounts_name_check'')"
  using assms
  by (auto simp: open_verdict_def insert_account_def account_refusal_def field_refused_def account_of_def Let_def
      account_with_code_None split: if_splits option.splits)

lemma refuse_account_says:
  assumes "insert_account ct u t (ar_code req) (ar_name req) (ar_kind req) (ar_currency req) b = Inl p"
    and "u \<notin> acc_id ` set (accounts b)"
  shows "\<exists>x. open_verdict ct b (account_of req) = Some x \<and>
    account_refusal_says ct req x (refuse_account lib (classify_open (PgErr p) (account_of req) (look_at b p (account_of req))) req)"
proof -
  let ?e = "classify_open (PgErr p) (account_of req) (look_at b p (account_of req))"
  define x where "x = (if pg_code p = ''23505'' then ErrAccountExists else if pg_code p = ''22P02'' then ErrUnknownKind else ErrRejected)"
  have v: "open_verdict ct b (account_of req) = Some x"
    using insert_account_verdict [OF assms(2), where ct = ct and t = t and a = "account_of req"] assms(1) by (simp add: account_of_def x_def)
  have e: "errors_is ?e z \<longleftrightarrow> z = x" for z unfolding x_def by (rule classify_open_tree)
  have n: "not_reached lib ?e = None"
    by (rule told_not_reached [OF classify_open_parts(2) e]) (simp add: x_def)
  have f: "field_refused ct req \<in> {'''', ''code'', ''currency'', ''name''}" by (simp add: field_refused_def)
  have r: "refused_field ?e account_fields = field_refused ct req" if "x = ErrRejected"
  proof -
    from insert_account_Inl [OF assms] v that f classify_open_parts(1) [of p "account_of req" b]
    show ?thesis by (auto simp: refused_field_check)
  qed
  have "account_refusal_says ct req x (refuse_account lib ?e req)"
    using r e classify_open_parts(3) [of p "account_of req" b]
    by (auto simp: refuse_account_def n account_refusal_says_def x_def error_said_def error_body0_def Let_def)
  with v show ?thesis by blast
qed

lemma new_account_balance:
  assumes "wf_book ct b" and "acc_code a \<notin> acc_code ` set (accounts b)" and "acc_id a \<notin> acc_id ` set (accounts b)"
    and "readable s" and "work s = b\<lparr>accounts := accounts b @ [a]\<rparr>" and "text_ok (acc_code a)"
  shows "\<exists>bl. balance_of (acc_code a) s = (Inr bl, s) \<and> balance_body_of bl =
    \<lparr>bb_account = acc_code a, bb_name = acc_name a, bb_kind = kind_text (acc_kind a), bb_currency = acc_currency a,
     bb_balance = Minor 0, bb_postings = 0\<rparr>"
proof -
  have "List.find (\<lambda>x. acc_code x = acc_code a) (accounts b) = None"
    using assms(2) unfolding find_None_iff image_iff by metis
  then have "account_with_code (work s) (acc_code a) = Some a"
    by (simp add: account_with_code_def assms(5) find_append)
  moreover have "pst_account p \<noteq> acc_id a" if "p \<in> set (postings b)" for p
    using posting_account [OF assms(1) that] assms(3) by (auto simp: image_iff)
  then have "postings_on (work s) (acc_id a) = []" by (simp add: postings_on_def assms(5) filter_empty_conv)
  ultimately show ?thesis
    using balance_of_readable [OF assms(4,6)]
    by (simp add: balance_for_def balance_row_of_def balance_body_of_def)
qed

text \<open>
  C29. What POST /v1/accounts answers.  When nothing goes wrong on the way, a request that reaches the
  ledger opens the account exactly when the contract accepts it, and is answered 201 with an empty
  balance; a code somebody holds is 409; a kind there is not is 422 with the five there are; and
  what the schema refuses is 422, naming the field and what it held.  A refusal changes nothing.
\<close>

theorem open_is_answered_by_the_contract:
  assumes "sound d" and "asks_account lib r req" and "c_faults ci = []" and "c_ids ci 0 \<notin> acc_id ` set (accounts (db_book d))"
    and "post_account lib acquire (calm_lending ci) r d = (a, d')"
  shows "case open_verdict (db_ctype d) (db_book d) (account_of req) of
      None \<Rightarrow> rp_status a = 201 \<and>
        rp_body a = BalanceIs \<lparr>bb_account = ar_code req, bb_name = ar_name req, bb_kind = ar_kind req,
          bb_currency = ar_currency req, bb_balance = Minor 0, bb_postings = 0\<rparr> \<and>
        (\<exists>x. db_book d' = (db_book d)\<lparr>accounts := accounts (db_book d) @ [x]\<rparr> \<and> acc_code x = ar_code req)
    | Some x \<Rightarrow> account_refusal_says (db_ctype d) req x a \<and> db_book d' = db_book d"
proof -
  let ?s = "begin_tx False ci d" and ?ct = "db_ctype d" and ?b = "db_book d"
  have wf: "wf_book ?ct ?b" using assms(1) by (simp add: sound_def consistent_def)
  note o1 = open_account_healthy [OF begin_healthy [OF assms(3)], of "account_of req" d]
  show ?thesis
  proof (cases "insert_account ?ct (c_ids ci 0) (c_now ci) (ar_code req) (ar_name req) (ar_kind req) (ar_currency req) ?b")
    case (Inl p)
    obtain x where x: "open_verdict ?ct ?b (account_of req) = Some x"
      "account_refusal_says ?ct req x (refuse_account lib (classify_open (PgErr p) (account_of req) (look_at ?b p (account_of req))) req)"
      using refuse_account_says [OF Inl assms(4)] by blast
    from o1 Inl have "fst (open_and_read req ?s) = Inl (classify_open (PgErr p) (account_of req) (look_at ?b p (account_of req)))"
      by (simp add: open_and_read_def attempt_def fail_def account_of_def)
    with x assms(5) show ?thesis
      by (auto simp: post_account_asks [OF assms(2)] write_tx_calm split: prod.splits)
  next
    case (Inr b')
    obtain x where b': "b' = ?b\<lparr>accounts := accounts ?b @ [x]\<rparr>" and x: "acc_id x = c_ids ci 0" "acc_code x = ar_code req"
      "acc_name x = ar_name req" "kind_text (acc_kind x) = ar_kind req" "acc_currency x = ar_currency req"
      "acc_id x \<notin> acc_id ` set (accounts ?b)" "acc_code x \<notin> acc_code ` set (accounts ?b)"
      using insert_accountD [OF Inr] by blast
    have v: "open_verdict ?ct ?b (account_of req) = None"
      using insert_account_verdict [OF assms(4), where ct = ?ct and t = "c_now ci" and a = "account_of req"] Inr by (simp add: account_of_def)
    then have t: "text_ok (acc_code x)" using x(2) by (auto simp: open_verdict_def account_of_def split: if_splits)
    let ?s1 = "?s\<lparr>drawn := Suc 0, work := b'\<rparr>"
    have h1: "healthy ?s1" using begin_healthy [OF assms(3)] by simp
    obtain bl where bl: "balance_of (acc_code x) ?s1 = (Inr bl, ?s1)" "balance_body_of bl =
        \<lparr>bb_account = acc_code x, bb_name = acc_name x, bb_kind = kind_text (acc_kind x), bb_currency = acc_currency x,
         bb_balance = Minor 0, bb_postings = 0\<rparr>"
      using new_account_balance [OF wf x(7,6) healthy_readable [OF h1] _ t] b' by auto
    have "open_and_read req ?s = (Inr bl, ?s1)"
      using o1 Inr bl(1) x(2) by (simp add: open_and_read_def attempt_def account_of_def)
    with assms(5) commit_quiet [OF h1] bl(2) x b' v show ?thesis
      by (auto simp: post_account_asks [OF assms(2)] write_tx_calm)
  qed
qed

theorem open_is_answered_by_the_contract_witness:
  "rp_body (fst (post_account sample_library 0 (calm_lending quiet) sample_open (database_of sample_book))) =
     BalanceIs \<lparr>bb_account = ''assets.till'', bb_name = ''Till'', bb_kind = ''asset'', bb_currency = ''USD'',
       bb_balance = Minor 0, bb_postings = 0\<rparr>"
proof -
  have v: "open_verdict (db_ctype (database_of sample_book)) (db_book (database_of sample_book)) (account_of sample_open_request) = None"
    "c_ids quiet 0 \<notin> acc_id ` set (accounts (db_book (database_of sample_book)))"
    by code_simp+
  show ?thesis
    using open_is_answered_by_the_contract [OF sample_sound sample_open_asks sample_setting(4) v(2) prod.collapse [symmetric]] v(1)
    by (simp add: sample_open_request_def)
qed

section \<open>Bounds\<close>

text \<open>
  Retry-After is a whole number of seconds that is never less than one and, for every ceiling
  short of the last second a duration can hold, the least that is not shorter than the ceiling.
\<close>

theorem retry_after_rounds_up:
  "1 \<le> retry_seconds d \<and>
   (0 < sint d \<longrightarrow> sint d \<le> 2 ^ 63 - second \<longrightarrow>
      sint d \<le> retry_seconds d * second \<and> (retry_seconds d - 1) * second < sint d)"
proof -
  have one: "1 \<le> retry_seconds d" by (simp add: retry_seconds_def Let_def)
  have "sint d \<le> retry_seconds d * second \<and> (retry_seconds d - 1) * second < sint d"
    if d: "0 < sint d" "sint d \<le> 2 ^ 63 - second"
  proof -
    have "word_of_int (sint d) + word_of_int second - word_of_int 1 = (word_of_int (sint d + second - 1) :: int64)"
      by (simp only: wi_hom_add wi_hom_sub)
    then have w: "d + word_of_int second - 1 = word_of_int (sint d + second - 1)" by simp
    have s: "sint (d + word_of_int second - 1) = sint d + second - 1"
    proof -
      have "sint (word_of_int x :: int64) = x" if "0 \<le> x" "x < 2 ^ 63" for x
        using that by (simp add: signed_of_int signed_take_bit_int_eq_self)
      moreover have "0 \<le> sint d + second - 1" "sint d + second - 1 < 2 ^ 63" using d by (simp_all add: second_def)
      ultimately show ?thesis unfolding w by blast
    qed
    define q where "q = (sint d + second - 1) div second"
    have "(sint d + second - 1) sdiv second = q"
      using d by (simp add: q_def signed_divide_int_def second_def)
    moreover have "1 \<le> q" using d by (simp add: q_def second_def)
    ultimately have r: "retry_seconds d = q" by (simp add: retry_seconds_def s)
    have "q * second \<le> sint d + second - 1" "sint d + second - 1 < q * second + second"
      unfolding q_def second_def by linarith+
    then show ?thesis by (simp add: r algebra_simps)
  qed
  with one show ?thesis by blast
qed

theorem retry_after_rounds_up_witness:
  "retry_seconds 1500000000 = 2"
proof -
  have "sint (1500000000 :: int64) = 1500000000" by simp
  with retry_after_rounds_up [of 1500000000] show ?thesis by (simp add: second_def)
qed

text \<open>The two texts of a refusal that come from the client.\<close>

definition short_echo :: "reply \<Rightarrow> bool" where
  "short_echo a \<longleftrightarrow>
     (case rp_body a of Refused b \<Rightarrow> rune_count (eb_value b) \<le> 81 \<and> rune_count (eb_code b) \<le> 81 | _ \<Rightarrow> True)"

lemma short_echo_reply [simp]:
  "short_echo (refuse_with n b) \<longleftrightarrow> rune_count (eb_value b) \<le> 81 \<and> rune_count (eb_code b) \<le> 81"
  "short_echo (write_reply hs n (Unbalanced u))"
  by (simp_all add: short_echo_def write_reply_def)

lemma short_busy [simp]: "short_echo (busy lib c)"
  by (simp add: short_echo_def busy_def write_reply_def error_said_def error_body0_def rune_count_def runes_def byte_list_def)

lemma bound_code [simp]: "eb_value (bound b f v) = eb_value b" "eb_code (bound b f v) = eb_code b"
  by (simp_all add: bound_def split: option.split)

text \<open>
  A refusal carries back no more than 81 characters of what the client chose, whatever it sent:
  the value, and the code a leg named, are trimmed.
\<close>

theorem refusals_are_bounded:
  "short_echo (refuse_transaction lib e req key) \<and> short_echo (refuse_account lib e acc)"
proof
  have z [simp]: "rune_count [] \<le> 81" by (simp add: rune_count_def runes_def byte_list_def)
  note [simp] = shown_short error_said_def error_body0_def internal_error_def
  have n: "short_echo a" if "not_reached lib e = Some a" for a
    using that by (auto simp: not_reached_def gave_up_def split: option.splits if_splits)
  show "short_echo (refuse_transaction lib e req key)"
  proof (cases "not_reached lib e")
    case None
    then show ?thesis
      by (cases "as_leg e") (simp_all add: refuse_transaction_def Let_def case_prod_beta)
  qed (simp add: refuse_transaction_def Let_def n)
  show "short_echo (refuse_account lib e acc)"
    by (cases "not_reached lib e") (simp_all add: refuse_account_def Let_def n)
qed

end
