(* ===== verification/Strings.thy ===== *)
theory Strings
  imports GoError Query
begin

text \<open>
  The functions of \<^verbatim>\<open>strings\<close> and \<^verbatim>\<open>bytes\<close> the command and the test tools read their input with:
  \<^verbatim>\<open>Cut\<close>, \<^verbatim>\<open>Count\<close>, \<^verbatim>\<open>Replace\<close>, \<^verbatim>\<open>TrimSpace\<close>, \<^verbatim>\<open>TrimRight\<close>, \<^verbatim>\<open>Fields\<close> and \<^verbatim>\<open>ToUpper\<close>, with what each does to
  a text put together by hand.
\<close>

section \<open>Cutting and counting\<close>

text \<open>\<open>cut p s\<close> is \<^verbatim>\<open>strings.Cut(s, p)\<close>: what is before the first \<open>p\<close> and what is after it.\<close>

fun cut :: "gostr \<Rightarrow> gostr \<Rightarrow> (gostr \<times> gostr) option" where
  "cut p s =
     (if has_prefix p s then Some ('''', drop (length p) s)
      else case s of
        [] \<Rightarrow> None
      | c # r \<Rightarrow> map_option (map_prod ((#) c) id) (cut p r))"

declare cut.simps [simp del]

lemma cut_Some: "cut p s = Some (a, b) \<Longrightarrow> s = a @ p @ b"
proof (induction p s arbitrary: a rule: cut.induct)
  case (1 p s)
  show ?case
  proof (cases "has_prefix p s")
    case True
    with "1.prems" show ?thesis by (auto simp: cut.simps has_prefix_iff)
  next
    case False
    with "1.prems" obtain c r a' where "s = c # r" "cut p r = Some (a', b)" "a = c # a'"
      by (subst (asm) cut.simps) (auto split: list.splits)
    with "1.IH" [OF False, of c r a'] show ?thesis by simp
  qed
qed

lemma cut_None: "cut p s = None \<longleftrightarrow> \<not> contains p s"
proof (induction s)
  case Nil
  then show ?case by (subst cut.simps) simp
next
  case (Cons c s)
  then show ?case by (subst cut.simps) simp
qed

lemma cut_length: "cut p s = Some (a, b) \<Longrightarrow> length s = length a + length p + length b"
  using cut_Some by fastforce

text \<open>The first occurrence is the one found.\<close>

lemma cut_first:
  assumes "cut p s = Some (a, b)" and "s = a' @ p @ b'"
  shows "length a \<le> length a'"
  using assms
proof (induction a' arbitrary: s a)
  case Nil
  then have "has_prefix p s" by simp
  with Nil.prems(1) show ?case by (auto simp: cut.simps)
next
  case (Cons c a')
  show ?case
  proof (cases "has_prefix p s")
    case True
    with Cons.prems(1) show ?thesis by (auto simp: cut.simps)
  next
    case False
    from Cons.prems False obtain a1 where "cut p (a' @ p @ b') = Some (a1, b)" "a = c # a1"
      by (subst (asm) cut.simps) auto
    with Cons.IH [of "a' @ p @ b'" a1] show ?thesis by simp
  qed
qed

lemma cut_char: "c \<notin> set a \<Longrightarrow> cut [c] (a @ c # b) = Some (a, b)"
proof (induction a)
  case Nil
  then show ?case by (subst cut.simps) simp
next
  case (Cons x a)
  then show ?case by (subst cut.simps) auto
qed

text \<open>\<^verbatim>\<open>bytes.Count\<close>: occurrences that do not overlap; of the empty text, one more than the runes.\<close>

function occurrences :: "gostr \<Rightarrow> gostr \<Rightarrow> nat" where
  "occurrences p s =
     (if p = '''' then Suc (rune_count s)
      else case cut p s of None \<Rightarrow> 0 | Some (a, b) \<Rightarrow> Suc (occurrences p b))"
  by pat_completeness auto
termination
  by (relation "measure (length \<circ> snd)") (auto dest: cut_length)

declare occurrences.simps [simp del]

text \<open>\<^verbatim>\<open>bytes.Replace(s, p, q, 1)\<close>.\<close>

definition replace_first :: "gostr \<Rightarrow> gostr \<Rightarrow> gostr \<Rightarrow> gostr" where
  "replace_first s p q = (case cut p s of None \<Rightarrow> s | Some (a, b) \<Rightarrow> a @ q @ b)"

lemma occurrences_once:
  assumes "p \<noteq> ''''"
  shows "occurrences p s = 1 \<longleftrightarrow> (\<exists>a b. cut p s = Some (a, b) \<and> \<not> contains p b)"
proof -
  have "occurrences p b = 0 \<longleftrightarrow> \<not> contains p b" for b
    using assms by (subst occurrences.simps) (auto simp: cut_None [symmetric] split: option.split)
  then show ?thesis using assms by (subst occurrences.simps) (auto split: option.split)
qed

section \<open>Trimming\<close>

text \<open>\<open>unicode.IsSpace\<close>, as the bytes of each rune it is true of.\<close>

definition spaces :: "gostr list" where
  "spaces = map (\<lambda>r. of_runes [r])
     [9, 10, 11, 12, 13, 32, 0x85, 0xA0, 0x1680, 0x2000, 0x2001, 0x2002, 0x2003, 0x2004, 0x2005, 0x2006, 0x2007,
      0x2008, 0x2009, 0x200A, 0x2028, 0x2029, 0x202F, 0x205F, 0x3000]"

lemma spaces_bytes [code]:
  "spaces = [[CHR 0x09], [CHR 0x0A], [CHR 0x0B], [CHR 0x0C], [CHR 0x0D], [CHR 0x20], [CHR 0xC2, CHR 0x85],
     [CHR 0xC2, CHR 0xA0], [CHR 0xE1, CHR 0x9A, CHR 0x80], [CHR 0xE2, CHR 0x80, CHR 0x80],
     [CHR 0xE2, CHR 0x80, CHR 0x81], [CHR 0xE2, CHR 0x80, CHR 0x82], [CHR 0xE2, CHR 0x80, CHR 0x83],
     [CHR 0xE2, CHR 0x80, CHR 0x84], [CHR 0xE2, CHR 0x80, CHR 0x85], [CHR 0xE2, CHR 0x80, CHR 0x86],
     [CHR 0xE2, CHR 0x80, CHR 0x87], [CHR 0xE2, CHR 0x80, CHR 0x88], [CHR 0xE2, CHR 0x80, CHR 0x89],
     [CHR 0xE2, CHR 0x80, CHR 0x8A], [CHR 0xE2, CHR 0x80, CHR 0xA8], [CHR 0xE2, CHR 0x80, CHR 0xA9],
     [CHR 0xE2, CHR 0x80, CHR 0xAF], [CHR 0xE2, CHR 0x81, CHR 0x9F], [CHR 0xE3, CHR 0x80, CHR 0x80]]"
  by (simp add: spaces_def of_runes_def encode_rune_def scalar_def char_of_def bit_iff_odd)

definition space_at :: "gostr list \<Rightarrow> gostr \<Rightarrow> nat" where
  "space_at ps s = (case List.find (\<lambda>p. has_prefix p s) ps of None \<Rightarrow> 0 | Some p \<Rightarrow> length p)"

lemma space_at_le: "space_at ps s \<le> length s"
  by (auto simp: space_at_def has_prefix_iff dest!: find_SomeD split: option.split)

function skip :: "gostr list \<Rightarrow> gostr \<Rightarrow> gostr" where
  "skip ps s = (if space_at ps s = 0 then s else skip ps (drop (space_at ps s) s))"
  by pat_completeness auto
termination
proof (relation "measure (length \<circ> snd)")
  fix ps s
  assume "space_at ps s \<noteq> 0"
  with space_at_le [of ps s] show "((ps, drop (space_at ps s) s), (ps, s)) \<in> measure (length \<circ> snd)" by simp
qed simp

declare skip.simps [simp del]

definition trim_space :: "gostr \<Rightarrow> gostr" where
  "trim_space s = rev (skip (map rev spaces) (rev (skip spaces s)))"

text \<open>\<^verbatim>\<open>strings.TrimRight(s, "\n")\<close>.\<close>

definition newline :: char where
  "newline = CHR 0x0A"

definition trim_newlines :: "gostr \<Rightarrow> gostr" where
  "trim_newlines s = rev (dropWhile (\<lambda>c. c = newline) (rev s))"

text \<open>A text with nothing to trim.\<close>

definition trimmed :: "gostr \<Rightarrow> bool" where
  "trimmed s \<longleftrightarrow> trim_space s = s"

section \<open>Lines and words\<close>

lemma join_newline: "ls \<noteq> [] \<Longrightarrow> list_all (\<lambda>l. c \<notin> set l) ls \<Longrightarrow> split_on c (join [c] ls) = ls"
  by (induction "[c]" ls rule: join.induct) (auto simp: split_on_none split_on_append)

lemma split_on_clean: "l \<in> set (split_on c s) \<Longrightarrow> c \<notin> set l"
  by (induction s arbitrary: l) (auto split: if_splits list.splits)

lemma split_on_nonempty [simp]: "split_on c s \<noteq> []"
  by (induction s) (auto split: list.split)

lemma join_split: "join [c] (split_on c s) = s"
proof (induction s)
  case (Cons x s)
  then show ?case by (cases "split_on c s"; cases "tl (split_on c s)") auto
qed simp

text \<open>\<^verbatim>\<open>strings.Fields\<close>: the words between runs of space.\<close>

function words_from :: "gostr \<Rightarrow> gostr \<Rightarrow> gostr list" where
  "words_from w [] = (if w = '''' then [] else [rev w])"
| "words_from w (c # s) =
     (if space_at spaces (c # s) = 0 then words_from (c # w) s
      else (if w = '''' then [] else [rev w]) @ words_from '''' (drop (space_at spaces (c # s)) (c # s)))"
  by pat_completeness auto
termination
proof (relation "measure (length \<circ> snd)")
  fix w c and s :: gostr
  assume "space_at spaces (c # s) \<noteq> 0"
  with space_at_le [of spaces "c # s"]
  show "(('''', drop (space_at spaces (c # s)) (c # s)), (w, c # s)) \<in> measure (length \<circ> snd)" by simp
qed simp_all

declare words_from.simps [simp del]

definition words :: "gostr \<Rightarrow> gostr list" where
  "words s = words_from '''' s"

text \<open>\<^verbatim>\<open>strings.ReplaceAll\<close> of one byte by one byte, and \<^verbatim>\<open>strings.ToUpper\<close> of a text in ASCII.\<close>

definition replace_byte :: "char \<Rightarrow> char \<Rightarrow> gostr \<Rightarrow> gostr" where
  "replace_byte a b = map (\<lambda>c. if c = a then b else c)"

definition upper :: "gostr \<Rightarrow> gostr" where
  "upper = map (\<lambda>c. let n = of_char c :: nat in if 97 \<le> n \<and> n \<le> 122 then char_of (n - 32) else c)"

end
