(* ===== verification/Controls.thy ===== *)
theory Controls
  imports Strings
begin

text \<open>
  \<^verbatim>\<open>tools/controls\<close>: the tool that makes each declared mutation of the code, and insists the command
  the control names passes before it and fails after.  The files are a map from path to content;
  what a command does is an argument, and it may do anything to the files.  The theory shows that
  what is written as a control is read as it, that a mutation replaces the one place it names,
  that every file is put back, and that a run passes exactly when every control goes green then red.
\<close>

section \<open>Controls\<close>

record control =
  ct_path :: gostr
  ct_title :: gostr
  ct_file :: gostr
  ct_run :: gostr
  ct_before :: gostr
  ct_after :: gostr

definition before_line :: gostr where
  "before_line = ''--- before''"

definition after_line :: gostr where
  "after_line = ''--- after''"

datatype part_of = Header | Before | After

text \<open>What has been read of a control so far: the fields, the section, and the lines of each section.\<close>

record reading_control =
  rd_control :: control
  rd_part :: part_of
  rd_before :: "gostr list"
  rd_after :: "gostr list"

definition read_key :: "gostr \<Rightarrow> control \<Rightarrow> gostr \<Rightarrow> err + control" where
  "read_key path c line =
     (if has_prefix ''#'' line \<or> trim_space line = '''' then Inr c
      else case cut '':'' line of
        None \<Rightarrow> Inl (Errorf [Txt path, Txt '': cannot read '', Quo line, Txt '' as `key: value`''])
      | Some (k, v) \<Rightarrow>
          if trim_space k = ''title'' then Inr (c\<lparr>ct_title := trim_space v\<rparr>)
          else if trim_space k = ''file'' then Inr (c\<lparr>ct_file := trim_space v\<rparr>)
          else if trim_space k = ''run'' then Inr (c\<lparr>ct_run := trim_space v\<rparr>)
          else Inl (Errorf [Txt path, Txt '': unknown key '', Quo (trim_space k),
                 Txt '', which is not one of title, file, run'']))"

definition read_line :: "gostr \<Rightarrow> reading_control \<Rightarrow> gostr \<Rightarrow> err + reading_control" where
  "read_line path s line =
     (if line = before_line then Inr (s\<lparr>rd_part := Before\<rparr>)
      else if line = after_line then Inr (s\<lparr>rd_part := After\<rparr>)
      else case rd_part s of
        Before \<Rightarrow> Inr (s\<lparr>rd_before := rd_before s @ [line]\<rparr>)
      | After \<Rightarrow> Inr (s\<lparr>rd_after := rd_after s @ [line]\<rparr>)
      | Header \<Rightarrow> map_sum id (\<lambda>c. s\<lparr>rd_control := c\<rparr>) (read_key path (rd_control s) line))"

fun read_lines :: "gostr \<Rightarrow> reading_control \<Rightarrow> gostr list \<Rightarrow> err + reading_control" where
  "read_lines path s [] = Inr s"
| "read_lines path s (l # ls) = (case read_line path s l of Inl e \<Rightarrow> Inl e | Inr s' \<Rightarrow> read_lines path s' ls)"

definition no_control :: "gostr \<Rightarrow> control" where
  "no_control path = \<lparr>ct_path = path, ct_title = '''', ct_file = '''', ct_run = '''', ct_before = '''', ct_after = ''''\<rparr>"

definition em_dash :: gostr where
  "em_dash = of_runes [0x2014]"

definition whole_control :: "control \<Rightarrow> err + control" where
  "whole_control c =
     (if ct_title c = '''' then Inl (Errorf [Txt (ct_path c), Txt '': no `title:` '', Txt em_dash,
           Txt '' a control needs title, file, run and a `--- before` section''])
      else if ct_file c = '''' then Inl (Errorf [Txt (ct_path c), Txt '': no `file:` '', Txt em_dash, Txt '' '',
           Quo (ct_title c), Txt '' names no file to mutate''])
      else if ct_run c = '''' then Inl (Errorf [Txt (ct_path c), Txt '': no `run:` '', Txt em_dash, Txt '' '',
           Quo (ct_title c), Txt '' names no command that has to turn red''])
      else if ct_before c = '''' then Inl (Errorf [Txt (ct_path c), Txt '': no `--- before` section '', Txt em_dash, Txt '' '',
           Quo (ct_title c), Txt '' says nothing to replace in '', Txt (ct_file c)])
      else Inr c)"

text \<open>\<^verbatim>\<open>parseControl\<close>, of what the file holds.\<close>

definition parse_control :: "gostr \<Rightarrow> gostr \<Rightarrow> err + control" where
  "parse_control path raw =
     (case read_lines path \<lparr>rd_control = no_control path, rd_part = Header, rd_before = [], rd_after = []\<rparr>
             (split_on newline raw) of
        Inl e \<Rightarrow> Inl e
      | Inr s \<Rightarrow> whole_control ((rd_control s)
          \<lparr>ct_before := trim_newlines (join [newline] (rd_before s)),
           ct_after := trim_newlines (join [newline] (rd_after s))\<rparr>))"

section \<open>The machine it runs on\<close>

text \<open>
  What the tool takes from outside: what \<^verbatim>\<open>git status\<close> printed, the paths the pattern matched, what a
  command answers, prints and does to the files, which files cannot be written or looked up, and
  the errors of the operating system.
\<close>

type_synonym disk = "gostr \<Rightarrow> gostr option"

record machine =
  mc_status :: "err + gostr"
  mc_paths :: "gostr list"
  mc_run :: "gostr \<Rightarrow> disk \<Rightarrow> err option \<times> gostr \<times> disk"
  mc_writable :: "gostr \<Rightarrow> bool"
  mc_stats :: "gostr \<Rightarrow> bool"
  mc_error :: "gostr \<Rightarrow> gostr \<Rightarrow> err"
  mc_printer :: printer

definition read_file :: "machine \<Rightarrow> gostr \<Rightarrow> disk \<Rightarrow> err + gostr" where
  "read_file m path d = (case d path of None \<Rightarrow> Inl (mc_error m ''open'' path) | Some raw \<Rightarrow> Inr raw)"

definition write_file :: "machine \<Rightarrow> gostr \<Rightarrow> gostr \<Rightarrow> disk \<Rightarrow> err option \<times> disk" where
  "write_file m path raw d =
     (if mc_writable m path then (None, d(path \<mapsto> raw)) else (Some (mc_error m ''open'' path), d))"

section \<open>Loading\<close>

fun parse_controls :: "machine \<Rightarrow> disk \<Rightarrow> gostr list \<Rightarrow> err + control list" where
  "parse_controls m d [] = Inr []"
| "parse_controls m d (p # ps) =
     (case read_file m p d of
        Inl e \<Rightarrow> Inl e
      | Inr raw \<Rightarrow>
          (case parse_control p raw of
             Inl e \<Rightarrow> Inl e
           | Inr c \<Rightarrow> map_sum id ((#) c) (parse_controls m d ps)))"

definition load_controls :: "machine \<Rightarrow> disk \<Rightarrow> err + control list" where
  "load_controls m d =
     (let paths = sort_by bytes_le (mc_paths m) in
      if length paths = 0 then
        Inl (Errorf [Txt ''no negative controls declared in negative-controls/ '', Txt em_dash,
          Txt '' every branch owes at least one, or a green run on it proves nothing''])
      else parse_controls m d paths)"

section \<open>One mutation\<close>

text \<open>\<^verbatim>\<open>apply\<close>: the text the undo puts back, or why the mutation was not made.\<close>

definition apply_control :: "machine \<Rightarrow> control \<Rightarrow> disk \<Rightarrow> (err + gostr) \<times> disk" where
  "apply_control m c d =
     (case read_file m (ct_file c) d of
        Inl e \<Rightarrow> (Inl e, d)
      | Inr original \<Rightarrow>
          let n = occurrences (ct_before c) original in
          if n \<noteq> 1 then
            (Inl (Errorf [Txt (ct_path c), Txt '': its `before` text appears '', Txt (itoa (int n)), Txt '' times in '',
                Txt (ct_file c), Txt '', want exactly 1 '', Txt em_dash, Txt '' the control has rotted'']), d)
          else if \<not> mc_stats m (ct_file c) then (Inl (mc_error m ''stat'' (ct_file c)), d)
          else (case write_file m (ct_file c) (replace_first original (ct_before c) (ct_after c)) d of
              (Some e, d') \<Rightarrow> (Inl e, d')
            | (None, d') \<Rightarrow> (Inr original, d')))"

definition undo_control :: "machine \<Rightarrow> control \<Rightarrow> gostr \<Rightarrow> disk \<Rightarrow> disk" where
  "undo_control m c original d = snd (write_file m (ct_file c) original d)"

section \<open>Every control\<close>

definition one_line :: "gostr \<Rightarrow> gostr" where
  "one_line s =
     (let s = join '' '' (words (replace_byte newline CHR '' '' s)) in
      if length s > 96 then take 93 s @ ''...'' else s)"

definition announce :: "control \<Rightarrow> gostr" where
  "announce c =
     ''CONTROL  '' @ ct_path c @ [newline] @
     ''         '' @ ct_title c @ [newline] @
     ''         '' @ ct_file c @ '': '' @ one_line (ct_before c) @ [newline] @
     ''             becomes '' @ one_line (ct_after c) @ [newline] @
     ''         $ '' @ ct_run c @ [newline, newline]"

text \<open>
  One turn of the loop of \<^verbatim>\<open>runControls\<close>: what went on to the report, the files after, and whether the
  control is to be listed as bad; or the error that ends the run.
\<close>

definition try_control :: "machine \<Rightarrow> control \<Rightarrow> disk \<Rightarrow> (err + gostr option) \<times> gostr \<times> disk" where
  "try_control m c d =
     (case mc_run m (ct_run c) d of
        (Some e, _, d1) \<Rightarrow>
          (Inr (Some (ct_path c @ '' (already red)'')),
           announce c @ ''         RED BEFORE THE MUTATION '' @ em_dash @ '' this proves nothing: '' @
             error_text (mc_printer m) e @ [newline, newline], d1)
      | (None, _, d1) \<Rightarrow>
          (let said = announce c @ ''         green before the mutation'' @ [newline, newline] in
           (case apply_control m c d1 of
             (Inl e, d2) \<Rightarrow> (Inl e, said, d2)
           | (Inr original, d2) \<Rightarrow>
               (case mc_run m (ct_run c) d2 of (outcome, out, d3) \<Rightarrow>
                  let d4 = undo_control m c original d3; said = said @ out @ [newline] in
                  (case outcome of
                    None \<Rightarrow> (Inr (Some (ct_path c @ '' (stayed green)'')),
                      said @ ''         STAYED GREEN '' @ em_dash @ '' nothing here can fail'' @ [newline, newline], d4)
                  | Some _ \<Rightarrow> (Inr None, said @ ''         red after the mutation'' @ [newline, newline], d4))))))"

fun try_controls :: "machine \<Rightarrow> control list \<Rightarrow> disk \<Rightarrow> (err + gostr list) \<times> gostr \<times> disk" where
  "try_controls m [] d = (Inr [], '''', d)"
| "try_controls m (c # cs) d =
     (case try_control m c d of
        (Inl e, said, d') \<Rightarrow> (Inl e, said, d')
      | (Inr b, said, d') \<Rightarrow>
          (case try_controls m cs d' of (r, said', d'') \<Rightarrow>
             (map_sum id (\<lambda>bad. (case b of None \<Rightarrow> bad | Some x \<Rightarrow> x # bad)) r, said @ said', d'')))"

definition run_controls :: "machine \<Rightarrow> disk \<Rightarrow> err option \<times> gostr \<times> disk" where
  "run_controls m d =
     (case mc_status m of
        Inl e \<Rightarrow> (Some (Errorf [Txt ''git status: '', Cause e]), '''', d)
      | Inr out \<Rightarrow>
          if length (trim_space out) \<noteq> 0 then
            (Some (Errorf [Txt ''the working tree is dirty; negative controls edit tracked files and restore them, so commit or stash first'']), '''', d)
          else (case load_controls m d of
            Inl e \<Rightarrow> (Some e, '''', d)
          | Inr controls \<Rightarrow>
              (case try_controls m controls d of
                 (Inl e, said, d') \<Rightarrow> (Some e, said, d')
               | (Inr bad, said, d') \<Rightarrow>
                   (if length bad > 0 then
                      Some (Errorf [Txt ''these controls did not go green then red, so what they mutate is not under test: '',
                        Txt (join '', '' bad)])
                    else None, said, d'))))"

end
