(* ===== verification/ControlLaws.thy ===== *)
theory ControlLaws
  imports Controls
begin

text \<open>
  What \<^verbatim>\<open>tools/controls\<close> does with the controls it is given: what is written as a control is read as it, a
  mutation is made at the one place it names and undone, no tracked file is left changed, and a run
  passes exactly when every control goes green then red.
\<close>

section \<open>Trimming what is trimmed\<close>

lemma skip_keeps: "(\<And>p. p \<in> set ps \<Longrightarrow> c \<notin> set p) \<Longrightarrow> c \<in> set s \<Longrightarrow> c \<in> set (skip ps s)"
proof (induction ps s rule: skip.induct)
  case (1 ps s)
  show ?case
  proof (cases "space_at ps s = 0")
    case True
    with "1.prems" show ?thesis by (subst skip.simps) simp
  next
    case False
    then obtain p where p: "List.find (\<lambda>p. has_prefix p s) ps = Some p" "space_at ps s = length p"
      by (auto simp: space_at_def split: option.splits)
    then obtain t where "s = p @ t" "p \<in> set ps" by (auto simp: has_prefix_iff dest!: find_SomeD)
    with "1.prems" p have "c \<in> set (drop (space_at ps s) s)" by auto
    with False "1.IH" "1.prems"(1) show ?thesis by (subst skip.simps) simp
  qed
qed

lemma trim_keeps:
  assumes "\<And>p. p \<in> set spaces \<Longrightarrow> c \<notin> set p" and "c \<in> set s"
  shows "trim_space s \<noteq> ''''"
proof -
  have "c \<in> set (skip spaces s)" using skip_keeps assms by blast
  then have "c \<in> set (skip (map rev spaces) (rev (skip spaces s)))" by (intro skip_keeps) (use assms(1) in auto)
  then show ?thesis by (auto simp: trim_space_def)
qed

lemma spaces_are [simp]: "list_all (\<lambda>p. CHR ''t'' \<notin> set p \<and> CHR ''f'' \<notin> set p \<and> CHR ''r'' \<notin> set p) spaces"
  by code_simp

lemma trim_solid:
  assumes "s \<noteq> ''''" and "list_all (\<lambda>p. p \<noteq> '''' \<and> hd p \<noteq> hd s \<and> last p \<noteq> last s) spaces"
  shows "trim_space s = s"
proof -
  have "List.find (\<lambda>p. has_prefix p s) spaces = None"
    using assms by (auto simp: find_None_iff has_prefix_iff list_all_iff)
  then have l: "skip spaces s = s" by (subst skip.simps) (simp add: space_at_def)
  have "List.find (\<lambda>p. has_prefix p (rev s)) (map rev spaces) = None"
  proof -
    have False if p: "p \<in> set spaces" and t: "rev s = rev p @ t" for p t
    proof -
      have "s = rev t @ p" using t by (metis rev_append rev_rev_ident)
      with assms p show False by (auto simp: list_all_iff)
    qed
    then show ?thesis by (auto simp: find_None_iff has_prefix_iff)
  qed
  then have "skip (map rev spaces) (rev s) = rev s" by (subst skip.simps) (simp add: space_at_def)
  then show ?thesis by (simp add: trim_space_def l)
qed

lemma trim_blank [simp]: "trim_space (CHR '' '' # s) = trim_space s"
proof -
  have "List.find (\<lambda>p. has_prefix p (CHR '' '' # s)) spaces = Some '' ''"
  proof (rule find_Some_iff_unique)
    show "'' '' \<in> set spaces" by code_simp
    fix p
    assume p: "p \<in> set spaces" "has_prefix p (CHR '' '' # s)"
    have "list_all (\<lambda>p. p = '' '' \<or> (p \<noteq> '''' \<and> hd p \<noteq> CHR '' '')) spaces" by code_simp
    with p(1) have "p = '' '' \<or> (p \<noteq> '''' \<and> hd p \<noteq> CHR '' '')" by (simp add: list_all_iff)
    with p(2) show "p = '' ''" by (cases p) auto
  qed simp
  then have "space_at spaces (CHR '' '' # s) = 1" by (simp add: space_at_def)
  then have "skip spaces (CHR '' '' # s) = skip spaces s" by (subst skip.simps) simp
  then show ?thesis by (simp add: trim_space_def)
qed

section \<open>A control written out\<close>

definition header_line :: "gostr \<Rightarrow> gostr \<Rightarrow> gostr" where
  "header_line key v = key @ '': '' @ v"

definition control_lines :: "control \<Rightarrow> gostr list" where
  "control_lines c = [header_line ''title'' (ct_title c), header_line ''file'' (ct_file c), header_line ''run'' (ct_run c), before_line] @
     split_on newline (ct_before c) @ [after_line] @ split_on newline (ct_after c)"

definition control_text :: "control \<Rightarrow> gostr" where
  "control_text c = join [newline] (control_lines c)"

definition one_liner :: "gostr \<Rightarrow> bool" where
  "one_liner s \<longleftrightarrow> s \<noteq> '''' \<and> trim_space s = s \<and> newline \<notin> set s"

definition block :: "gostr \<Rightarrow> bool" where
  "block s \<longleftrightarrow> trim_newlines s = s \<and> before_line \<notin> set (split_on newline s) \<and> after_line \<notin> set (split_on newline s)"

definition control_fine :: "control \<Rightarrow> bool" where
  "control_fine c \<longleftrightarrow> one_liner (ct_title c) \<and> one_liner (ct_file c) \<and> one_liner (ct_run c) \<and>
     block (ct_before c) \<and> ct_before c \<noteq> '''' \<and> block (ct_after c)"

lemma read_lines_append:
  "read_lines path s (xs @ ys) = (case read_lines path s xs of Inl e \<Rightarrow> Inl e | Inr s' \<Rightarrow> read_lines path s' ys)"
  by (induction xs arbitrary: s) (auto split: sum.split)

lemma read_before:
  "rd_part s = Before \<Longrightarrow> before_line \<notin> set ls \<Longrightarrow> after_line \<notin> set ls \<Longrightarrow>
   read_lines path s ls = Inr (s\<lparr>rd_before := rd_before s @ ls\<rparr>)"
  by (induction ls arbitrary: s) (auto simp: read_line_def)

lemma read_after:
  "rd_part s = After \<Longrightarrow> before_line \<notin> set ls \<Longrightarrow> after_line \<notin> set ls \<Longrightarrow>
   read_lines path s ls = Inr (s\<lparr>rd_after := rd_after s @ ls\<rparr>)"
  by (induction ls arbitrary: s) (auto simp: read_line_def)

lemma read_key_line:
  assumes "key = ''title'' \<or> key = ''file'' \<or> key = ''run''" and "one_liner v"
  shows "read_key path c (key @ '': '' @ v) =
    Inr (if key = ''title'' then c\<lparr>ct_title := v\<rparr> else if key = ''file'' then c\<lparr>ct_file := v\<rparr> else c\<lparr>ct_run := v\<rparr>)"
proof -
  have "trim_space (key @ '': '' @ v) \<noteq> ''''"
  proof (rule trim_keeps)
    show "hd key \<notin> set p" if "p \<in> set spaces" for p
      using that assms(1) spaces_are by (auto simp: list_all_iff)
    show "hd key \<in> set (key @ '': '' @ v)" using assms(1) by auto
  qed
  moreover have "\<not> has_prefix ''#'' (key @ '': '' @ v)" using assms(1) by auto
  moreover have "cut '':'' (key @ CHR '':'' # '' '' @ v) = Some (key, '' '' @ v)"
    by (rule cut_char) (use assms(1) in auto)
  moreover have "trim_space ''title'' = ''title''" "trim_space ''file'' = ''file''" "trim_space ''run'' = ''run''"
    by (rule trim_solid; code_simp)+
  moreover have "trim_space ('' '' @ v) = v" using assms(2) by (simp add: one_liner_def)
  ultimately show ?thesis using assms(1) by (auto simp: read_key_def)
qed

lemma read_header:
  assumes "key = ''title'' \<or> key = ''file'' \<or> key = ''run''" and "one_liner v" and "rd_part s = Header"
  shows "read_line path s (header_line key v) =
    Inr (s\<lparr>rd_control := (if key = ''title'' then (rd_control s)\<lparr>ct_title := v\<rparr>
       else if key = ''file'' then (rd_control s)\<lparr>ct_file := v\<rparr> else (rd_control s)\<lparr>ct_run := v\<rparr>)\<rparr>)"
proof -
  define l where "l = header_line key v"
  have "l \<noteq> before_line" "l \<noteq> after_line"
    using assms(1) by (auto simp: l_def header_line_def before_line_def after_line_def)
  then have "read_line path s l = map_sum id (\<lambda>c. s\<lparr>rd_control := c\<rparr>) (read_key path (rd_control s) l)"
    by (simp add: read_line_def assms(3))
  then show ?thesis unfolding l_def by (simp only: header_line_def read_key_line [OF assms(1,2)] map_sum.simps)
qed

lemma read_headers:
  assumes "one_liner v" and "rd_part s = Header"
  shows "read_line path s (header_line ''title'' v) = Inr (s\<lparr>rd_control := (rd_control s)\<lparr>ct_title := v\<rparr>\<rparr>)"
    and "read_line path s (header_line ''file'' v) = Inr (s\<lparr>rd_control := (rd_control s)\<lparr>ct_file := v\<rparr>\<rparr>)"
    and "read_line path s (header_line ''run'' v) = Inr (s\<lparr>rd_control := (rd_control s)\<lparr>ct_run := v\<rparr>\<rparr>)"
  using read_header [OF _ assms] by simp_all

lemma read_marker:
  "read_line path s before_line = Inr (s\<lparr>rd_part := Before\<rparr>)"
  "read_line path s after_line = Inr (s\<lparr>rd_part := After\<rparr>)"
  by (simp_all add: read_line_def) (simp add: before_line_def after_line_def)

lemma control_lines_clean:
  assumes "control_fine c"
  shows "split_on newline (control_text c) = control_lines c"
  unfolding control_text_def
proof (rule join_newline)
  show "list_all (\<lambda>l. newline \<notin> set l) (control_lines c)"
    using assms split_on_clean
    by (auto simp: control_lines_def header_line_def control_fine_def one_liner_def list_all_iff newline_def
        before_line_def after_line_def)
qed (simp add: control_lines_def)

section \<open>One mutation\<close>

lemma parsed_before:
  assumes "parse_control path raw = Inr c"
  shows "ct_before c \<noteq> ''''"
  using assms by (auto simp: parse_control_def whole_control_def split: sum.splits if_splits)

lemma apply_control_Inr:
  assumes "apply_control m c d = (Inr original, d')" and "ct_before c \<noteq> ''''"
  shows "\<exists>a b. d (ct_file c) = Some original \<and> original = a @ ct_before c @ b \<and> \<not> contains (ct_before c) b \<and>
    d' = d(ct_file c \<mapsto> a @ ct_after c @ b) \<and> mc_writable m (ct_file c)"
proof -
  from assms(1) have o: "d (ct_file c) = Some original" "occurrences (ct_before c) original = 1"
    "mc_writable m (ct_file c)" "d' = d(ct_file c \<mapsto> replace_first original (ct_before c) (ct_after c))"
    by (auto simp: apply_control_def read_file_def write_file_def Let_def split: option.splits if_splits)
  then obtain a b where ab: "cut (ct_before c) original = Some (a, b)" "\<not> contains (ct_before c) b"
    using occurrences_once [OF assms(2), of original] by auto
  with o show ?thesis
    by (intro exI [of _ a] exI [of _ b]) (simp add: replace_first_def cut_Some)
qed

lemma apply_control_Inl: "apply_control m c d = (Inl e, d') \<Longrightarrow> d' = d"
  by (auto simp: apply_control_def read_file_def write_file_def Let_def split: option.splits if_splits)

section \<open>The files, afterwards\<close>

definition keeps :: "machine \<Rightarrow> gostr set \<Rightarrow> bool" where
  "keeps m T \<longleftrightarrow> (\<forall>cmd d. \<forall>f \<in> T. snd (snd (mc_run m cmd d)) f = d f)"

lemma keeps_run: "keeps m T \<Longrightarrow> mc_run m cmd d = (e, out, d') \<Longrightarrow> f \<in> T \<Longrightarrow> d' f = d f"
  unfolding keeps_def by (metis snd_conv)

lemma try_control_keeps:
  assumes "keeps m T" and "ct_before c \<noteq> ''''" and "try_control m c d = (r, said, d')" and "f \<in> T"
  shows "d' f = d f"
proof -
  obtain e1 out1 d1 where r1: "mc_run m (ct_run c) d = (e1, out1, d1)" by (cases "mc_run m (ct_run c) d")
  have f1: "d1 f = d f" by (rule keeps_run [OF assms(1) r1 assms(4)])
  show ?thesis
  proof (cases e1)
    case (Some e)
    with assms(3) r1 f1 show ?thesis by (auto simp: try_control_def)
  next
    case None
    obtain a d2 where ap: "apply_control m c d1 = (a, d2)" by (cases "apply_control m c d1")
    show ?thesis
    proof (cases a)
      case (Inl e)
      with assms(3) r1 None ap f1 apply_control_Inl [of m c d1 e d2] show ?thesis
        by (auto simp: try_control_def Let_def)
    next
      case (Inr original)
      obtain e3 out3 d3 where r3: "mc_run m (ct_run c) d2 = (e3, out3, d3)" by (cases "mc_run m (ct_run c) d2")
      from apply_control_Inr [OF ap [unfolded Inr] assms(2)] obtain x where
        o: "d1 (ct_file c) = Some original" "mc_writable m (ct_file c)" "d2 = d1(ct_file c \<mapsto> x)" by blast
      have "d3 f = d2 f" by (rule keeps_run [OF assms(1) r3 assms(4)])
      then have "(undo_control m c original d3) f = d1 f"
        using o by (simp add: undo_control_def write_file_def)
      with assms(3) r1 None ap Inr r3 f1 show ?thesis
        by (auto simp: try_control_def Let_def split: option.splits)
    qed
  qed
qed

lemma try_controls_keeps:
  assumes "keeps m T" and "f \<in> T"
  shows "list_all (\<lambda>c. ct_before c \<noteq> '''') cs \<Longrightarrow> try_controls m cs d = (r, said, d') \<Longrightarrow> d' f = d f"
proof (induction cs arbitrary: d r said d')
  case (Cons c cs)
  obtain r1 said1 d1 where t: "try_control m c d = (r1, said1, d1)" by (cases "try_control m c d")
  have one: "d1 f = d f" using try_control_keeps [OF assms(1) _ t assms(2)] Cons.prems(1) by simp
  show ?case
  proof (cases r1)
    case (Inl e)
    with Cons.prems(2) t one show ?thesis by simp
  next
    case (Inr b)
    obtain r2 said2 d2 where ts: "try_controls m cs d1 = (r2, said2, d2)" by (cases "try_controls m cs d1")
    have "d2 f = d1 f" using Cons.IH [OF _ ts] Cons.prems(1) by simp
    with Cons.prems(2) t Inr ts one show ?thesis by simp
  qed
qed simp

lemma parse_controls_before: "parse_controls m d ps = Inr cs \<Longrightarrow> list_all (\<lambda>c. ct_before c \<noteq> '''') cs"
proof (induction ps arbitrary: cs)
  case (Cons p ps)
  then obtain raw c cs' where "read_file m p d = Inr raw" "parse_control p raw = Inr c" "parse_controls m d ps = Inr cs'" "cs = c # cs'"
    by (cases "parse_controls m d ps") (auto split: sum.splits)
  with Cons.IH parsed_before show ?case by auto
qed simp

lemma load_controls_before: "load_controls m d = Inr cs \<Longrightarrow> list_all (\<lambda>c. ct_before c \<noteq> '''') cs"
  using parse_controls_before by (auto simp: load_controls_def Let_def split: if_splits)

section \<open>Green, then red\<close>

definition goes_red :: "machine \<Rightarrow> disk \<Rightarrow> control \<Rightarrow> bool" where
  "goes_red m d c \<longleftrightarrow> fst (mc_run m (ct_run c) d) = None \<and>
     (case apply_control m c d of (Inl e, _) \<Rightarrow> False | (Inr _, d') \<Rightarrow> fst (mc_run m (ct_run c) d') \<noteq> None)"

lemma keeps_all: "keeps m UNIV \<Longrightarrow> mc_run m cmd d = (e, out, d') \<Longrightarrow> d' = d"
  using keeps_run [of m UNIV] by blast

lemma try_control_red:
  assumes "keeps m UNIV" and "try_control m c d = (r, said, d')"
  shows "r = Inr None \<longleftrightarrow> goes_red m d c"
proof -
  obtain e1 out1 d1 where r1: "mc_run m (ct_run c) d = (e1, out1, d1)" by (cases "mc_run m (ct_run c) d")
  then have "d1 = d" using keeps_all [OF assms(1)] by blast
  with r1 assms(2) show ?thesis
    by (auto simp: try_control_def goes_red_def Let_def split: option.splits sum.splits prod.splits)
qed

lemma try_controls_red:
  assumes "keeps m UNIV"
  shows "list_all (\<lambda>c. ct_before c \<noteq> '''') cs \<Longrightarrow> try_controls m cs d = (r, said, d') \<Longrightarrow>
    r = Inr [] \<longleftrightarrow> list_all (goes_red m d) cs"
proof (induction cs arbitrary: r said d')
  case (Cons c cs)
  obtain r1 said1 d1 where t: "try_control m c d = (r1, said1, d1)" by (cases "try_control m c d")
  have one: "d1 = d" using try_control_keeps [OF assms _ t] Cons.prems(1) by (intro ext) simp
  show ?case
  proof (cases r1)
    case (Inl e)
    with Cons.prems(2) t try_control_red [OF assms t] show ?thesis by auto
  next
    case (Inr b)
    obtain r2 said2 d2 where ts: "try_controls m cs d = (r2, said2, d2)" by (cases "try_controls m cs d")
    have "r2 = Inr [] \<longleftrightarrow> list_all (goes_red m d) cs" using Cons.IH [OF _ ts] Cons.prems(1) by simp
    with Cons.prems(2) t Inr ts one try_control_red [OF assms t] show ?thesis
      by (cases r2) (auto split: option.splits)
  qed
qed simp

section \<open>Properties\<close>

text \<open>
  What is written as a control is read as it: title, file and command on a line each, then the
  text to replace and the text to put there, as many lines as they have.
\<close>

theorem a_written_control_is_read:
  assumes "control_fine c"
  shows "parse_control (ct_path c) (control_text c) = Inr c"
proof -
  note fine = assms [unfolded control_fine_def block_def]
  have h: "read_lines (ct_path c) \<lparr>rd_control = no_control (ct_path c), rd_part = Header, rd_before = [], rd_after = []\<rparr>
      [header_line ''title'' (ct_title c), header_line ''file'' (ct_file c), header_line ''run'' (ct_run c), before_line] =
    Inr \<lparr>rd_control = c\<lparr>ct_before := '''', ct_after := ''''\<rparr>, rd_part = Before, rd_before = [], rd_after = []\<rparr>"
    using fine by (simp add: no_control_def read_headers read_marker)
  have "read_lines (ct_path c) \<lparr>rd_control = no_control (ct_path c), rd_part = Header, rd_before = [], rd_after = []\<rparr>
      (control_lines c) =
    Inr \<lparr>rd_control = c\<lparr>ct_before := '''', ct_after := ''''\<rparr>, rd_part = After,
      rd_before = split_on newline (ct_before c), rd_after = split_on newline (ct_after c)\<rparr>"
    unfolding control_lines_def read_lines_append h using fine
    by (simp add: read_before read_after read_marker)
  then show ?thesis
    using fine
    by (simp add: parse_control_def control_lines_clean [OF assms] join_split whole_control_def one_liner_def)
qed

definition sample_control :: control where
  "sample_control = \<lparr>ct_path = ''negative-controls/001.control'', ct_title = ''the guard is dropped'', ct_file = ''a.go'',
     ct_run = ''make test'', ct_before = ''if x {'' @ [newline] @ ''return'', ct_after = ''''\<rparr>"

lemma sample_control_fine: "control_fine sample_control"
proof -
  have "one_liner s" if "s \<in> {ct_title sample_control, ct_file sample_control, ct_run sample_control}" for s
  proof -
    have "list_all (\<lambda>s. newline \<notin> set s \<and> s \<noteq> '''') [ct_title sample_control, ct_file sample_control, ct_run sample_control]"
      "list_all (\<lambda>s. trim_space s = s) [ct_title sample_control, ct_file sample_control, ct_run sample_control]"
      by code_simp+
    with that show ?thesis by (auto simp: one_liner_def)
  qed
  moreover have "block (ct_before sample_control)" "block (ct_after sample_control)" "ct_before sample_control \<noteq> ''''"
    by code_simp+
  ultimately show ?thesis by (simp add: control_fine_def)
qed

theorem a_written_control_is_read_witness:
  "parse_control ''negative-controls/001.control'' (control_text sample_control) = Inr sample_control"
  using a_written_control_is_read [OF sample_control_fine] by (simp add: sample_control_def)

text \<open>A tree with one control, and a machine whose one command passes while the guarded line is there.\<close>

definition sample_disk :: disk where
  "sample_disk = [''a.go'' \<mapsto> ''func f() { '' @ ct_before sample_control @ '' }'',
     ct_path sample_control \<mapsto> control_text sample_control]"

definition sample_machine :: machine where
  "sample_machine = \<lparr>mc_status = Inr [newline], mc_paths = [ct_path sample_control],
     mc_run = (\<lambda>cmd d. (case d ''a.go'' of
         Some raw \<Rightarrow> if contains ''return'' raw then None else Some (Errorf [Txt ''exit status 1''])
       | None \<Rightarrow> Some (Errorf [Txt ''exit status 1'']), '''', d)),
     mc_writable = (\<lambda>f. True), mc_stats = (\<lambda>f. True), mc_error = (\<lambda>what f. Errorf [Txt what, Txt f]),
     mc_printer = \<lparr>quoted = id, duration_text = itoa, pg_text = pg_message\<rparr>\<rparr>"

lemma sample_machine_keeps: "keeps sample_machine T"
  by (simp add: keeps_def sample_machine_def split: option.split)

lemma sample_parsed: "parse_control (ct_path sample_control) (control_text sample_control) = Inr sample_control"
  by code_simp

lemma sample_loaded: "load_controls sample_machine sample_disk = Inr [sample_control]"
proof -
  have "read_file sample_machine (ct_path sample_control) sample_disk = Inr (control_text sample_control)"
    by (simp add: read_file_def sample_disk_def)
  moreover have "mc_paths sample_machine = [ct_path sample_control]" by (simp add: sample_machine_def)
  ultimately show ?thesis by (simp add: load_controls_def sample_parsed)
qed

definition sample_mutated :: disk where
  "sample_mutated = sample_disk(''a.go'' \<mapsto> ''func f() {  }'')"

lemma sample_applied:
  "apply_control sample_machine sample_control sample_disk = (Inr (the (sample_disk ''a.go'')), sample_mutated)"
proof -
  have f: "sample_disk (ct_file sample_control) = Some (''func f() { '' @ ct_before sample_control @ '' }'')"
    by (simp add: sample_disk_def sample_control_def)
  have "occurrences (ct_before sample_control) (''func f() { '' @ ct_before sample_control @ '' }'') = 1"
    "replace_first (''func f() { '' @ ct_before sample_control @ '' }'') (ct_before sample_control) (ct_after sample_control)
       = ''func f() {  }''"
    by code_simp+
  with f show ?thesis
    by (simp add: apply_control_def read_file_def write_file_def sample_mutated_def sample_machine_def)
       (simp add: sample_control_def)
qed

text \<open>
  A control mutates the one place it names.  Where \<^verbatim>\<open>apply\<close> makes the mutation of a control that was
  read, the text to replace is in the file once and no more (of places that do not overlap, the
  first has nothing like it after it), it alone is replaced, no other file changes, and the undo
  puts back what was there.
\<close>

theorem a_mutation_is_made_in_one_place:
  assumes "parse_control path raw = Inr c" and "apply_control m c d = (Inr original, d')"
  shows "(\<exists>a b. d (ct_file c) = Some (a @ ct_before c @ b) \<and> \<not> contains (ct_before c) b \<and>
      d' = d(ct_file c \<mapsto> a @ ct_after c @ b)) \<and>
    undo_control m c original d' = d"
proof -
  obtain a b where "d (ct_file c) = Some original" "original = a @ ct_before c @ b" "\<not> contains (ct_before c) b"
    "d' = d(ct_file c \<mapsto> a @ ct_after c @ b)" "mc_writable m (ct_file c)"
    using apply_control_Inr [OF assms(2) parsed_before [OF assms(1)]] by blast
  then show ?thesis by (auto simp: undo_control_def write_file_def fun_upd_idem)
qed

theorem a_mutation_is_made_in_one_place_witness:
  "undo_control sample_machine sample_control (the (sample_disk ''a.go'')) sample_mutated = sample_disk"
  using a_mutation_is_made_in_one_place [OF sample_parsed sample_applied] by simp



text \<open>
  What a passing run means.  Where the commands change no file, the run answers no error exactly
  when the tree was clean, there are controls and each of them reads, and each is green as the code
  stands, can be applied, and is red once it is.
\<close>

theorem a_run_passes_when_all_go_red:
  assumes "keeps m UNIV"
  shows "fst (run_controls m d) = None \<longleftrightarrow>
    (\<exists>out cs. mc_status m = Inr out \<and> trim_space out = '''' \<and> load_controls m d = Inr cs \<and> list_all (goes_red m d) cs)"
proof (cases "\<exists>out cs. mc_status m = Inr out \<and> trim_space out = '''' \<and> load_controls m d = Inr cs")
  case True
  then obtain out cs where o: "mc_status m = Inr out" "trim_space out = ''''" "load_controls m d = Inr cs" by blast
  obtain r said d' where t: "try_controls m cs d = (r, said, d')" by (cases "try_controls m cs d")
  have "r = Inr [] \<longleftrightarrow> list_all (goes_red m d) cs"
    by (rule try_controls_red [OF assms load_controls_before [OF o(3)] t])
  then have "fst (run_controls m d) = None \<longleftrightarrow> list_all (goes_red m d) cs"
    using o t by (cases r) (auto simp: run_controls_def)
  with o show ?thesis by auto
next
  case False
  then show ?thesis by (auto simp: run_controls_def split: sum.splits)
qed

theorem a_run_passes_when_all_go_red_witness:
  "fst (run_controls sample_machine sample_disk) = None"
proof -
  have "trim_space [newline] = ''''" by code_simp
  moreover have "contains ''return'' (''func f() { '' @ ct_before sample_control @ '' }'')"
    "\<not> contains ''return'' ''func f() {  }''"
    by code_simp+
  then have "goes_red sample_machine sample_disk sample_control"
    unfolding goes_red_def sample_applied by (simp add: sample_machine_def sample_disk_def sample_mutated_def sample_control_def)
  ultimately show ?thesis
    using a_run_passes_when_all_go_red [OF sample_machine_keeps, of sample_disk] sample_loaded
    by (simp add: sample_machine_def)
qed

end
