(* ===== verification/ConfigLaws.thy ===== *)
theory ConfigLaws
  imports Config
begin

text \<open>
  What \<^verbatim>\<open>pacioli serve\<close> settles on: a flag before the environment before the default, nothing but
  positive deadlines, a usage error for everything else, and the one zero that is not refused.
\<close>

section \<open>Reading flags\<close>

definition is_text :: "flag_value \<Rightarrow> bool" where
  "is_text v = (case v of TextFlag _ \<Rightarrow> True | DurationFlag _ \<Rightarrow> False)"

definition kinds :: "flags \<Rightarrow> (gostr \<times> bool) list" where
  "kinds fs = map (map_prod id is_text) fs"

lemma map_of_kinds: "map_of (kinds fs) n = map_option is_text (map_of fs n)"
  by (induction fs) (auto simp: kinds_def)

lemma kinds_put: "map_of fs n = Some w \<Longrightarrow> is_text v = is_text w \<Longrightarrow> kinds (put n v fs) = kinds fs"
  by (induction fs) (auto simp: kinds_def split: if_splits)

lemma map_of_put: "map_of fs n = Some w \<Longrightarrow> map_of (put n v fs) m = (if m = n then Some v else map_of fs m)"
  by (induction fs) (auto split: if_splits)

text \<open>The ways to set a flag on a command line.\<close>

datatype spelling = Equals | DoubleDashEquals | Separate | DoubleDashSeparate

fun spell :: "spelling \<Rightarrow> gostr \<Rightarrow> gostr \<Rightarrow> gostr list" where
  "spell Equals n v = [''-'' @ n @ ''='' @ v]"
| "spell DoubleDashEquals n v = [''--'' @ n @ ''='' @ v]"
| "spell Separate n v = [''-'' @ n, v]"
| "spell DoubleDashSeparate n v = [''--'' @ n, v]"

definition plain_name :: "gostr \<Rightarrow> bool" where
  "plain_name n \<longleftrightarrow> n \<noteq> '''' \<and> hd n \<noteq> CHR ''-'' \<and> CHR ''='' \<notin> set n"

lemma plain_names: "map_of (kinds formal_flags) n = Some k \<Longrightarrow> plain_name n"
proof -
  assume "map_of (kinds formal_flags) n = Some k"
  then have "n \<in> set (map fst (kinds formal_flags))" by (force dest: map_of_SomeD)
  moreover have "list_all plain_name (map fst (kinds formal_flags))" by code_simp
  ultimately show "plain_name n" by (auto simp: list_all_iff)
qed

definition meant :: "process \<Rightarrow> bool \<Rightarrow> gostr \<Rightarrow> flag_value" where
  "meant p wd v = (if wd then TextFlag v else DurationFlag (projr (pr_duration p v)))"

lemma is_text_meant [simp]: "is_text (meant p k v) = k"
  by (simp add: meant_def is_text_def)

definition settable :: "process \<Rightarrow> gostr \<times> gostr \<Rightarrow> bool" where
  "settable p = (\<lambda>(n, v). case map_of (kinds formal_flags) n of
     None \<Rightarrow> False | Some wd \<Rightarrow> wd \<or> (case pr_duration p v of Inl _ \<Rightarrow> False | Inr _ \<Rightarrow> True))"

lemma set_flag_meant:
  assumes "map_of fs n = Some old" and "is_text old \<or> (case pr_duration p v of Inl _ \<Rightarrow> False | Inr _ \<Rightarrow> True)"
  shows "set_flag p n old v fs = Inr (put n (meant p (is_text old) v) fs)"
  using assms(2) by (auto simp: set_flag_def meant_def is_text_def split: flag_value.splits sum.splits)

lemma parse_flags_spelled:
  assumes "plain_name n" and "map_of fs n = Some old"
    and "is_text old \<or> (case pr_duration p v of Inl _ \<Rightarrow> False | Inr _ \<Rightarrow> True)"
  shows "parse_flags p (spell k n v @ rest) fs = parse_flags p rest (put n (meant p (is_text old) v) fs)"
proof -
  obtain c n' where n: "n = c # n'" "c \<noteq> CHR ''-''" "c \<noteq> CHR ''=''" "CHR ''='' \<notin> set n'"
    using assms(1) by (cases n) (auto simp: plain_name_def)
  have "cut ''='' n = None"
    using assms(1) by (auto simp: cut_None contains_iff plain_name_def)
  moreover have "cut ''='' (n @ CHR ''='' # v) = Some (n, v)" for v
    by (rule cut_char) (use assms(1) in \<open>simp add: plain_name_def\<close>)
  ultimately have nv: "name_and_value (c # n') = (c # n', None)" "name_and_value (c # n' @ CHR ''='' # v) = (c # n', Some v)"
    by (simp_all add: name_and_value_def n(1))
  note s = set_flag_meant [OF assms(2,3)]
  show ?thesis
    by (cases k) (use assms(2) n nv s in \<open>simp_all add: trim_prefix_def Let_def\<close>)
qed

text \<open>Settings one after the other, as a command line and as what they mean: of two for one flag the last counts.\<close>

type_synonym settings = "(spelling \<times> gostr \<times> gostr) list"

definition spelled :: "settings \<Rightarrow> gostr list" where
  "spelled ss = concat (map (\<lambda>(k, n, v). spell k n v) ss)"

definition asked :: "settings \<Rightarrow> gostr \<Rightarrow> gostr option" where
  "asked ss n = map_of (rev (map snd ss)) n"

lemma parse_flags_settings:
  assumes "list_all (settable p \<circ> snd) ss" and "kinds fs = kinds formal_flags"
  shows "\<exists>fs'. parse_flags p (spelled ss) fs = Inr (fs', []) \<and>
    (\<forall>n wd. map_of (kinds formal_flags) n = Some wd \<longrightarrow>
       map_of fs' n = (case asked ss n of None \<Rightarrow> map_of fs n | Some v \<Rightarrow> Some (meant p wd v)))"
  using assms
proof (induction ss arbitrary: fs)
  case Nil
  then show ?case by (simp add: spelled_def asked_def)
next
  case (Cons s ss)
  obtain k n v where s: "s = (k, n, v)" by (cases s)
  from Cons.prems s obtain wd where t: "map_of (kinds formal_flags) n = Some wd"
    "wd \<or> (case pr_duration p v of Inl _ \<Rightarrow> False | Inr _ \<Rightarrow> True)"
    by (auto simp: settable_def split: option.splits)
  then obtain old where old: "map_of fs n = Some old" "is_text old = wd"
    using map_of_kinds [of fs n] Cons.prems(2) by (cases "map_of fs n") auto
  let ?fs = "put n (meant p wd v) fs"
  have k: "kinds ?fs = kinds formal_flags" using kinds_put [OF old(1), of "meant p wd v"] old(2) Cons.prems(2) by simp
  from Cons.IH [OF _ k] Cons.prems(1) obtain fs' where fs': "parse_flags p (spelled ss) ?fs = Inr (fs', [])"
    "\<And>m wd. map_of (kinds formal_flags) m = Some wd \<Longrightarrow>
       map_of fs' m = (case asked ss m of None \<Rightarrow> map_of ?fs m | Some v \<Rightarrow> Some (meant p wd v))"
    by auto
  have "parse_flags p (spelled (s # ss)) fs = Inr (fs', [])"
    using parse_flags_spelled [OF plain_names [OF t(1)] old(1), of p v k "spelled ss"] t(2) old(2) fs'(1)
    by (simp add: spelled_def s)
  moreover have "map_of fs' m = (case asked (s # ss) m of None \<Rightarrow> map_of fs m | Some v \<Rightarrow> Some (meant p wd' v))"
    if "map_of (kinds formal_flags) m = Some wd'" for m wd'
    using fs'(2) [OF that] that t(1)
    by (auto simp: asked_def s map_of_put [OF old(1)] map_add_def split: option.splits if_splits)
  ultimately show ?case by blast
qed

lemma settle_graces_Inl:
  assumes "g \<in> set gs"
    and "first_duration p (given_duration fs (gr_flag g)) (pr_env p (grace_env g)) (gr_def g) = Inl e"
  shows "\<exists>e. settle_graces p fs gs d = Inl e"
  using assms by (induction gs arbitrary: d) (auto split: sum.split)

section \<open>Properties\<close>

definition asked_text :: "settings \<Rightarrow> gostr \<Rightarrow> gostr" where
  "asked_text ss n = (case asked ss n of Some v \<Rightarrow> v | None \<Rightarrow> '''')"

definition asked_duration :: "process \<Rightarrow> settings \<Rightarrow> gostr \<Rightarrow> int64" where
  "asked_duration p ss n = (case asked ss n of Some v \<Rightarrow> projr (pr_duration p v) | None \<Rightarrow> 0)"

definition deadline_for :: "process \<Rightarrow> settings \<Rightarrow> gostr \<Rightarrow> gostr \<Rightarrow> int \<Rightarrow> err + int64" where
  "deadline_for p ss flag env s = first_duration p (asked_duration p ss flag) (pr_env p env) (seconds s)"


text \<open>An environment with one deadline set, and a reader of durations that knows three.\<close>

definition sample_process :: process where
  "sample_process = \<lparr>pr_env = (\<lambda>n. if n = ''LEDGER_READ_TIMEOUT'' then ''5s'' else ''''),
     pr_duration = (\<lambda>s. if s = ''0s'' then Inr 0 else if s = ''5s'' then Inr (seconds 5) else if s = ''7s'' then Inr (seconds 7)
        else Inl (Errorf [Txt ''time: invalid duration '', Quo s])),
     pr_show = (\<lambda>d. itoa (sint d) @ ''ns'')\<rparr>"

definition sample_settings :: settings where
  "sample_settings = [(Separate, ''addr'', '':80''), (DoubleDashEquals, ''read-timeout'', ''0s''), (Equals, ''idle-timeout'', ''5s''),
     (Separate, ''idle-timeout'', ''7s'')]"

definition sample_config :: config where
  "sample_config = \<lparr>cf_addr = '':80'', cf_dsn = default_dsn, cf_deadlines = default_deadlines
     \<lparr>dl_read := seconds 5, dl_idle := seconds 7\<rparr>\<rparr>"

lemma sample_config_settled: "parse_serve sample_process (spelled sample_settings) = Inr sample_config"
  by code_simp


lemma settled_is_positive:
  assumes "parse_serve p args = Inr cfg"
  shows "0 < sint (dl_read_header (cf_deadlines cfg)) \<and> 0 < sint (dl_read (cf_deadlines cfg)) \<and>
    0 < sint (dl_request (cf_deadlines cfg)) \<and> 0 < sint (dl_acquire (cf_deadlines cfg)) \<and>
    0 < sint (dl_write (cf_deadlines cfg)) \<and> 0 < sint (dl_idle (cf_deadlines cfg)) \<and>
    cf_addr cfg \<noteq> '''' \<and> cf_dsn cfg \<noteq> ''''"
proof -
  obtain fs where d: "settle_graces p fs graces no_deadlines = Inr (cf_deadlines cfg)"
    "cf_addr cfg = first_set [given_text fs ''addr'', pr_env p addr_env, default_addr]"
    "cf_dsn cfg = first_set [given_text fs ''dsn'', pr_env p dsn_env, default_dsn]"
  proof (cases "parse_flags p args formal_flags")
    case (Inr x)
    then obtain fs where "x = (fs, [])" using assms by (cases x; cases "snd x") (auto simp: parse_serve_def)
    with Inr assms that [of fs] show ?thesis
      by (cases "settle_graces p fs graces no_deadlines") (auto simp: parse_serve_def)
  qed (use assms in \<open>simp add: parse_serve_def\<close>)
  note s = settle_all [OF d(1), unfolded settled_def]
  show ?thesis
    using s [THEN first_duration_positive] seconds_positive d(2,3) first_set_default [of default_addr] first_set_default [of default_dsn]
    by (simp add: default_addr_def default_dsn_def)
qed

text \<open>
  C33. The server is never without a deadline.  Whatever the command line and the environment hold, a
  configuration \<^verbatim>\<open>parseServe\<close> settles has six deadlines longer than nothing, an address and a
  connection string.
\<close>

theorem every_deadline_is_positive:
  assumes "parse_serve p args = Inr cfg"
  shows "0 < sint (dl_read_header (cf_deadlines cfg)) \<and> 0 < sint (dl_read (cf_deadlines cfg)) \<and>
    0 < sint (dl_request (cf_deadlines cfg)) \<and> 0 < sint (dl_acquire (cf_deadlines cfg)) \<and>
    0 < sint (dl_write (cf_deadlines cfg)) \<and> 0 < sint (dl_idle (cf_deadlines cfg)) \<and>
    cf_addr cfg \<noteq> '''' \<and> cf_dsn cfg \<noteq> ''''"
  by (rule settled_is_positive [OF assms])

theorem every_deadline_is_positive_witness:
  "0 < sint (dl_read (cf_deadlines sample_config))"
  using every_deadline_is_positive [OF sample_config_settled] by simp

text \<open>Whatever \<^verbatim>\<open>parseServe\<close> refuses, it refuses as a usage error.\<close>

lemma bad_configuration:
  "case parse_serve p args of Inl e \<Rightarrow> errors_is e ErrUsage | Inr _ \<Rightarrow> True"
proof -
  have u: "errors_is e ErrUsage" if "settle_graces p fs gs d = Inl e" for fs gs d e
    using that by (induction gs arbitrary: d) (auto simp: errors_is_def split: sum.splits)
  show ?thesis
  proof (cases "parse_flags p args formal_flags")
    case (Inr x)
    obtain fs rest where x: "x = (fs, rest)" by (cases x)
    show ?thesis
    proof (cases rest)
      case Nil
      then show ?thesis
        using u [of fs graces no_deadlines] by (cases "settle_graces p fs graces no_deadlines") (simp_all add: parse_serve_def Inr x)
    qed (simp add: parse_serve_def Inr x errors_is_def)
  qed (simp add: parse_serve_def errors_is_def)
qed

text \<open>
  C38. A zero on the command line is not refused.  \<^verbatim>\<open>-request-timeout 0s\<close>, or a zero for any other deadline,
  settles exactly what leaving the flag out does; the same zero in the environment is refused.
\<close>

theorem a_zero_flag_is_no_flag:
  assumes "g \<in> set graces" and "pr_duration p zero = Inr 0" and "zero \<noteq> ''''"
  shows "parse_serve p [''-'' @ gr_flag g, zero] = parse_serve p [] \<and>
    (pr_env p (grace_env g) = zero \<longrightarrow> (\<exists>e. parse_serve p [] = Inl e))"
proof -
  have g: "map_of formal_flags (gr_flag g) = Some (DurationFlag 0)" "plain_name (gr_flag g)"
  proof -
    show "map_of formal_flags (gr_flag g) = Some (DurationFlag 0)" using assms(1) by (auto simp: graces_def formal_flags_def)
    then show "plain_name (gr_flag g)" using plain_names [of "gr_flag g"] by (simp add: map_of_kinds)
  qed
  have same: "map_of fs n = Some v \<Longrightarrow> put n v fs = fs" for n v fs
    by (induction fs) (auto split: if_splits)
  have "parse_flags p [''-'' @ gr_flag g, zero] formal_flags = Inr (formal_flags, [])"
    using parse_flags_spelled [OF g(2,1), of p zero Separate "[]"] assms(2) same [OF g(1)]
    by (simp add: meant_def is_text_def)
  moreover have "\<exists>e. parse_serve p [] = Inl e" if "pr_env p (grace_env g) = zero"
  proof -
    have "first_duration p (given_duration formal_flags (gr_flag g)) (pr_env p (grace_env g)) (gr_def g) =
        Inl (Errorf [Txt ''a deadline of '', Txt (pr_show p 0),
          Txt '' is no deadline at all, which is what these flags exist to end. Give a positive duration''])"
      using that assms(2,3) g(1) by (simp add: first_duration_def given_duration_def positive_def)
    from settle_graces_Inl [OF assms(1) this] obtain e where "settle_graces p formal_flags graces no_deadlines = Inl e" by blast
    then show ?thesis by (simp add: parse_serve_def)
  qed
  ultimately show ?thesis by (simp add: parse_serve_def)
qed

theorem a_zero_flag_is_no_flag_witness:
  "parse_serve sample_process [''-request-timeout'', ''0s''] = parse_serve sample_process []"
  using a_zero_flag_is_no_flag [of "graces ! 2" sample_process "''0s''"] by (simp add: graces_def sample_process_def)

end
