(* ===== verification/Migrate.thy ===== *)
theory Migrate
  imports History
begin

text \<open>
  \<^verbatim>\<open>Apply\<close> of \<^verbatim>\<open>internal/schema/schema.go\<close>: the schema installed where it is not there yet.  \<open>apply_schema\<close> is one
  call with nobody else about; \<open>apply_step\<close> is any number of them at once, statement by statement, with
  clients at work on the ledger between.  What Postgres gives the code here is \<^verbatim>\<open>pg_advisory_xact_lock\<close>:
  one transaction holds the lock until it ends.  The theory shows that a ledger once installed is never
  installed again or lost, however many servers start at once and however many of them fail.
\<close>

section \<open>One call\<close>

text \<open>Where the schema is not installed there is no database of ours; and what each statement answers.\<close>

type_synonym site = "database option"

record mishaps =
  ms_begin :: "err option"
  ms_lock :: "err option"
  ms_probe :: "err option"
  ms_exec :: "err option"
  ms_commit :: "err option"
  ms_landed :: bool

definition or_else :: "err option \<Rightarrow> (err \<Rightarrow> 'a) \<Rightarrow> 'a \<Rightarrow> 'a" where
  "or_else x h k = (case x of Some e \<Rightarrow> h e | None \<Rightarrow> k)"

definition apply_schema :: "ctype \<Rightarrow> mishaps \<Rightarrow> site \<Rightarrow> (err + bool) \<times> site" where
  "apply_schema ct m site =
     or_else (ms_begin m) (\<lambda>e. (Inl (wrapped ''begin'' e), site)) (
     or_else (ms_lock m) (\<lambda>e. (Inl (wrapped ''lock'' e), site)) (
     or_else (ms_probe m) (\<lambda>e. (Inl (wrapped ''probe for public.postings'' e), site)) (
     if site \<noteq> None then or_else (ms_commit m) (\<lambda>e. (Inl e, site)) (Inr False, site)
     else
     or_else (ms_exec m) (\<lambda>e. (Inl (wrapped ''apply 0001_ledger.sql'' e), site)) (
     or_else (ms_commit m)
       (\<lambda>e. (Inl (wrapped ''commit'' e), if ms_landed m then Some (new_database ct) else site))
       (Inr True, Some (new_database ct))))))"

text \<open>
  What \<^verbatim>\<open>serve\<close> and the test helper rely on: a ledger that is there is left as it is, one that is not may be
  made, and a call that answers without an error leaves one and says whether it made it.
\<close>

locale installer =
  fixes install :: "mishaps \<Rightarrow> site \<Rightarrow> (err + bool) \<times> site"
    and fresh :: database
  assumes keeps: "install m (Some d) = (r, site') \<Longrightarrow> site' = Some d"
    and makes: "install m None = (r, site') \<Longrightarrow> site' = None \<or> site' = Some fresh"
    and tells: "install m site = (Inr b, site') \<Longrightarrow> site' \<noteq> None \<and> (b \<longleftrightarrow> site = None)"
begin

lemma leaves: "install m site = (r, site') \<Longrightarrow> site' = site \<or> site = None \<and> site' = Some fresh"
  by (cases site) (auto dest: keeps makes)

lemma succeeds: "install m None = (Inr b, site') \<Longrightarrow> site' = Some fresh"
  using makes tells by blast

lemma installs_once: "install m site = (Inr b, s1) \<Longrightarrow> install m' s1 = (Inr b', s2) \<Longrightarrow> s2 = s1 \<and> \<not> b'"
  using tells keeps by (metis option.exhaust)

end

interpretation installed: installer "apply_schema ct" "new_database ct" for ct
  by unfold_locales (auto simp: apply_schema_def or_else_def split: option.splits if_splits)

section \<open>Many calls at once\<close>

datatype phase =
    Called
  | Begun
  | Holding
  | Probed bool
  | Installing
  | Answered "err + bool"

text \<open>What is committed, who holds the lock, and where each call has got to.\<close>

record starting =
  st_site :: site
  st_lock :: "nat option"
  st_phase :: "nat \<Rightarrow> phase"

definition goes :: "nat \<Rightarrow> phase \<Rightarrow> starting \<Rightarrow> starting" where
  "goes i p s = s\<lparr>st_phase := (st_phase s)(i := p)\<rparr>"

text \<open>The end of a transaction gives the lock back, and what it answered is what the call answers.\<close>

definition ends :: "nat \<Rightarrow> err + bool \<Rightarrow> starting \<Rightarrow> starting" where
  "ends i r s = goes i (Answered r) s\<lparr>st_lock := None\<rparr>"

inductive apply_step :: "(stmt \<Rightarrow> bool) \<Rightarrow> ctype \<Rightarrow> starting \<Rightarrow> starting \<Rightarrow> bool" for A ct where
  begins: "st_phase s i = Called \<Longrightarrow> apply_step A ct s (goes i Begun s)"
| not_begun: "st_phase s i = Called \<Longrightarrow> apply_step A ct s (goes i (Answered (Inl (wrapped ''begin'' e))) s)"
| locks: "st_phase s i = Begun \<Longrightarrow> st_lock s = None \<Longrightarrow> apply_step A ct s (goes i Holding s\<lparr>st_lock := Some i\<rparr>)"
| not_locked: "st_phase s i = Begun \<Longrightarrow> apply_step A ct s (goes i (Answered (Inl (wrapped ''lock'' e))) s)"
| probes: "st_phase s i = Holding \<Longrightarrow> apply_step A ct s (goes i (Probed (st_site s \<noteq> None)) s)"
| not_probed: "st_phase s i = Holding \<Longrightarrow> apply_step A ct s (ends i (Inl (wrapped ''probe for public.postings'' e)) s)"
| present: "st_phase s i = Probed True \<Longrightarrow> apply_step A ct s (ends i (Inr False) s)"
| present_lost: "st_phase s i = Probed True \<Longrightarrow> apply_step A ct s (ends i (Inl e) s)"
| installs: "st_phase s i = Probed False \<Longrightarrow> apply_step A ct s (goes i Installing s)"
| not_installed: "st_phase s i = Probed False \<Longrightarrow> apply_step A ct s (ends i (Inl (wrapped ''apply 0001_ledger.sql'' e)) s)"
| commits: "st_phase s i = Installing \<Longrightarrow> apply_step A ct s (ends i (Inr True) s\<lparr>st_site := Some (new_database ct)\<rparr>)"
| not_committed: "st_phase s i = Installing \<Longrightarrow> apply_step A ct s (ends i (Inl (wrapped ''commit'' e)) s)"
| commit_lost: "st_phase s i = Installing \<Longrightarrow>
    apply_step A ct s (ends i (Inl (wrapped ''commit'' e)) s\<lparr>st_site := Some (new_database ct)\<rparr>)"
| clients: "st_site s = Some d \<Longrightarrow> onward A d d' \<Longrightarrow> apply_step A ct s (s\<lparr>st_site := Some d'\<rparr>)"

definition apply_steps :: "(stmt \<Rightarrow> bool) \<Rightarrow> ctype \<Rightarrow> starting \<Rightarrow> starting \<Rightarrow> bool" where
  "apply_steps A ct = (apply_step A ct)\<^sup>*\<^sup>*"

section \<open>Who holds the lock\<close>

definition inside :: "phase \<Rightarrow> bool" where
  "inside p \<longleftrightarrow> p = Holding \<or> p = Installing \<or> (\<exists>b. p = Probed b)"

lemma goes_parts [simp]:
  "st_phase (goes i p s) = (st_phase s)(i := p)" "st_site (goes i p s) = st_site s" "st_lock (goes i p s) = st_lock s"
  "st_phase (ends i r s) = (st_phase s)(i := Answered r)" "st_site (ends i r s) = st_site s" "st_lock (ends i r s) = None"
  by (simp_all add: goes_def ends_def)

lemma inside_simps [simp]:
  "inside Holding" "inside Installing" "inside (Probed b)" "\<not> inside Called" "\<not> inside Begun" "\<not> inside (Answered r)"
  by (simp_all add: inside_def)

definition one_holder :: "starting \<Rightarrow> bool" where
  "one_holder s \<longleftrightarrow> (\<forall>i. inside (st_phase s i) \<longrightarrow> st_lock s = Some i)"

lemma one_holderD: "one_holder s \<Longrightarrow> inside (st_phase s i) \<Longrightarrow> inside (st_phase s j) \<Longrightarrow> i = j"
  by (simp add: one_holder_def) (metis option.inject)

lemma ends_one_holder:
  assumes "one_holder s" and "inside (st_phase s i)"
  shows "one_holder (ends i r s)" and "one_holder (ends i r s\<lparr>st_site := x\<rparr>)"
  using one_holderD [OF assms] by (auto simp: one_holder_def)

lemma step_one_holder: "apply_step A ct s s' \<Longrightarrow> one_holder s \<Longrightarrow> one_holder s'"
  by (induction rule: apply_step.induct) (simp_all add: ends_one_holder, auto simp: one_holder_def)

text \<open>What a call has seen is still so: nobody else can install between its probe and its end.\<close>

fun seen :: "site \<Rightarrow> phase \<Rightarrow> bool" where
  "seen site (Probed b) = (b \<longleftrightarrow> site \<noteq> None)"
| "seen site Installing = (site = None)"
| "seen site (Answered (Inr b)) = (site \<noteq> None)"
| "seen site _ = True"

definition all_seen :: "starting \<Rightarrow> bool" where
  "all_seen s \<longleftrightarrow> (\<forall>i. seen (st_site s) (st_phase s i))"

lemma all_seenD: "all_seen s \<Longrightarrow> st_phase s i = p \<Longrightarrow> seen (st_site s) p"
  by (auto simp: all_seen_def)

lemma seen_outside: "\<not> inside p \<Longrightarrow> seen site p \<Longrightarrow> seen (Some d) p"
  by (cases "(site, p)" rule: seen.cases) auto

lemma seen_some: "seen (Some d) p \<Longrightarrow> seen (Some d') p"
  by (cases "(Some d, p)" rule: seen.cases) auto

lemma step_seen:
  assumes "apply_step A ct s s'" and "one_holder s" and "all_seen s"
  shows "all_seen s'"
  using assms
proof (induction rule: apply_step.induct)
  case (commits s i)
  show ?case
    unfolding all_seen_def
  proof
    fix j
    show "seen (st_site (ends i (Inr True) s\<lparr>st_site := Some (new_database ct)\<rparr>))
        (st_phase (ends i (Inr True) s\<lparr>st_site := Some (new_database ct)\<rparr>) j)"
    proof (cases "j = i")
      case False
      then have "\<not> inside (st_phase s j)" using one_holderD [OF commits(2), of i j] commits(1) by auto
      with commits(3) False show ?thesis by (auto simp: all_seen_def intro: seen_outside)
    qed simp
  qed
next
  case (commit_lost s i e)
  show ?case
    unfolding all_seen_def
  proof
    fix j
    show "seen (st_site (ends i (Inl (wrapped ''commit'' e)) s\<lparr>st_site := Some (new_database ct)\<rparr>))
        (st_phase (ends i (Inl (wrapped ''commit'' e)) s\<lparr>st_site := Some (new_database ct)\<rparr>) j)"
    proof (cases "j = i")
      case False
      then have "\<not> inside (st_phase s j)" using one_holderD [OF commit_lost(2), of i j] commit_lost(1) by auto
      with commit_lost(3) False show ?thesis by (auto simp: all_seen_def intro: seen_outside)
    qed simp
  qed
next
  case (clients s d d')
  then show ?case by (auto simp: all_seen_def intro: seen_some)
next
  case (present s i)
  then show ?case using all_seenD [of s i "Probed True"] by (auto simp: all_seen_def)
next
  case (installs s i)
  then show ?case using all_seenD [of s i "Probed False"] by (auto simp: all_seen_def)
qed (auto simp: all_seen_def)

text \<open>At most one call says it was the one that installed.\<close>

definition one_installer :: "starting \<Rightarrow> bool" where
  "one_installer s \<longleftrightarrow> (\<forall>i j. st_phase s i = Answered (Inr True) \<longrightarrow> st_phase s j = Answered (Inr True) \<longrightarrow> i = j)"

lemma step_one_installer:
  assumes "apply_step A ct s s'" and "all_seen s" and "one_installer s"
  shows "one_installer s'"
  using assms
proof (induction rule: apply_step.induct)
  case (commits s i)
  have "st_site s = None" using all_seenD [OF commits(2,1)] by simp
  then have "st_phase s j \<noteq> Answered (Inr True)" for j using all_seenD [OF commits(2), of j] by force
  then show ?case by (auto simp: one_installer_def)
qed (auto simp: one_installer_def)

section \<open>Properties\<close>

definition nobody_yet :: "site \<Rightarrow> starting" where
  "nobody_yet site = \<lparr>st_site = site, st_lock = None, st_phase = (\<lambda>i. Called)\<rparr>"

lemma starts_keep:
  assumes "apply_steps A ct (nobody_yet site) s"
  shows "one_holder s \<and> all_seen s \<and> one_installer s"
  using assms unfolding apply_steps_def
proof (induction rule: rtranclp_induct)
  case base
  show ?case by (simp add: nobody_yet_def one_holder_def all_seen_def one_installer_def)
next
  case (step s s')
  then show ?case using step_one_holder step_seen step_one_installer by blast
qed

text \<open>One call that meets nobody else is a run of the relation.\<close>

definition only_call :: "site \<Rightarrow> nat option \<Rightarrow> phase \<Rightarrow> starting" where
  "only_call site l p = \<lparr>st_site = site, st_lock = l, st_phase = (\<lambda>i. Called)(0 := p)\<rparr>"

lemma only_call_parts [simp]:
  "st_phase (only_call site l p) 0 = p" "st_lock (only_call site l p) = l" "st_site (only_call site l p) = site"
  "goes 0 q (only_call site l p) = only_call site l q" "ends 0 r (only_call site l p) = only_call site None (Answered r)"
  "only_call site l p\<lparr>st_lock := l'\<rparr> = only_call site l' p" "only_call site l p\<lparr>st_site := site'\<rparr> = only_call site' l p"
  by (simp_all add: only_call_def goes_def ends_def)

lemma nobody_yet_only_call: "nobody_yet site = only_call site None Called"
  by (auto simp: nobody_yet_def only_call_def)

lemma steps_into: "apply_steps A ct s s' \<Longrightarrow> apply_step A ct s' s'' \<Longrightarrow> apply_steps A ct s s''"
  by (simp add: apply_steps_def)

lemma one_call_is_a_run:
  assumes "apply_schema ct m site = (r, site')"
  shows "apply_steps A ct (nobody_yet site) (only_call site' None (Answered r))"
proof -
  note step = apply_step.intros(1-13) [where A = A and ct = ct and i = 0]
  have a0: "apply_steps A ct (nobody_yet site) (only_call site None Called)" by (simp add: nobody_yet_only_call apply_steps_def)
  have a1: "apply_steps A ct (nobody_yet site) (only_call site None Begun)"
    using steps_into [OF a0] step(1) [of "only_call site None Called"] by simp
  have a2: "apply_steps A ct (nobody_yet site) (only_call site (Some 0) Holding)"
    using steps_into [OF a1] step(3) [of "only_call site None Begun"] by simp
  have a3: "apply_steps A ct (nobody_yet site) (only_call site (Some 0) (Probed (site \<noteq> None)))"
    using steps_into [OF a2] step(5) [of "only_call site (Some 0) Holding"] by simp
  have a4: "apply_steps A ct (nobody_yet None) (only_call None (Some 0) Installing)" if "site = None"
    using steps_into [OF a3] step(9) [of "only_call site (Some 0) (Probed False)"] that by simp
  show ?thesis
    using assms
      steps_into [OF a0] step(2) [of "only_call site None Called"]
      steps_into [OF a1] step(4) [of "only_call site None Begun"]
      steps_into [OF a2] step(6) [of "only_call site (Some 0) Holding"]
      steps_into [OF a3] step(7,8) [of "only_call site (Some 0) (Probed True)"] step(10) [of "only_call site (Some 0) (Probed False)"]
      steps_into [OF a4] step(11-13) [of "only_call site (Some 0) Installing"]
    by (auto simp: apply_schema_def or_else_def split: option.splits if_splits)
qed

text \<open>What is installed goes on as clients take it, and only so.\<close>

definition goes_on :: "(stmt \<Rightarrow> bool) \<Rightarrow> ctype \<Rightarrow> site \<Rightarrow> site \<Rightarrow> bool" where
  "goes_on A ct x y =
     (case (x, y) of
        (_, None) \<Rightarrow> x = None
      | (None, Some d) \<Rightarrow> onward A (new_database ct) d
      | (Some d0, Some d) \<Rightarrow> onward A d0 d)"

lemma onward_trans: "onward A d' d'' \<Longrightarrow> onward A d d' \<Longrightarrow> onward A d d''"
  by (induction rule: onward.induct) (auto intro: onward.intros)

lemma goes_on_trans: "goes_on A ct x (Some d) \<Longrightarrow> onward A d d' \<Longrightarrow> goes_on A ct x (Some d')"
  by (auto simp: goes_on_def intro: onward_trans split: option.splits)

text \<open>
  C31. Any number of servers may start at once.  However the statements of their calls of \<^verbatim>\<open>Apply\<close>
  interleave, with each other and with clients at work, and whichever of them fail: a ledger that was
  there is there still, with nothing done to it but what its clients did; one that was not is the
  empty one or what its clients made of that; a call that answers without an error leaves one
  installed; and at most one call says it installed it.
\<close>

theorem servers_may_start_together:
  assumes "apply_steps A ct (nobody_yet site) s"
  shows "goes_on A ct site (st_site s) \<and>
    (\<forall>i b. st_phase s i = Answered (Inr b) \<longrightarrow> st_site s \<noteq> None) \<and>
    (\<forall>i j. st_phase s i = Answered (Inr True) \<longrightarrow> st_phase s j = Answered (Inr True) \<longrightarrow> i = j)"
proof -
  have "goes_on A ct site (st_site s)"
    using assms [unfolded apply_steps_def]
  proof (induction rule: rtranclp_induct)
    case base
    show ?case by (simp add: nobody_yet_def goes_on_def onward.here split: option.split)
  next
    case (step s s')
    have keep: "one_holder s \<and> all_seen s \<and> one_installer s" using starts_keep step(1) by (simp add: apply_steps_def)
    have fresh: "goes_on A ct site (Some (new_database ct))" if "st_phase s i = Installing" for i
    proof -
      have "st_site s = None" using all_seenD [OF _ that] keep by simp
      with step(3) show ?thesis by (auto simp: goes_on_def onward.here split: option.splits)
    qed
    from step(2) show ?case
      by (cases rule: apply_step.cases) (use step(3) fresh in \<open>auto intro: goes_on_trans\<close>)
  qed
  moreover have "st_site s \<noteq> None" if "st_phase s i = Answered (Inr b)" for i b
    using all_seenD [OF _ that] starts_keep [OF assms] by simp
  moreover have "one_installer s" using starts_keep [OF assms] by blast
  ultimately show ?thesis unfolding one_installer_def by blast
qed

definition no_mishap :: mishaps where
  "no_mishap = \<lparr>ms_begin = None, ms_lock = None, ms_probe = None, ms_exec = None, ms_commit = None, ms_landed = False\<rparr>"

theorem servers_may_start_together_witness:
  "goes_on (\<lambda>q. True) c_locale None (Some (new_database c_locale))"
proof -
  have "apply_schema c_locale no_mishap None = (Inr True, Some (new_database c_locale))"
    by (simp add: apply_schema_def no_mishap_def or_else_def)
  from servers_may_start_together [OF one_call_is_a_run [OF this, of "\<lambda>q. True"]] show ?thesis by simp
qed

end
