(* ===== verification/Server.thy ===== *)
theory Server
  imports ConfigLaws Migrate Service
begin

text \<open>
  \<^verbatim>\<open>cmd/pacioli\<close>: the command, from its arguments to its exit status.  \<open>serve\<close> reads its configuration, opens the
  pool, installs the schema, listens, and serves until it is told to stop; \<open>run_command\<close> is \<^verbatim>\<open>run\<close>.  What the driver,
  the network and the signals answer is an argument.
\<close>

section \<open>The pool\<close>

definition database_graces :: "(gostr \<times> gostr) list" where
  "database_graces = [(''statement_timeout'', ''20s''), (''lock_timeout'', ''10s''),
     (''idle_in_transaction_session_timeout'', ''30s'')]"

text \<open>The startup parameters of a connection: a name the connection string gives keeps its value.\<close>

definition with_graces :: "(gostr \<Rightarrow> gostr option) \<Rightarrow> gostr \<Rightarrow> gostr option" where
  "with_graces given = fold (\<lambda>(name, value) ps. if ps name = None then ps(name \<mapsto> value) else ps) database_graces given"

record pool_settings =
  po_params :: "gostr \<Rightarrow> gostr option"
  po_max_open :: nat
  po_max_idle :: nat
  po_max_lifetime :: int64

definition connect_grace :: int64 where
  "connect_grace = seconds 10"

definition drain_grace :: int64 where
  "drain_grace = seconds 15"

text \<open>
  What is outside: the driver's reading of a connection string, \<^verbatim>\<open>url.Parse\<close> and \<^verbatim>\<open>Redacted\<close> of it, the answer to
  a ping within a time, the statements of \<^verbatim>\<open>Apply\<close>, the listener, and how serving went.
\<close>

record surroundings =
  su_process :: process
  su_params :: "gostr \<Rightarrow> err + (gostr \<Rightarrow> gostr option)"
  su_redacted :: "gostr \<Rightarrow> gostr option"
  su_ping :: "int64 \<Rightarrow> err option"
  su_mishaps :: mishaps
  su_listen :: "gostr \<Rightarrow> err + gostr"
  su_stopped :: "err option"
  su_shutdown :: "int64 \<Rightarrow> err option"
  su_served :: "err option"

definition redacted :: "surroundings \<Rightarrow> gostr \<Rightarrow> gostr" where
  "redacted su dsn = (case su_redacted su dsn of None \<Rightarrow> ''the configured database'' | Some u \<Rightarrow> u)"

definition open_pool :: "surroundings \<Rightarrow> gostr \<Rightarrow> err + pool_settings" where
  "open_pool su dsn =
     (case su_params su dsn of
        Inl e \<Rightarrow> Inl (Errorf [Txt ''read '', Txt (redacted su dsn), Txt '' as a connection string: '', Cause e])
      | Inr given \<Rightarrow>
          (case su_ping su connect_grace of
             Some e \<Rightarrow> Inl (Errorf [Txt ''reach the database at '', Txt (redacted su dsn), Txt '': '', Cause e,
               Txt ([newline, newline] @ ''Start it with: make db-up, or point somewhere else with -dsn or $''), Txt dsn_env])
           | None \<Rightarrow> Inr \<lparr>po_params = with_graces given, po_max_open = 16, po_max_idle = 8, po_max_lifetime = seconds (30 * 60)\<rparr>))"

section \<open>The listener\<close>

record listener =
  ls_budget :: int64
  ls_read_header :: int64
  ls_read :: int64
  ls_write :: int64
  ls_idle :: int64

definition new_server :: "deadlines \<Rightarrow> listener" where
  "new_server d = \<lparr>ls_budget = dl_request d, ls_read_header = dl_read_header d, ls_read = dl_read d,
     ls_write = dl_write d, ls_idle = dl_idle d\<rparr>"

text \<open>\<^verbatim>\<open>store\<close>: what a handler waits for a connection.\<close>

definition store_acquire :: "deadlines \<Rightarrow> int64" where
  "store_acquire d = dl_acquire d"

text \<open>
  One request to a server: the endpoint its route names, with what the store lends, under the budget of the listener.
  What no route takes, the mux answers.
\<close>

definition handle :: "library \<Rightarrow> deadlines \<Rightarrow> lending \<Rightarrow> bool \<Rightarrow> endpoint \<Rightarrow> http_request \<Rightarrow> database \<Rightarrow> reply \<times> database" where
  "handle lib d l ran_out ep r db =
     deadline lib (sint (ls_budget (new_server d))) ran_out (serve_endpoint ep lib (sint (store_acquire d)) l r db)"

definition drain :: "surroundings \<Rightarrow> err option" where
  "drain su = su_shutdown su drain_grace"

text \<open>\<open>su_stopped\<close> is what \<^verbatim>\<open>Serve\<close> returned before any signal, if it did; \<open>su_served\<close> is what it returned after.\<close>

definition serve_on :: "surroundings \<Rightarrow> gostr \<Rightarrow> err option \<times> gostr list" where
  "serve_on su addr =
     (let said = [''listening on '' @ addr] in
      case su_stopped su of
        Some e \<Rightarrow> (Some (Errorf [Txt ''serve on '', Txt addr, Txt '': '', Cause e]), said)
      | None \<Rightarrow>
          (let said = said @ [''signal received, finishing the requests already in flight''] in
           case drain su of
             Some e \<Rightarrow> (Some (Errorf [Txt ''shut down after '', Txt (pr_show (su_process su) drain_grace), Txt '': '', Cause e]), said)
           | None \<Rightarrow>
               (case su_served su of
                  Some e \<Rightarrow>
                    if \<not> errors_is e ErrServerClosed
                    then (Some (Errorf [Txt ''serve on '', Txt addr, Txt '': '', Cause e]), said)
                    else (None, said @ [''stopped''])
                | None \<Rightarrow> (None, said @ [''stopped'']))))"

section \<open>The server\<close>

definition serve :: "ctype \<Rightarrow> surroundings \<Rightarrow> gostr list \<Rightarrow> site \<Rightarrow> err option \<times> gostr list \<times> site" where
  "serve ct su args site =
     (case parse_serve (su_process su) args of
        Inl e \<Rightarrow> (Some e, [], site)
      | Inr cfg \<Rightarrow>
          (case open_pool su (cf_dsn cfg) of
             Inl e \<Rightarrow> (Some e, [], site)
           | Inr pool \<Rightarrow>
               (case apply_schema ct (su_mishaps su) site of
                  (Inl e, site') \<Rightarrow>
                    (Some (Errorf [Txt ''apply the schema to '', Txt (redacted su (cf_dsn cfg)), Txt '': '', Cause e]), [], site')
                | (Inr applied, site') \<Rightarrow>
                    (let said = [if applied then ''schema applied from internal/schema/0001_ledger.sql'' else ''schema already present''] in
                     case su_listen su (cf_addr cfg) of
                       Inl e \<Rightarrow>
                         (Some (Errorf [Txt ''listen on '', Txt (cf_addr cfg), Txt '': '', Cause e,
                            Txt ([newline, newline] @ ''Ask for another with -addr, or $''), Txt addr_env]), said, site')
                     | Inr addr \<Rightarrow> (case serve_on su addr of (r, said') \<Rightarrow> (r, said @ said', site'))))))"

section \<open>The command\<close>

definition commands :: "gostr list" where
  "commands = [''version'', ''serve'', ''help'']"

definition usage :: gostr where
  "usage = join [newline]
     [''pacioli '' @ of_runes [0x2014] @ '' a double-entry ledger'', '''',
      ''  pacioli            print the version this binary was built from'',
      ''  pacioli version    the same, said out loud'',
      ''  pacioli serve      serve the ledger over HTTP'',
      ''  pacioli help       this'', '''',
      ''  pacioli serve -h   the flags serve takes'', '''']"

text \<open>What the command answers, what it writes to its output and its error output, and what it leaves of the ledger.\<close>

record ran =
  rn_error :: "err option"
  rn_out :: gostr
  rn_err :: gostr
  rn_site :: site

definition run_command :: "ctype \<Rightarrow> gostr \<Rightarrow> surroundings \<Rightarrow> gostr list \<Rightarrow> site \<Rightarrow> ran" where
  "run_command ct version su args site =
     (case args of
        [] \<Rightarrow> \<lparr>rn_error = None, rn_out = version @ [newline], rn_err = '''', rn_site = site\<rparr>
      | c # rest \<Rightarrow>
          if c = ''version'' then \<lparr>rn_error = None, rn_out = version @ [newline], rn_err = '''', rn_site = site\<rparr>
          else if c = ''help'' \<or> c = ''-h'' \<or> c = ''-help'' \<or> c = ''--help'' then
            \<lparr>rn_error = None, rn_out = usage, rn_err = '''', rn_site = site\<rparr>
          else if c = ''serve'' then
            (case serve ct su rest site of (e, said, site') \<Rightarrow>
               \<lparr>rn_error = e, rn_out = '''', rn_err = concat (map (\<lambda>line. line @ [newline]) said), rn_site = site'\<rparr>)
          else
            \<lparr>rn_error = Some (Errorf [Cause (Sentinel ErrUsage), Txt '': no such command '', Quo c, Txt '', which is not one of '',
               Txt (join '', '' commands), Txt ''. See '', Txt docs_home]), rn_out = '''', rn_err = usage, rn_site = site\<rparr>)"

definition exit_status :: "ran \<Rightarrow> nat" where
  "exit_status r =
     (case rn_error r of None \<Rightarrow> 0 | Some e \<Rightarrow> if errors_is e ErrUsage then 2 else 1)"

end
