(* ===== verification/ServerLaws.thy ===== *)
theory ServerLaws
  imports Server
begin

text \<open>
  What the command promises: starting it never loses a ledger, a bad request of it touches nothing and exits
  with 2, every connection carries the database's own ceilings, and a server started with any configuration
  it accepts says so when its pool is full.
\<close>

section \<open>The ledger a server finds\<close>

lemma serve_site:
  assumes "serve ct su args site = (e, said, site')"
  shows "(site' = site \<or> site = None \<and> site' = Some (new_database ct)) \<and> (e = None \<longrightarrow> site' \<noteq> None)"
proof (cases "parse_serve (su_process su) args")
  case (Inr cfg)
  show ?thesis
  proof (cases "open_pool su (cf_dsn cfg)")
    case (Inr pool)
    obtain r x where x: "apply_schema ct (su_mishaps su) site = (r, x)" by (cases "apply_schema ct (su_mishaps su) site")
    from installed.leaves [OF x] installed.tells [of ct "su_mishaps su" site _ x] assms \<open>parse_serve (su_process su) args = Inr cfg\<close> Inr x show ?thesis
      by (cases r) (auto simp: serve_def Let_def split: sum.splits prod.splits)
  qed (use assms Inr in \<open>auto simp: serve_def\<close>)
qed (use assms in \<open>auto simp: serve_def\<close>)


text \<open>Surroundings in which everything answers, and a signal comes.\<close>

definition sample_surroundings :: surroundings where
  "sample_surroundings = \<lparr>su_process = sample_process, su_params = (\<lambda>dsn. Inr [''lock_timeout'' \<mapsto> ''1s'']),
     su_redacted = Some, su_ping = (\<lambda>within. None), su_mishaps = no_mishap, su_listen = Inr, su_stopped = None,
     su_shutdown = (\<lambda>within. None), su_served = Some (Sentinel ErrServerClosed)\<rparr>"

lemma sample_served: "rn_error (run_command c_locale ''dev'' sample_surroundings [''serve''] None) = None"
proof -
  have "\<exists>cfg. parse_serve sample_process [] = Inr cfg"
  proof -
    have "case parse_serve sample_process [] of Inl e \<Rightarrow> False | Inr cfg \<Rightarrow> True" by code_simp
    then show ?thesis by (auto split: sum.splits)
  qed
  then obtain cfg where "parse_serve sample_process [] = Inr cfg" by blast
  then show ?thesis
    by (simp add: run_command_def serve_def open_pool_def apply_schema_def or_else_def no_mishap_def sample_surroundings_def
        serve_on_def drain_def errors_is_def Let_def)
qed


section \<open>Usage errors\<close>

text \<open>The errors of the surroundings are not the program's own usage error.\<close>

definition not_usage :: "surroundings \<Rightarrow> bool" where
  "not_usage su \<longleftrightarrow>
     (\<forall>dsn e. su_params su dsn = Inl e \<longrightarrow> \<not> errors_is e ErrUsage) \<and>
     (\<forall>within e. su_ping su within = Some e \<longrightarrow> \<not> errors_is e ErrUsage) \<and>
     (\<forall>addr e. su_listen su addr = Inl e \<longrightarrow> \<not> errors_is e ErrUsage) \<and>
     (\<forall>within e. su_shutdown su within = Some e \<longrightarrow> \<not> errors_is e ErrUsage) \<and>
     (\<forall>e. su_stopped su = Some e \<or> su_served su = Some e \<longrightarrow> \<not> errors_is e ErrUsage) \<and>
     (\<forall>e. ms_begin (su_mishaps su) = Some e \<or> ms_lock (su_mishaps su) = Some e \<or> ms_probe (su_mishaps su) = Some e \<or>
        ms_exec (su_mishaps su) = Some e \<or> ms_commit (su_mishaps su) = Some e \<longrightarrow> \<not> errors_is e ErrUsage)"

lemma open_pool_not_usage: "not_usage su \<Longrightarrow> open_pool su dsn = Inl e \<Longrightarrow> \<not> errors_is e ErrUsage"
  by (auto simp: open_pool_def not_usage_def errors_is_def split: sum.splits option.splits)

lemma apply_schema_not_usage:
  "not_usage su \<Longrightarrow> apply_schema ct (su_mishaps su) site = (Inl e, site') \<Longrightarrow> \<not> errors_is e ErrUsage"
  by (auto simp: apply_schema_def or_else_def not_usage_def errors_is_def wrapped_def split: option.splits if_splits)

lemma serve_on_not_usage: "not_usage su \<Longrightarrow> serve_on su addr = (Some e, said) \<Longrightarrow> \<not> errors_is e ErrUsage"
  by (auto simp: serve_on_def drain_def not_usage_def errors_is_def Let_def split: option.splits if_splits)

lemma serve_usage:
  assumes "not_usage su" and "serve ct su args site = (e, said, site')"
  shows "(\<exists>x. e = Some x \<and> errors_is x ErrUsage) \<longleftrightarrow> (\<exists>x. parse_serve (su_process su) args = Inl x)"
proof (cases "parse_serve (su_process su) args")
  case (Inl x)
  then show ?thesis using assms(2) bad_configuration [of "su_process su" args] by (auto simp: serve_def)
next
  case (Inr cfg)
  show ?thesis
  proof (cases "open_pool su (cf_dsn cfg)")
    case Inl
    with Inr assms(2) open_pool_not_usage [OF assms(1) Inl] show ?thesis by (auto simp: serve_def)
  next
    case pool: (Inr pool)
    obtain r x where x: "apply_schema ct (su_mishaps su) site = (r, x)" by (cases "apply_schema ct (su_mishaps su) site")
    show ?thesis
    proof (cases r)
      case (Inl e')
      with Inr pool x assms(2) apply_schema_not_usage [OF assms(1), of ct site e' x] show ?thesis
        by (auto simp: serve_def errors_is_def)
    next
      case applied: (Inr applied)
      show ?thesis
      proof (cases "su_listen su (cf_addr cfg)")
        case (Inl e')
        then have "\<not> errors_is e' ErrUsage" using assms(1) by (simp add: not_usage_def)
        with Inr pool x applied Inl assms(2) show ?thesis by (auto simp: serve_def errors_is_def Let_def)
      next
        case addr: (Inr addr)
        obtain o1 o2 where o: "serve_on su addr = (o1, o2)" by (cases "serve_on su addr")
        with Inr pool x applied addr assms(2) serve_on_not_usage [OF assms(1), of addr _ o2] show ?thesis
          by (auto simp: serve_def Let_def)
      qed
    qed
  qed
qed

text \<open>
  The exit status says whose fault it was.  The command exits with 2 exactly when it was asked for
  something it does not have: a command that is none of its commands, or a \<^verbatim>\<open>serve\<close> whose flags and
  environment settle nothing; and then it has touched nothing and printed nothing.
\<close>

theorem exit_two_is_bad_usage:
  assumes "not_usage su"
  shows "(exit_status (run_command ct version su args site) = 2 \<longleftrightarrow>
      (\<exists>c rest. args = c # rest \<and>
        (c \<notin> {''version'', ''serve'', ''help'', ''-h'', ''-help'', ''--help''} \<or>
         c = ''serve'' \<and> (\<exists>e. parse_serve (su_process su) rest = Inl e)))) \<and>
    (exit_status (run_command ct version su args site) = 2 \<longrightarrow>
      rn_site (run_command ct version su args site) = site \<and> rn_out (run_command ct version su args site) = '''')"
proof (cases args)
  case Nil
  then show ?thesis by (simp add: run_command_def exit_status_def)
next
  case (Cons c rest)
  obtain e said site' where s: "serve ct su rest site = (e, said, site')" by (cases "serve ct su rest site")
  have u: "(\<exists>x. e = Some x \<and> errors_is x ErrUsage) \<longleftrightarrow> (\<exists>x. parse_serve (su_process su) rest = Inl x)"
    by (rule serve_usage [OF assms s])
  have t: "site' = site" if "parse_serve (su_process su) rest = Inl x" for x
    using s that by (simp add: serve_def)
  show ?thesis
  proof (cases "c = ''serve''")
    case True
    have "exit_status (run_command ct version su args site) = 2 \<longleftrightarrow> (\<exists>x. e = Some x \<and> errors_is x ErrUsage)"
      by (cases e) (simp_all add: run_command_def exit_status_def Cons True s)
    with u t show ?thesis by (auto simp: Cons True run_command_def s)
  next
    case False
    then show ?thesis by (auto simp: Cons run_command_def exit_status_def errors_is_def)
  qed
qed

theorem exit_two_is_bad_usage_witness:
  "exit_status (run_command c_locale ''dev'' sample_surroundings [''sevre''] None) = 2"
proof -
  have "not_usage sample_surroundings"
    by (simp add: not_usage_def sample_surroundings_def no_mishap_def errors_is_def)
  from exit_two_is_bad_usage [OF this, of c_locale "''dev''" "[''sevre'']" None] show ?thesis by simp
qed

section \<open>Ceilings\<close>

lemma with_graces_at: "with_graces given n = (case given n of None \<Rightarrow> map_of database_graces n | Some v \<Rightarrow> Some v)"
proof -
  have "fold (\<lambda>(name, value) ps. if ps name = None then ps(name \<mapsto> value) else ps) gs given n =
      (case given n of None \<Rightarrow> map_of gs n | Some v \<Rightarrow> Some v)" for gs given
  proof (induction gs arbitrary: given)
    case (Cons g gs)
    obtain a b where "g = (a, b)" by (cases g)
    with Cons show ?case by (cases "given a") (auto split: option.split)
  qed (simp split: option.split)
  then show ?thesis by (simp add: with_graces_def)
qed

text \<open>
  No connection is without the database's own ceilings.  A pool \<^verbatim>\<open>open\<close> answers sends each of the three with
  every connection, at the value the connection string gave it if it gave one; what else the string
  set is as it set it, and the pool holds no more than sixteen connections.
\<close>

theorem every_connection_has_its_ceilings:
  assumes "open_pool su dsn = Inr pool"
  shows "\<exists>given. su_params su dsn = Inr given \<and>
    po_params pool ''statement_timeout'' = Some (case given ''statement_timeout'' of None \<Rightarrow> ''20s'' | Some v \<Rightarrow> v) \<and>
    po_params pool ''lock_timeout'' = Some (case given ''lock_timeout'' of None \<Rightarrow> ''10s'' | Some v \<Rightarrow> v) \<and>
    po_params pool ''idle_in_transaction_session_timeout'' =
      Some (case given ''idle_in_transaction_session_timeout'' of None \<Rightarrow> ''30s'' | Some v \<Rightarrow> v) \<and>
    given \<subseteq>\<^sub>m po_params pool \<and> po_max_open pool = 16"
proof -
  obtain given where g: "su_params su dsn = Inr given" "po_params pool = with_graces given" "po_max_open pool = 16"
    using assms by (auto simp: open_pool_def split: sum.splits option.splits)
  have d: "map_of database_graces ''statement_timeout'' = Some ''20s''" "map_of database_graces ''lock_timeout'' = Some ''10s''"
    "map_of database_graces ''idle_in_transaction_session_timeout'' = Some ''30s''"
    by (simp_all add: database_graces_def)
  have "given \<subseteq>\<^sub>m po_params pool" by (auto simp: g(2) with_graces_at map_le_def)
  moreover have "po_params pool n = Some (case given n of None \<Rightarrow> w | Some v \<Rightarrow> v)" if "map_of database_graces n = Some w" for n w
    using that by (simp add: g(2) with_graces_at split: option.split)
  ultimately show ?thesis using g(1,3) d by blast
qed

theorem every_connection_has_its_ceilings_witness:
  "\<exists>pool. open_pool sample_surroundings default_dsn = Inr pool \<and> po_params pool ''statement_timeout'' = Some ''20s'' \<and>
     po_params pool ''lock_timeout'' = Some ''1s''"
proof -
  obtain pool where p: "open_pool sample_surroundings default_dsn = Inr pool"
    by (auto simp: open_pool_def sample_surroundings_def)
  from every_connection_has_its_ceilings [OF p] p show ?thesis by (auto simp: sample_surroundings_def)
qed

section \<open>A full pool\<close>

definition crowded :: "lending \<Rightarrow> bool" where
  "crowded l \<longleftrightarrow> ct_error (ln_conn l) \<noteq> None \<and> \<not> ct_request_over (ln_conn l) \<and> ct_wait_over (ln_conn l)"

definition needs_a_connection :: "library \<Rightarrow> endpoint \<Rightarrow> http_request \<Rightarrow> bool" where
  "needs_a_connection lib ep r \<longleftrightarrow>
     (case ep of
        PostTransaction \<Rightarrow> (\<exists>req c. asks lib r req c)
      | OpenAccount \<Rightarrow> (\<exists>req. asks_account lib r req)
      | ListAccounts \<Rightarrow> False
      | _ \<Rightarrow> True)"

lemma crowded_conn: "crowded l \<Longrightarrow> 0 < acquire \<Longrightarrow> take_conn acquire (ln_conn l) = Inl (OverloadErr acquire)"
  by (auto simp: crowded_def take_conn_def)

lemma overload_reached [simp]: "not_reached lib (wrapped what (OverloadErr acquire)) = Some (busy lib acquire)"
  by (simp add: not_reached_def as_overload_def wrapped_def)

text \<open>
  C34. A server says so when its pool is full.  Started with any command line and environment it accepts, and
  asked for a balance, the trial balance, a transaction, or a write that passes its own checks, when
  no connection comes free within the configured wait: the answer is a 503 with that wait in
  Retry-After, and nothing is begun.
\<close>

theorem a_full_pool_is_said_so:
  assumes "parse_serve p args = Inr cfg" and "crowded l" and "needs_a_connection lib ep r"
  shows "handle lib (cf_deadlines cfg) l False ep r db = (busy lib (sint (dl_acquire (cf_deadlines cfg))), db) \<and>
    rp_status (busy lib (sint (dl_acquire (cf_deadlines cfg)))) = 503 \<and>
    (''Retry-After'', retry_after (sint (dl_acquire (cf_deadlines cfg)))) \<in>
      set (rp_headers (busy lib (sint (dl_acquire (cf_deadlines cfg)))))"
proof -
  let ?a = "sint (dl_acquire (cf_deadlines cfg))"
  have "0 < ?a" using settled_is_positive [OF assms(1)] by blast
  note t = crowded_conn [OF assms(2) this]
  have "serve_endpoint ep lib ?a l r db = (busy lib ?a, db)"
  proof (cases ep)
    case OpenAccount
    with assms(3) obtain req where "asks_account lib r req" by (auto simp: needs_a_connection_def)
    then show ?thesis by (simp add: OpenAccount post_account_asks write_tx_def t refuse_account_def)
  next
    case PostTransaction
    with assms(3) obtain req c where "asks lib r req c" by (auto simp: needs_a_connection_def)
    then show ?thesis by (simp add: PostTransaction post_transaction_asks write_tx_def t refuse_transaction_def Let_def)
  next
    case ListAccounts
    with assms(3) show ?thesis by (simp add: needs_a_connection_def)
  qed (simp_all add: get_balance_def get_trial_def get_transaction_def read_tx_def t fail_reply_def Let_def)
  then show ?thesis by (simp add: handle_def deadline_def store_acquire_def busy_def write_reply_def)
qed

definition sample_crowd :: lending where
  "sample_crowd = (calm_lending quiet)\<lparr>ln_conn :=
     \<lparr>ct_error = Some (Sentinel DeadlineExceeded), ct_request_over = False, ct_wait_over = True\<rparr>\<rparr>"

theorem a_full_pool_is_said_so_witness:
  "handle sample_library (cf_deadlines sample_config) sample_crowd False (GetBalance ''equity'') sample_open (database_of used_book) =
     (busy sample_library 2000000000, database_of used_book)"
proof -
  have "crowded sample_crowd" by (simp add: crowded_def sample_crowd_def)
  moreover have "needs_a_connection sample_library (GetBalance ''equity'') sample_open" by (simp add: needs_a_connection_def)
  moreover have "sint (dl_acquire (cf_deadlines sample_config)) = 2000000000"
    by (simp add: sample_config_def default_deadlines_def graces_def seconds_def)
  ultimately show ?thesis
    using a_full_pool_is_said_so [OF sample_config_settled, of sample_crowd sample_library "GetBalance ''equity''" sample_open "database_of used_book"]
    by simp
qed

end
