(* ===== verification/Concurrent.thy ===== *)
theory Concurrent
  imports History
begin

text \<open>
  Transactions at once.  \<open>crowd\<close> is a database and the transactions open on it, \<open>crowd_step\<close> one statement of
  one of them, a BEGIN, a COMMIT or an end without one.  What Postgres gives the code here is an isolation level: under
  READ COMMITTED a statement sees what is committed when it is sent and what its own transaction wrote;
  under REPEATABLE READ it goes on seeing what was committed when its transaction began.  A statement that
  would write a unique value another open transaction has written waits until that one ends.
\<close>

section \<open>Isolation\<close>

datatype isolation = ReadCommitted | RepeatableRead

text \<open>What \<^verbatim>\<open>Pool.Read\<close> and \<^verbatim>\<open>Pool.Write\<close> begin at.\<close>

definition read_level :: isolation where
  "read_level = RepeatableRead"

definition write_level :: isolation where
  "write_level = ReadCommitted"

definition level_of :: "session \<Rightarrow> isolation" where
  "level_of s = (if read_only s then read_level else write_level)"

text \<open>The rows \<open>b\<close> has beyond those of \<open>old\<close>, after those of \<open>new\<close>.\<close>

definition rebase :: "book \<Rightarrow> book \<Rightarrow> book \<Rightarrow> book" where
  "rebase old new b =
     \<lparr>accounts = accounts new @ drop (length (accounts old)) (accounts b),
      transactions = transactions new @ drop (length (transactions old)) (transactions b),
      postings = postings new @ drop (length (postings old)) (postings b),
      balance_checks = balance_checks b,
      idempotency_keys = idempotency_keys new @ drop (length (idempotency_keys old)) (idempotency_keys b)\<rparr>"

definition rebase_snapshot :: "book \<Rightarrow> book \<Rightarrow> snapshot \<Rightarrow> snapshot" where
  "rebase_snapshot old new sn = sn\<lparr>sn_book := rebase old new (sn_book sn)\<rparr>"

text \<open>An open transaction when another has committed \<open>new\<close> over \<open>old\<close>.\<close>

definition caught_up :: "book \<Rightarrow> book \<Rightarrow> session \<Rightarrow> session" where
  "caught_up old new s =
     (case level_of s of
        RepeatableRead \<Rightarrow> s
      | ReadCommitted \<Rightarrow>
          s\<lparr>work := rebase old new (work s), saves := map (map_prod id (rebase_snapshot old new)) (saves s)\<rparr>)"

section \<open>Waiting\<close>

datatype unique_value =
    AccountId uuid
  | AccountCode gostr
  | TransactionId uuid
  | PostingId nat
  | QueuedCheck uuid
  | KeyName gostr

definition uniques :: "book \<Rightarrow> unique_value set" where
  "uniques b =
     AccountId ` acc_id ` set (accounts b) \<union> AccountCode ` acc_code ` set (accounts b) \<union>
     TransactionId ` txn_id ` set (transactions b) \<union> PostingId ` pst_id ` set (postings b) \<union>
     QueuedCheck ` set (balance_checks b) \<union> KeyName ` key_key ` set (idempotency_keys b)"

text \<open>What a transaction has written, in hand or under a savepoint, and nobody else sees yet.\<close>

definition in_hand :: "session \<Rightarrow> book set" where
  "in_hand s = insert (work s) (sn_book ` snd ` set (saves s))"

definition held :: "book \<Rightarrow> session \<Rightarrow> unique_value set" where
  "held base s = \<Union> (uniques ` in_hand s) - uniques base"

record crowd =
  cw_db :: database
  cw_open :: "nat \<Rightarrow> session option"

definition shared_book :: "crowd \<Rightarrow> book" where
  "shared_book w = db_book (cw_db w)"

definition alone :: "database \<Rightarrow> crowd" where
  "alone d = \<lparr>cw_db = d, cw_open = (\<lambda>i. None)\<rparr>"

text \<open>Transaction \<open>i\<close> has to wait with a statement that would make its session \<open>s\<close>.\<close>

definition waits :: "crowd \<Rightarrow> nat \<Rightarrow> session \<Rightarrow> bool" where
  "waits w i s \<longleftrightarrow> (\<exists>j t. j \<noteq> i \<and> cw_open w j = Some t \<and> held (shared_book w) s \<inter> held (shared_book w) t \<noteq> {})"

section \<open>Steps\<close>

text \<open>Numbers for postings come from one sequence.\<close>

definition numbering :: "crowd \<Rightarrow> session \<Rightarrow> session" where
  "numbering w s = s\<lparr>next_posting := db_next_posting (cw_db w)\<rparr>"

definition goes_on_as :: "nat \<Rightarrow> session \<Rightarrow> crowd \<Rightarrow> crowd" where
  "goes_on_as i s w =
     w\<lparr>cw_db := (cw_db w)\<lparr>db_next_posting := next_posting s\<rparr>, cw_open := (cw_open w)(i \<mapsto> s)\<rparr>"

definition committed_by :: "nat \<Rightarrow> book \<Rightarrow> crowd \<Rightarrow> crowd" where
  "committed_by i b w =
     \<lparr>cw_db = (cw_db w)\<lparr>db_book := b\<rparr>,
      cw_open = (\<lambda>j. if j = i then None else map_option (caught_up (shared_book w) b) (cw_open w j))\<rparr>"

inductive crowd_step :: "(stmt \<Rightarrow> bool) \<Rightarrow> crowd \<Rightarrow> crowd \<Rightarrow> bool" for A w where
  begins: "cw_open w i = None \<Longrightarrow> crowd_step A w (w\<lparr>cw_open := (cw_open w)(i \<mapsto> begin_tx ro c (cw_db w))\<rparr>)"
| sends: "cw_open w i = Some s \<Longrightarrow> A q \<Longrightarrow> s' = snd (exec q (numbering w s)) \<Longrightarrow> \<not> waits w i s' \<Longrightarrow>
    crowd_step A w (goes_on_as i s' w)"
| reads: "cw_open w i = Some s \<Longrightarrow> s' = snd (query (f :: session \<Rightarrow> pg_error + unit) (numbering w s)) \<Longrightarrow>
    crowd_step A w (goes_on_as i s' w)"
| commits: "cw_open w i = Some s \<Longrightarrow> \<not> read_only s \<Longrightarrow> commit s = (r, Some b) \<Longrightarrow>
    crowd_step A w (committed_by i b w)"
| ends: "cw_open w i = Some s \<Longrightarrow> crowd_step A w (w\<lparr>cw_open := (cw_open w)(i := None)\<rparr>)"

definition crowd_steps :: "(stmt \<Rightarrow> bool) \<Rightarrow> crowd \<Rightarrow> crowd \<Rightarrow> bool" where
  "crowd_steps A = (crowd_step A)\<^sup>*\<^sup>*"

text \<open>The statements considered: all but a hand on the queue of checks, or a key deleted.\<close>

fun hands_off :: "stmt \<Rightarrow> bool" where
  "hands_off (RenameBalanceCheck u v) = False"
| "hands_off (DeleteKey k) = False"
| "hands_off q = True"

lemma issued_hands_off: "issued q \<Longrightarrow> hands_off q"
  by (cases q) auto

lemma hands_offD: "hands_off q \<Longrightarrow> leaves_the_queue q \<and> q \<noteq> DeleteKey k"
  by (cases q) auto

end
