(* ===== verification/ConcurrentLaws.thy ===== *)
theory ConcurrentLaws
  imports Concurrent
begin

text \<open>
  What holds of transactions at once.  \<open>grown_law\<close> is everything the schema keeps of a book in hand over the
  committed one, the laws of \<open>BookLaws\<close> put together; \<open>grown_rebase\<close> says that catching up keeps it where
  nobody's unique values clash, \<open>steady\<close> that every step keeps it for everybody.  On these rest the
  consistency of what is committed, the one moment a read sees, and the answer to a retry that waits.
\<close>

section \<open>Laws together\<close>

lemma session_law_both:
  assumes "session_law ct R A" and "session_law ct S B" and "\<And>q. C q \<Longrightarrow> A q \<and> B q"
  shows "session_law ct (\<lambda>n b p. R n b p \<and> S n b p) C"
proof -
  note r = assms(1) and s = assms(2)
  show ?thesis
  proof (unfold_locales, goal_cases)
    case 1
    then show ?case using session_law.mono [OF r] session_law.mono [OF s] by blast
  next
    case 2
    then show ?case using session_law.fires [OF r] session_law.fires [OF s] by blast
  next
    case (3 n b p p')
    with session_law.drops [OF r, of n b p p'] session_law.drops [OF s, of n b p p'] show ?case by blast
  next
    case 4
    then show ?case using session_law.account [OF r] session_law.account [OF s] by blast
  next
    case 5
    then show ?case using session_law.transaction [OF r] session_law.transaction [OF s] by blast
  next
    case 6
    then show ?case using session_law.posting [OF r] session_law.posting [OF s] by blast
  next
    case 7
    then show ?case using session_law.key [OF r] session_law.key [OF s] by blast
  next
    case 8
    then show ?case using session_law.settle [OF r] session_law.settle [OF s] by blast
  next
    case (9 n b p k)
    then show ?case using session_law.delete [OF r] session_law.delete [OF s] assms(3) by blast
  next
    case (10 n b p u v)
    then show ?case using session_law.rename [OF r] session_law.rename [OF s] assms(3) by blast
  qed
qed

text \<open>The keys committed stay, settled as they are, before any others.\<close>

definition keys_kept :: "book \<Rightarrow> book \<Rightarrow> bool" where
  "keys_kept old b \<longleftrightarrow>
     prefix (idempotency_keys old) (idempotency_keys b) \<and> (\<forall>r \<in> set (idempotency_keys old). key_txn r \<noteq> None)"

lemma keys_kept_cong: "idempotency_keys b' = idempotency_keys b \<Longrightarrow> keys_kept old b' = keys_kept old b"
  by (simp add: keys_kept_def)

interpretation kept_law: session_law ct "\<lambda>n b p. keys_kept old b" hands_off for ct old
proof (unfold_locales, goal_cases)
  case (2 n b p ev b')
  then show ?case using keys_kept_cong [OF fire_frame(4) [OF 2(2)]] by simp
next
  case (4 n b p u t code name kind currency b')
  then show ?case using insert_accountD [OF 4(2)] by (auto simp: keys_kept_def)
next
  case (5 n b p u t currency description occurred b')
  then show ?case using insert_transactionD [OF 5(2)] by (auto simp: keys_kept_def)
next
  case (6 n b p t txn acc cur amount b')
  then show ?case using insert_postingD [OF 6(2)] by (auto simp: keys_kept_def)
next
  case (7 n b p t k h b')
  then show ?case using insert_keyD [OF 7(2)] by (auto simp: keys_kept_def)
next
  case (8 n b p k u b')
  from set_key_transactionD [OF 8(2)] show ?case
  proof (elim disjE exE conjE)
    fix r
    assume r: "key_with b k = Some r" "key_txn r = None" and b': "b' = b\<lparr>idempotency_keys :=
        map (\<lambda>x. if key_key x = k then r\<lparr>key_txn := Some u\<rparr> else x) (idempotency_keys b)\<rparr>"
    obtain ks where ks: "idempotency_keys b = idempotency_keys old @ ks" using 8(1) by (auto simp: keys_kept_def prefix_def)
    have "key_key x \<noteq> k" if "x \<in> set (idempotency_keys old)" for x
    proof
      assume "key_key x = k"
      with that obtain y where y: "List.find (\<lambda>x. key_key x = k) (idempotency_keys old) = Some y" "y \<in> set (idempotency_keys old)"
        by (metis (mono_tags, lifting) find_None_iff find_SomeD option.exhaust)
      with r(1) ks have "y = r" by (simp add: key_with_def find_append)
      with y(2) r(2) 8(1) show False by (auto simp: keys_kept_def)
    qed
    then have "map (\<lambda>x. if key_key x = k then r\<lparr>key_txn := Some u\<rparr> else x) (idempotency_keys old) = idempotency_keys old"
      by (simp add: map_idI)
    with 8(1) ks show ?thesis by (auto simp: keys_kept_def b')
  qed (use 8(1) in simp)
qed (auto simp: keys_kept_def)

text \<open>Postings are numbered apart, and below the next number.\<close>

definition apart :: "nat \<Rightarrow> book \<Rightarrow> bool" where
  "apart n b \<longleftrightarrow> distinct (map pst_id (postings b)) \<and> (\<forall>p \<in> set (postings b). pst_id p < n)"

lemma apart_cong: "postings b' = postings b \<Longrightarrow> apart n b' = apart n b"
  by (simp add: apart_def)

lemma numbered_apart: "numbered n b \<Longrightarrow> apart n b"
  by (simp add: numbered_def apart_def strict_sorted_iff)

interpretation apart_law: session_law ct "\<lambda>n b p. apart n b" hands_off for ct
proof (unfold_locales, goal_cases)
  case (6 n b p t txn acc cur amount b')
  obtain q where "b' = b\<lparr>postings := postings b @ [q]\<rparr>" "pst_id q = n"
    using insert_postingD [OF 6(2)] by blast
  with 6(1) show ?case by (auto simp: apart_def)
qed (auto simp: apart_def dest: insert_postings_only fire_frame(3) less_le_trans)

text \<open>What holds of a book a transaction has in hand, over the committed one.\<close>

definition grown :: "ctype \<Rightarrow> book \<Rightarrow> nat \<Rightarrow> book \<Rightarrow> event list \<Rightarrow> bool" where
  "grown ct old n b p \<longleftrightarrow> wf_book ct b \<and> covered b p \<and> extends old b \<and> keys_kept old b \<and> apart n b"

interpretation grown_law: session_law ct "grown ct old" hands_off for ct old
proof -
  have "session_law ct (\<lambda>n b p. keys_kept old b \<and> apart n b) hands_off"
    by (rule session_law_both [OF kept_law.session_law_axioms apart_law.session_law_axioms]) simp
  from session_law_both [OF append_law.session_law_axioms [of ct old] this]
  have "session_law ct (\<lambda>n b p. extends old b \<and> keys_kept old b \<and> apart n b) hands_off" by simp
  from session_law_both [OF cover_law.session_law_axioms [of ct] this]
  have "session_law ct (\<lambda>n b p. covered b p \<and> extends old b \<and> keys_kept old b \<and> apart n b) hands_off"
    using hands_offD by simp
  from session_law_both [OF wf_law.session_law_axioms [of ct] this]
  have "session_law ct (\<lambda>n b p. wf_book ct b \<and> covered b p \<and> extends old b \<and> keys_kept old b \<and> apart n b) hands_off"
    by simp
  then show "session_law ct (grown ct old) hands_off" unfolding grown_def [abs_def] .
qed

section \<open>Catching up\<close>

lemma in_uniques:
  "AccountId v \<in> uniques b \<longleftrightarrow> v \<in> acc_id ` set (accounts b)"
  "AccountCode c \<in> uniques b \<longleftrightarrow> c \<in> acc_code ` set (accounts b)"
  "TransactionId v \<in> uniques b \<longleftrightarrow> v \<in> txn_id ` set (transactions b)"
  "PostingId n \<in> uniques b \<longleftrightarrow> n \<in> pst_id ` set (postings b)"
  "QueuedCheck v \<in> uniques b \<longleftrightarrow> v \<in> set (balance_checks b)"
  "KeyName k \<in> uniques b \<longleftrightarrow> k \<in> key_key ` set (idempotency_keys b)"
  by (auto simp: uniques_def)

lemma image_drop: "v \<in> f ` set (drop n xs) \<Longrightarrow> v \<in> f ` set xs"
  by (auto dest: in_set_dropD)

lemma image_prefix: "prefix xs ys \<Longrightarrow> v \<in> f ` set xs \<Longrightarrow> v \<in> f ` set ys"
  by (auto simp: prefix_def)

lemma uniques_grow:
  assumes "extends old new" and "keys_kept old new" and "balance_checks old = []"
  shows "uniques old \<subseteq> uniques new"
proof
  fix x
  assume "x \<in> uniques old"
  then show "x \<in> uniques new"
    using assms unfolding extends_def keys_kept_def
    by (cases x) (auto simp only: in_uniques list.set empty_iff elim!: image_prefix [rotated])
qed

lemma uniques_rebase: "uniques (rebase old new b) \<subseteq> uniques new \<union> uniques b"
proof
  fix x
  assume "x \<in> uniques (rebase old new b)"
  then show "x \<in> uniques new \<union> uniques b"
    by (cases x) (auto simp only: in_uniques rebase_def book.simps set_append image_Un Un_iff dest!: image_drop)
qed

lemma distinct_rebase:
  assumes "prefix xs bs" and "prefix xs ns" and "distinct (map f bs)" and "distinct (map f ns)"
    and "f ` set bs \<inter> f ` set ns \<subseteq> f ` set xs"
  shows "distinct (map f (ns @ drop (length xs) bs))"
proof -
  obtain ys zs where "bs = xs @ ys" "ns = xs @ zs" using assms(1,2) by (auto simp: prefix_def)
  with assms(3-5) show ?thesis by auto
qed

lemma rebase_has:
  assumes "extends old b" and "keys_kept old b" and "extends old new"
  shows "set (accounts b) \<subseteq> set (accounts (rebase old new b))" "set (accounts new) \<subseteq> set (accounts (rebase old new b))"
    and "set (transactions b) \<subseteq> set (transactions (rebase old new b))"
      "set (transactions new) \<subseteq> set (transactions (rebase old new b))"
  using assms by (auto simp: extends_def rebase_def prefix_def)

lemma wf_rebase:
  assumes "wf_book ct b" and "extends old b" and "keys_kept old b"
    and "wf_book ct new" and "extends old new" and "keys_kept old new"
    and "uniques b \<inter> uniques new \<subseteq> uniques old"
  shows "wf_book ct (rebase old new b)"
proof -
  note e = assms(2,5) [unfolded extends_def] assms(3,6) [unfolded keys_kept_def]
  note d = wf_bookD(1-4) [OF assms(1)] wf_bookD(1-4) [OF assms(4)]
  have i: "acc_id ` set (accounts b) \<inter> acc_id ` set (accounts new) \<subseteq> acc_id ` set (accounts old)"
    "acc_code ` set (accounts b) \<inter> acc_code ` set (accounts new) \<subseteq> acc_code ` set (accounts old)"
    "txn_id ` set (transactions b) \<inter> txn_id ` set (transactions new) \<subseteq> txn_id ` set (transactions old)"
    "key_key ` set (idempotency_keys b) \<inter> key_key ` set (idempotency_keys new) \<subseteq> key_key ` set (idempotency_keys old)"
    using assms(7) unfolding subset_iff Int_iff in_uniques [symmetric] by blast+
  have "distinct (map acc_id (accounts (rebase old new b)))" "distinct (map acc_code (accounts (rebase old new b)))"
    "distinct (map txn_id (transactions (rebase old new b)))" "distinct (map key_key (idempotency_keys (rebase old new b)))"
    using e d i by (simp_all add: rebase_def distinct_rebase del: map_append)
  moreover have "\<forall>a \<in> set (accounts (rebase old new b)). account_fine ct a"
    "\<forall>t \<in> set (transactions (rebase old new b)). transaction_fine ct t"
    using wf_bookD(5,6) [OF assms(1)] wf_bookD(5,6) [OF assms(4)] by (auto simp: rebase_def dest: in_set_dropD)
  moreover have "posting_fine (rebase old new b) p" if "p \<in> set (postings (rebase old new b))" for p
  proof -
    have "posting_fine b p \<or> posting_fine new p"
      using that wf_bookD(7) [OF assms(1)] wf_bookD(7) [OF assms(4)] by (auto simp: rebase_def dest: in_set_dropD)
    with rebase_has [OF assms(2,3,5)] show ?thesis by (blast intro: posting_fine_mono)
  qed
  moreover have "key_fine ct (rebase old new b) r" if "r \<in> set (idempotency_keys (rebase old new b))" for r
  proof -
    have "key_fine ct b r \<or> key_fine ct new r"
      using that wf_bookD(8) [OF assms(1)] wf_bookD(8) [OF assms(4)] by (auto simp: rebase_def dest: in_set_dropD)
    with rebase_has [OF assms(2,3,5)] show ?thesis by (blast intro: key_fine_mono)
  qed
  ultimately show ?thesis unfolding wf_book_def by simp
qed

lemma legs_rebase:
  assumes "extends old b"
  obtains own where "legs_of b u = legs_of old u @ own" and "legs_of (rebase old new b) u = legs_of new u @ own"
    and "set own \<subseteq> set (legs_of b u)"
proof -
  obtain ps where "postings b = postings old @ ps" using assms by (auto simp: extends_def prefix_def)
  with that [of "filter (\<lambda>p. pst_txn p = u) ps"] show ?thesis by (auto simp: legs_of_def rebase_def)
qed

lemma no_legs: "wf_book ct b \<Longrightarrow> u \<notin> txn_id ` set (transactions b) \<Longrightarrow> legs_of b u = []"
  by (force simp: legs_of_def filter_empty_conv posting_fine_def has_transaction_def list_ex_iff dest!: wf_bookD(7))

text \<open>A transaction that balanced, or was not there, gains nothing unbalanced that is not watched.\<close>

lemma balanced_rebase:
  assumes b: "wf_book ct b" "covered b p" "extends old b"
    and "consistent ct old" and "consistent ct new" and on: "extends old new"
    and ids: "txn_id ` set (transactions b) \<inter> txn_id ` set (transactions new) \<subseteq> txn_id ` set (transactions old)"
    and u: "u \<in> txn_id ` set (transactions (rebase old new b))"
  shows "balanced (rebase old new b) u \<or> watched p u"
proof -
  have wf: "wf_book ct old" "wf_book ct new" using assms(4,5) by (auto simp: consistent_def)
  obtain own where own: "legs_of b u = legs_of old u @ own" "legs_of (rebase old new b) u = legs_of new u @ own"
    "set own \<subseteq> set (legs_of b u)"
    using legs_rebase [OF b(3)] by blast
  have bal: "balanced old v" if "v \<in> txn_id ` set (transactions old)" for v
    using that assms(4) by (auto simp: consistent_def)
  have mine: "balanced b v \<or> watched p v" if "v \<in> txn_id ` set (transactions b)" for v
    using that b(2) by (auto simp: covered_def)
  show ?thesis
  proof (cases "u \<in> txn_id ` set (transactions new)")
    case True
    then have new: "balanced new u" using assms(5) by (auto simp: consistent_def)
    show ?thesis
    proof (cases "own = []")
      case True
      with new own(2) show ?thesis by (simp add: balanced_def net_of_transaction_def)
    next
      case False
      with own(3) no_legs [OF b(1)] have "u \<in> txn_id ` set (transactions b)" by force
      with True ids mine bal have "balanced old u" "balanced b u \<or> watched p u" by blast+
      with new own(1,2) show ?thesis by (auto simp: balanced_def net_of_transaction_def)
    qed
  next
    case False
    with u have "u \<in> txn_id ` set (transactions b)" by (auto simp: rebase_def dest: in_set_dropD)
    moreover have "u \<notin> txn_id ` set (transactions old)" using False image_prefix [of _ _ u txn_id] on unfolding extends_def by blast
    ultimately show ?thesis
      using mine [of u] own(1,2) no_legs [OF wf(1)] no_legs [OF wf(2) False] by (auto simp: balanced_def net_of_transaction_def)
  qed
qed

text \<open>The book in hand, caught up: as good over what is committed now as it was over what was.\<close>

lemma grown_rebase:
  assumes b: "grown ct old n b p" and old: "consistent ct old" and new: "consistent ct new" "apart n new"
    and on: "extends old new" "keys_kept old new" and clear: "uniques b \<inter> uniques new \<subseteq> uniques old"
  shows "grown ct new n (rebase old new b) p"
proof -
  have g: "wf_book ct b" "covered b p" "extends old b" "keys_kept old b" "apart n b"
    using b by (auto simp: grown_def)
  have wf: "wf_book ct (rebase old new b)"
    by (rule wf_rebase) (use g on clear new in \<open>auto simp: consistent_def\<close>)
  have ids: "txn_id ` set (transactions b) \<inter> txn_id ` set (transactions new) \<subseteq> txn_id ` set (transactions old)"
    "pst_id ` set (postings b) \<inter> pst_id ` set (postings new) \<subseteq> pst_id ` set (postings old)"
    using clear unfolding subset_iff Int_iff in_uniques [symmetric] by blast+
  have "covered (rebase old new b) p"
    unfolding covered_def
  proof (intro conjI ballI impI)
    show "balanced (rebase old new b) u \<or> watched p u" if "u \<in> txn_id ` set (transactions (rebase old new b))" for u
      by (rule balanced_rebase [OF g(1-3) old new(1) on(1) ids(1) that])
    show "BalanceCheckInserted u \<in> set p" if "u \<in> set (balance_checks (rebase old new b))" for u
      using that g(2) by (simp add: rebase_def covered_def)
    show "KeyWritten (key_key r) \<in> set p" if "r \<in> set (idempotency_keys (rebase old new b))" "key_txn r = None" for r
      using that g(2) new(1) by (auto simp: rebase_def covered_def consistent_def dest: in_set_dropD)
    show "distinct (map key_key (idempotency_keys (rebase old new b)))" by (rule wf_bookD(4) [OF wf])
  qed
  moreover have "apart n (rebase old new b)"
    using g(3,5) new(2) on(1) ids(2)
    by (auto simp: apart_def rebase_def extends_def dest: in_set_dropD simp del: map_append intro!: distinct_rebase)
  moreover have "extends new (rebase old new b)" "keys_kept new (rebase old new b)"
    using new(1) by (auto simp: extends_def keys_kept_def rebase_def consistent_def)
  ultimately show ?thesis using wf by (simp add: grown_def)
qed

section \<open>What the crowd keeps\<close>

context session_law
begin

lemma holds_later: "holds s \<Longrightarrow> next_posting s \<le> n \<Longrightarrow> holds (s\<lparr>next_posting := n\<rparr>)"
  by (auto simp: holds_def intro: mono)

end

definition steady :: "ctype \<Rightarrow> crowd \<Rightarrow> bool" where
  "steady ct w \<longleftrightarrow>
     db_ctype (cw_db w) = ct \<and> consistent ct (shared_book w) \<and> apart (db_next_posting (cw_db w)) (shared_book w) \<and>
     (\<forall>i s. cw_open w i = Some s \<longrightarrow> \<not> read_only s \<longrightarrow> grown_law.holds ct (shared_book w) (numbering w s)) \<and>
     (\<forall>i j s t. cw_open w i = Some s \<longrightarrow> cw_open w j = Some t \<longrightarrow> \<not> read_only s \<longrightarrow> \<not> read_only t \<longrightarrow> i \<noteq> j \<longrightarrow>
        held (shared_book w) s \<inter> held (shared_book w) t = {})"

lemma steadyI:
  assumes "db_ctype (cw_db w) = ct" and "consistent ct (shared_book w)" and "apart (db_next_posting (cw_db w)) (shared_book w)"
    and "\<And>i s. cw_open w i = Some s \<Longrightarrow> \<not> read_only s \<Longrightarrow> grown_law.holds ct (shared_book w) (numbering w s)"
    and "\<And>i j s t. cw_open w i = Some s \<Longrightarrow> cw_open w j = Some t \<Longrightarrow> \<not> read_only s \<Longrightarrow> \<not> read_only t \<Longrightarrow> i \<noteq> j \<Longrightarrow>
      held (shared_book w) s \<inter> held (shared_book w) t = {}"
  shows "steady ct w"
  using assms unfolding steady_def by blast

lemma steadyD:
  assumes "steady ct w"
  shows "db_ctype (cw_db w) = ct" "consistent ct (shared_book w)" "apart (db_next_posting (cw_db w)) (shared_book w)"
    "\<And>i s. cw_open w i = Some s \<Longrightarrow> \<not> read_only s \<Longrightarrow> grown_law.holds ct (shared_book w) (numbering w s)"
    "\<And>i j s t. cw_open w i = Some s \<Longrightarrow> cw_open w j = Some t \<Longrightarrow> \<not> read_only s \<Longrightarrow> \<not> read_only t \<Longrightarrow> i \<noteq> j \<Longrightarrow>
      held (shared_book w) s \<inter> held (shared_book w) t = {}"
  using assms unfolding steady_def by blast+

lemma numbering_parts [simp]:
  "work (numbering w s) = work s" "saves (numbering w s) = saves s" "pending (numbering w s) = pending s"
  "read_only (numbering w s) = read_only s" "next_posting (numbering w s) = db_next_posting (cw_db w)"
  "held b (numbering w s) = held b s"
  by (simp_all add: numbering_def held_def in_hand_def)

lemma commit_numbering [simp]: "commit (numbering w s) = commit s"
  by (cases "lost s"; cases "faults s")
     (simp_all add: commit_def next_fault_def numbering_def Let_def split: option.split fault.split)

lemma alone_parts [simp]: "shared_book (alone d) = db_book d" "cw_db (alone d) = d" "cw_open (alone d) i = None"
  by (simp_all add: alone_def shared_book_def)

lemma cw_open_parts [simp]:
  "shared_book (w\<lparr>cw_open := f\<rparr>) = shared_book w" "numbering (w\<lparr>cw_open := f\<rparr>) s = numbering w s"
  by (simp_all add: shared_book_def numbering_def)

lemma goes_on_parts [simp]:
  "shared_book (goes_on_as i s w) = shared_book w" "cw_open (goes_on_as i s w) = (cw_open w)(i \<mapsto> s)"
  "db_next_posting (cw_db (goes_on_as i s w)) = next_posting s" "db_ctype (cw_db (goes_on_as i s w)) = db_ctype (cw_db w)"
  by (simp_all add: goes_on_as_def shared_book_def)

lemma committed_parts [simp]:
  "shared_book (committed_by i b w) = b" "db_next_posting (cw_db (committed_by i b w)) = db_next_posting (cw_db w)"
  "db_ctype (cw_db (committed_by i b w)) = db_ctype (cw_db w)"
  by (simp_all add: committed_by_def shared_book_def)

lemma apart_later: "apart n b \<Longrightarrow> n \<le> m \<Longrightarrow> apart m b"
  by (auto simp: apart_def)

text \<open>A transaction that goes on, and clashes with nobody.\<close>

lemma steady_goes_on:
  assumes w: "steady ct w" and s': "same_setting (numbering w s) s'" and s: "cw_open w i = Some s"
    and g: "\<not> read_only s \<Longrightarrow> grown_law.holds ct (shared_book w) s'"
    and no: "\<And>j t. cw_open w j = Some t \<Longrightarrow> \<not> read_only t \<Longrightarrow> \<not> read_only s \<Longrightarrow> j \<noteq> i \<Longrightarrow>
      held (shared_book w) s' \<inter> held (shared_book w) t = {}"
  shows "steady ct (goes_on_as i s' w)"
proof -
  have later: "db_next_posting (cw_db w) \<le> next_posting s'" and ro: "read_only s' = read_only s"
    using s' by (simp_all add: same_setting_def)
  show ?thesis
  proof (rule steadyI)
    show "db_ctype (cw_db (goes_on_as i s' w)) = ct" using steadyD(1) [OF w] by simp
    show "consistent ct (shared_book (goes_on_as i s' w))" using steadyD(2) [OF w] by simp
    show "apart (db_next_posting (cw_db (goes_on_as i s' w))) (shared_book (goes_on_as i s' w))"
      using apart_later [OF steadyD(3) [OF w] later] by simp
    fix j t
    assume t: "cw_open (goes_on_as i s' w) j = Some t" "\<not> read_only t"
    show "grown_law.holds ct (shared_book (goes_on_as i s' w)) (numbering (goes_on_as i s' w) t)"
    proof (cases "j = i")
      case True
      with t g ro show ?thesis by (simp add: numbering_def)
    next
      case False
      with t have "grown_law.holds ct (shared_book w) (numbering w t)" using steadyD(4) [OF w] by simp
      from grown_law.holds_later [OF this, of "next_posting s'"] later show ?thesis by (simp add: numbering_def)
    qed
  next
    fix j k t u
    assume "cw_open (goes_on_as i s' w) j = Some t" "cw_open (goes_on_as i s' w) k = Some u" "\<not> read_only t" "\<not> read_only u" "j \<noteq> k"
    with steadyD(5) [OF w] no [of k u] no [of j t] ro
    show "held (shared_book (goes_on_as i s' w)) t \<inter> held (shared_book (goes_on_as i s' w)) u = {}"
      by (auto split: if_splits)
  qed
qed

text \<open>A COMMIT, and the others caught up with it.\<close>

lemma commit_fires: "commit s = (r, Some b) \<Longrightarrow> fire_all (pending s) (work s) = Inr b"
  using next_fault_frame(1,2) [of s]
  by (cases "next_fault s")
     (auto simp: commit_def Let_def split: option.splits fault.splits sum.splits if_splits)

lemma fire_all_uniques: "fire_all evs b = Inr b' \<Longrightarrow> uniques b' \<subseteq> uniques b"
proof (induction evs arbitrary: b)
  case (Cons ev evs)
  then obtain b1 where b1: "fire ev b = Inr b1" "fire_all evs b1 = Inr b'" by (auto split: sum.splits)
  have "uniques b1 \<subseteq> uniques b" using fire_frame [OF b1(1)] by (auto simp: uniques_def)
  with Cons.IH [OF b1(2)] show ?case by simp
qed simp

lemma in_hand_caught_up:
  "in_hand (caught_up old new s) = (case level_of s of RepeatableRead \<Rightarrow> in_hand s | ReadCommitted \<Rightarrow> rebase old new ` in_hand s)"
  by (simp add: caught_up_def in_hand_def rebase_snapshot_def image_image split: isolation.split)

lemma held_caught_up:
  assumes "uniques old \<subseteq> uniques new"
  shows "held new (caught_up old new s) \<subseteq> held old s"
proof -
  have "uniques (rebase old new b) - uniques new \<subseteq> uniques b - uniques old" for b
    using uniques_rebase [of old new b] assms by blast
  with assms show ?thesis unfolding held_def in_hand_caught_up by (cases "level_of s") auto
qed

lemma caught_up_parts [simp]:
  "read_only (caught_up old new s) = read_only s" "pending (caught_up old new s) = pending s"
  "ctype_of (caught_up old new s) = ctype_of s" "next_posting (caught_up old new s) = next_posting s"
  by (simp_all add: caught_up_def split: isolation.split)

lemma writer_caught_up:
  "\<not> read_only s \<Longrightarrow> work (caught_up old new s) = rebase old new (work s)"
  "\<not> read_only s \<Longrightarrow> saves (caught_up old new s) = map (map_prod id (rebase_snapshot old new)) (saves s)"
  by (simp_all add: caught_up_def level_of_def write_level_def)

lemma grown_caught_up:
  assumes s: "grown_law.holds ct old s" "\<not> read_only s" and old: "consistent ct old"
    and new: "consistent ct new" "apart (next_posting s) new" and on: "extends old new" "keys_kept old new"
    and clear: "held old s \<inter> uniques new = {}"
  shows "grown_law.holds ct new (caught_up old new s)"
proof -
  have g: "grown ct new (next_posting s) (rebase old new b) p"
    if "grown ct old (next_posting s) b p" "uniques b - uniques old \<subseteq> held old s" for b p
    using grown_rebase [OF that(1) old new on] that(2) clear by blast
  have "uniques (work s) - uniques old \<subseteq> held old s" by (auto simp: held_def in_hand_def)
  then have "grown ct new (next_posting s) (rebase old new (work s)) (pending s)"
    using g s(1) by (simp add: grown_law.holds_def)
  moreover have "grown ct new (next_posting s) (rebase old new (sn_book sn)) (sn_pending sn)" if "(n, sn) \<in> set (saves s)" for n sn
  proof (rule g)
    show "grown ct old (next_posting s) (sn_book sn) (sn_pending sn)" using s(1) that by (auto simp: grown_law.holds_def)
    show "uniques (sn_book sn) - uniques old \<subseteq> held old s" using that by (force simp: held_def in_hand_def)
  qed
  ultimately show ?thesis
    using s unfolding grown_law.holds_def by (auto simp: writer_caught_up [OF s(2)] rebase_snapshot_def)
qed

lemma steady_committed:
  assumes w: "steady ct w" and s: "cw_open w i = Some s" "\<not> read_only s" and c: "commit s = (r, Some b)"
  shows "steady ct (committed_by i b w) \<and> extends (shared_book w) b \<and> keys_kept (shared_book w) b"
proof -
  let ?old = "shared_book w" and ?n = "db_next_posting (cw_db w)"
  have g: "grown ct ?old ?n b []"
    using grown_law.commit_keeps [OF steadyD(4) [OF w s], of r b] c by simp
  then have new: "consistent ct b" "apart ?n b" "extends ?old b" "keys_kept ?old b"
    by (auto simp: grown_def consistent_iff)
  have u: "uniques ?old \<subseteq> uniques b"
    using uniques_grow [OF new(3,4)] steadyD(2) [OF w] by (simp add: consistent_def)
  have "uniques b \<subseteq> uniques (work s)" by (rule fire_all_uniques [OF commit_fires [OF c]])
  then have b: "uniques b \<subseteq> uniques ?old \<union> held ?old s" by (auto simp: held_def in_hand_def)
  have clear: "held ?old t \<inter> uniques b = {}" if "cw_open w j = Some t" "\<not> read_only t" "j \<noteq> i" for j t
    using steadyD(5) [OF w that(1) s(1) that(2) s(2) that(3)] b by (auto simp: held_def)
  have opens: "\<exists>t'. cw_open w j = Some t' \<and> t = caught_up ?old b t' \<and> j \<noteq> i" if "cw_open (committed_by i b w) j = Some t" for j t
    using that by (auto simp: committed_by_def split: if_splits)
  have "steady ct (committed_by i b w)"
  proof (rule steadyI)
    show "db_ctype (cw_db (committed_by i b w)) = ct" using steadyD(1) [OF w] by simp
    show "consistent ct (shared_book (committed_by i b w))" using new by simp
    show "apart (db_next_posting (cw_db (committed_by i b w))) (shared_book (committed_by i b w))" using new by simp
    fix j t
    assume t: "cw_open (committed_by i b w) j = Some t" "\<not> read_only t"
    then obtain t' where t': "cw_open w j = Some t'" "t = caught_up ?old b t'" "j \<noteq> i" using opens by blast
    with t have ro: "\<not> read_only t'" by simp
    have "grown_law.holds ct b (caught_up ?old b (numbering w t'))"
      by (rule grown_caught_up [OF steadyD(4) [OF w t'(1) ro]])
         (use new steadyD(2) [OF w] ro clear [OF t'(1) ro t'(3)] in simp_all)
    moreover have "numbering (committed_by i b w) t = caught_up ?old b (numbering w t')"
      by (simp add: t'(2) numbering_def caught_up_def level_of_def split: isolation.split)
    ultimately show "grown_law.holds ct (shared_book (committed_by i b w)) (numbering (committed_by i b w) t)" by simp
  next
    fix j k t v
    assume t: "cw_open (committed_by i b w) j = Some t" "cw_open (committed_by i b w) k = Some v"
      "\<not> read_only t" "\<not> read_only v" "j \<noteq> k"
    obtain t' v' where t': "cw_open w j = Some t'" "t = caught_up ?old b t'" "cw_open w k = Some v'" "v = caught_up ?old b v'"
      using opens t(1,2) by blast
    with t have "held ?old t' \<inter> held ?old v' = {}" using steadyD(5) [OF w] by simp
    with t' held_caught_up [OF u, of t'] held_caught_up [OF u, of v']
    show "held (shared_book (committed_by i b w)) t \<inter> held (shared_book (committed_by i b w)) v = {}" by auto
  qed
  with new show ?thesis by blast
qed

lemma in_hand_query: "in_hand (snd (query f s)) = in_hand s"
proof -
  have "work (snd (query f s)) = work s \<and> saves (snd (query f s)) = saves s"
    using next_fault_frame [of s]
    by (cases "next_fault s") (auto simp: query_def round_trip_def split: option.split fault.split sum.split)
  then show ?thesis by (simp add: in_hand_def)
qed

lemma steady_alone: "sound d \<Longrightarrow> steady (db_ctype d) (alone d)"
  by (rule steadyI) (auto simp: alone_def sound_def shared_book_def numbered_apart)

lemma begin_holds_nothing [simp]:
  "held (db_book d) (begin_tx ro c d) = {}" "held (shared_book w) (begin_tx ro c (cw_db w)) = {}"
  by (simp_all add: held_def in_hand_def begin_tx_def shared_book_def)

lemma begin_grown:
  assumes "steady ct w"
  shows "grown_law.holds ct (shared_book w) (begin_tx ro c (cw_db w))"
  using steadyD(1-3) [OF assms]
  by (auto simp: grown_law.holds_def begin_tx_def grown_def keys_kept_def shared_book_def)
     (auto simp: consistent_iff [THEN iffD1], auto simp: consistent_def)

lemma steady_step:
  assumes "crowd_step hands_off w w'" and w: "steady ct w"
  shows "steady ct w' \<and> extends (shared_book w) (shared_book w') \<and> keys_kept (shared_book w) (shared_book w')"
proof -
  have here: "keys_kept (shared_book w) (shared_book w)"
    using steadyD(2) [OF w] by (simp add: keys_kept_def consistent_def)
  from assms(1) show ?thesis
  proof cases
    case (begins i ro c)
    let ?new = "begin_tx ro c (cw_db w)"
    have "numbering w ?new = ?new" by (simp add: numbering_def begin_tx_def)
    then have "steady ct w'"
      using w begin_grown [OF w, of ro c]
      by (intro steadyI) (auto simp: begins(1) dest: steadyD split: if_splits)
    with here show ?thesis by (simp add: begins(1))
  next
    case (sends i s q s')
    have "same_setting (numbering w s) s'" unfolding sends(4) by (rule exec_setting)
    moreover have "grown_law.holds ct (shared_book w) s'" if "\<not> read_only s"
      unfolding sends(4) by (rule grown_law.exec_keeps [OF steadyD(4) [OF w sends(2) that] sends(3)])
    moreover have "held (shared_book w) s' \<inter> held (shared_book w) t = {}" if "cw_open w j = Some t" "j \<noteq> i" for j t
      using sends(5) that by (auto simp: waits_def)
    ultimately have "steady ct w'" unfolding sends(1) by (intro steady_goes_on [OF w _ sends(2)]) blast+
    with here show ?thesis by (simp add: sends(1))
  next
    case (reads i s s' f)
    have "same_setting (numbering w s) s'" unfolding reads(3) by (rule query_setting)
    moreover have "grown_law.holds ct (shared_book w) s'" if "\<not> read_only s"
      unfolding reads(3) by (rule grown_law.query_keeps [OF steadyD(4) [OF w reads(2) that]])
    moreover have "held (shared_book w) s' = held (shared_book w) s"
      unfolding reads(3) by (simp add: held_def in_hand_query) (simp add: in_hand_def)
    ultimately have "steady ct w'" unfolding reads(1) using steadyD(5) [OF w reads(2)]
      by (intro steady_goes_on [OF w _ reads(2)]) auto
    with here show ?thesis by (simp add: reads(1))
  next
    case (commits i s r b)
    from steady_committed [OF w commits(2-4)] show ?thesis by (simp add: commits(1))
  next
    case (ends i s)
    have "steady ct w'"
      using w by (intro steadyI) (auto simp: ends(1) dest: steadyD split: if_splits)
    with here show ?thesis by (simp add: ends(1))
  qed
qed

lemma steady_steps:
  assumes "crowd_steps hands_off w w'" and "steady ct w"
  shows "steady ct w' \<and> extends (shared_book w) (shared_book w') \<and> keys_kept (shared_book w) (shared_book w')"
  using assms(1) unfolding crowd_steps_def
proof (induction rule: rtranclp_induct)
  case base
  show ?case using assms(2) steadyD(2) [OF assms(2)] by (simp add: keys_kept_def consistent_def)
next
  case (step w1 w2)
  with steady_step [OF step(2)] show ?case by (auto simp: keys_kept_def intro: extends_trans prefix_order.trans)
qed

section \<open>One after another is a way to be at once\<close>

text \<open>A transaction runs to its end among others that have written nothing.\<close>

lemma runs_among:
  assumes "sql_steps A t s" and "cw_open w i = Some t" and "next_posting t = db_next_posting (cw_db w)"
    and "\<And>j u. cw_open w j = Some u \<Longrightarrow> j \<noteq> i \<Longrightarrow> held (shared_book w) u = {}"
  shows "crowd_steps A w (goes_on_as i s w)"
  using assms
proof (induction rule: sql_steps.induct)
  case (none t)
  then have "goes_on_as i t w = w" by (simp add: goes_on_as_def fun_upd_idem)
  then show ?case by (simp add: crowd_steps_def)
next
  case (stmt t s q)
  let ?w = "goes_on_as i s w" and ?s = "snd (exec q s)"
  have n: "numbering ?w s = s" by (simp add: numbering_def)
  have "\<not> waits ?w i ?s" using stmt.prems(3) by (auto simp: waits_def)
  with stmt.hyps(2) n have "crowd_step A ?w (goes_on_as i ?s ?w)" by (intro crowd_step.sends [of _ i s]) simp_all
  moreover have "goes_on_as i ?s ?w = goes_on_as i ?s w" by (simp add: goes_on_as_def)
  moreover have "crowd_steps A w ?w" by (rule stmt.IH) (fact stmt.prems)+
  ultimately show ?case by (simp add: crowd_steps_def)
next
  case (read t s f)
  let ?w = "goes_on_as i s w" and ?s = "snd (query f s)"
  have "numbering ?w s = s" by (simp add: numbering_def)
  then have "crowd_step A ?w (goes_on_as i ?s ?w)" by (intro crowd_step.reads [of _ i s _ f]) simp_all
  moreover have "goes_on_as i ?s ?w = goes_on_as i ?s w" by (simp add: goes_on_as_def)
  moreover have "crowd_steps A w ?w" by (rule read.IH) (fact read.prems)+
  ultimately show ?case by (simp add: crowd_steps_def)
qed

section \<open>A retry that waits\<close>

text \<open>\<open>Once\<close> up to its reservation, and from there.\<close>

definition at_reservation :: "session \<Rightarrow> session" where
  "at_reservation t = snd (exec (SetConstraints settled_constraint False) (snd (exec (Savepoint once_savepoint) t)))"

definition from_reservation :: "claim \<Rightarrow> gostr act \<Rightarrow> once_record act" where
  "from_reservation c wr =
     attempt (exec (InsertKey (cl_key c) (cl_hash c)))
       (\<lambda>e. attempt rollback_to_once (\<lambda>rb. fail (Joined [e, rb])) (\<lambda>_.
          if sqlstate e = ''23505'' then key_taken c else fail (bad_key e c)))
       (\<lambda>_. attempt wr (\<lambda>e. undo_once e e) (settle c))"

lemma at_reservation_marked:
  assumes "healthy t"
  shows "at_reservation t = (marked t)\<lparr>modes := new_modes settled_constraint False t\<rparr>"
  using savepoint_healthy [OF assms, of once_savepoint] defer_healthy [of "marked t" settled_constraint] assms
  by (simp add: at_reservation_def marked_def [symmetric] new_modes_def fun_eq_iff) (simp add: marked_def)

lemma once_from_reservation:
  assumes "healthy t"
  shows "once c wr t = from_reservation c wr (at_reservation t)"
  using savepoint_healthy [OF assms, of once_savepoint] defer_healthy [of "marked t" settled_constraint] assms
  by (simp add: once_def from_reservation_def at_reservation_def attempt_def marked_def [symmetric])

lemma from_reservation_refused:
  assumes "healthy t" and "pg_code p = ''23505''" and "key_with (work t) (cl_key c) = None" and "text_ok (cl_key c)"
  shows "from_reservation c wr ((at_reservation t)\<lparr>faults := [Some (Refuse p)]\<rparr>) =
    (Inl (Errorf [Txt ''the key '', Quo (shown (cl_key c)), Txt '' was taken and is already gone'']), t)"
proof -
  let ?t = "at_reservation t"
  note m = at_reservation_marked [OF assms(1)]
  have h: "lost t = None" "faults t = []" using assms(1) by (simp_all add: healthy_def)
  have "exec (InsertKey (cl_key c) (cl_hash c)) (?t\<lparr>faults := [Some (Refuse p)]\<rparr>) = (Inl (PgErr p), ?t\<lparr>faults := [], failed := True\<rparr>)"
    using h by (simp add: exec_def round_trip_def next_fault_def m marked_def)
  moreover have "rollback_to_once (?t\<lparr>faults := [], failed := True\<rparr>) = (Inr (), marked t)"
    by (subst rollback_to_once_top [of _ "snapshot_of t" "saves t"])
       (use healthyD [OF assms(1)] in \<open>simp_all add: m marked_def restore_def snapshot_of_def\<close>)
  moreover have "key_taken c (marked t) =
      (Inl (Errorf [Txt ''the key '', Quo (shown (cl_key c)), Txt '' was taken and is already gone'']), t)"
    using assms(1,3,4) release_once_marked [OF assms(1)]
    by (simp add: key_taken_def replay_def attempt_def fail_def query_row_healthy replay_query_def errors_is_def)
  ultimately show ?thesis using assms(2) by (simp add: from_reservation_def attempt_def sqlstate_pg)
qed

lemma reservation_catches_up:
  assumes "c_faults ci = []" and "balance_checks (db_book d) = []" and "balance_checks b = []"
  shows "caught_up (db_book d) b (at_reservation (begin_tx False ci d)) = at_reservation (begin_tx False ci (d\<lparr>db_book := b\<rparr>))"
proof -
  have h: "healthy (begin_tx False ci d')" for d' using assms(1) by (simp add: begin_tx_def healthy_def)
  have "rebase (db_book d) b (db_book d) = b" using assms(2,3) by (simp add: rebase_def)
  then show ?thesis
    by (simp add: at_reservation_marked [OF h])
       (simp add: caught_up_def level_of_def write_level_def marked_def begin_tx_def snapshot_of_def rebase_snapshot_def
          new_modes_def fun_eq_iff)
qed

text \<open>The reservation of a fresh key in a second transaction, while a first has it in hand.\<close>

lemma reservation_waits:
  assumes h: "healthy t" and fresh: "key_with (work t) (cl_key c) = None"
    and fit: "text_ok (cl_key c)" "key_check (ctype_of t) (cl_key c)" "length (cl_hash c) = 32"
    and s: "cw_open w i = Some s" "i \<noteq> j" "key_with (work s) (cl_key c) \<noteq> None" and b: "shared_book w = work t"
  shows "waits w j (snd (exec (InsertKey (cl_key c) (cl_hash c)) (at_reservation t)))"
proof -
  obtain b' where b': "insert_key (ctype_of t) (now t) (cl_key c) (cl_hash c) (work t) = Inr b'"
    "cl_key c \<in> key_key ` set (idempotency_keys b')"
    using fit fresh by (auto simp: insert_key_def key_with_None)
  note m = at_reservation_marked [OF h]
  have "healthy (at_reservation t)" using h by (simp add: m)
  then have "work (snd (exec (InsertKey (cl_key c) (cl_hash c)) (at_reservation t))) = b'"
    using b'(1) by (simp add: exec_healthy write_rows_def m) (simp add: new_modes_def settled_constraint_def)
  then have "KeyName (cl_key c) \<in> held (shared_book w) (snd (exec (InsertKey (cl_key c) (cl_hash c)) (at_reservation t)))"
    using b'(2) fresh by (auto simp: held_def in_hand_def in_uniques b key_with_None)
  moreover have "KeyName (cl_key c) \<in> held (shared_book w) s"
    using s(3) fresh by (auto simp: held_def in_hand_def in_uniques b key_with_None)
  ultimately show ?thesis using s(1,2) unfolding waits_def by blast
qed

lemma crowd_steps_mono:
  assumes "crowd_steps A w w'" and "\<And>q. A q \<Longrightarrow> B q"
  shows "crowd_steps B w w'"
proof -
  have "crowd_step B w w'" if "crowd_step A w w'" for w w'
    using that by cases (auto intro: crowd_step.intros assms(2))
  then have "crowd_step A \<le> crowd_step B" by blast
  from rtranclp_mono [OF this] assms(1) show ?thesis by (auto simp: crowd_steps_def)
qed

text \<open>Two transactions begun on one database: the first done with its work, the second at its reservation.\<close>

definition both_at_work :: "database \<Rightarrow> session \<Rightarrow> session \<Rightarrow> crowd" where
  "both_at_work d s t = \<lparr>cw_db = d\<lparr>db_next_posting := next_posting s\<rparr>, cw_open = [0 \<mapsto> s, 1 \<mapsto> t]\<rparr>"

lemma both_at_work_parts [simp]:
  "shared_book (both_at_work d s t) = db_book d" "cw_open (both_at_work d s t) = [0 \<mapsto> s, 1 \<mapsto> t]"
  by (simp_all add: both_at_work_def shared_book_def)

lemma both_get_to_work:
  assumes s: "sql_steps issued (begin_tx False ci d) s" and t: "healthy (begin_tx False ci' d)"
  shows "crowd_steps issued (alone d) (both_at_work d s (at_reservation (begin_tx False ci' d)))"
proof -
  let ?s = "begin_tx False ci d" and ?t = "begin_tx False ci' d"
  let ?w1 = "(alone d)\<lparr>cw_open := [0 \<mapsto> ?s]\<rparr>"
  let ?w2 = "?w1\<lparr>cw_open := [0 \<mapsto> ?s, 1 \<mapsto> ?t]\<rparr>"
  let ?w3 = "goes_on_as 1 (at_reservation ?t) ?w2"
  have n: "next_posting ?s = db_next_posting d" "next_posting (at_reservation ?t) = db_next_posting d" "next_posting ?t = db_next_posting d"
    by (simp_all add: at_reservation_marked [OF t]) (simp_all add: begin_tx_def marked_def)
  have idle: "held (db_book d) (at_reservation ?t) = {}"
    by (simp_all add: at_reservation_marked [OF t])
       (simp_all add: held_def in_hand_def begin_tx_def marked_def snapshot_of_def)
  have "sql_steps issued ?t (at_reservation ?t)"
    unfolding at_reservation_def by (intro sql_steps.stmt sql_steps.none) simp_all
  then have two: "crowd_steps issued ?w2 ?w3"
    by (rule runs_among) (auto simp: idle n split: if_splits)
  have one: "crowd_steps issued (alone d) ?w2"
    using crowd_step.begins [of "alone d" 0 issued False ci] crowd_step.begins [of ?w1 1 issued False ci']
    unfolding crowd_steps_def by (simp add: alone_def rtranclp.intros converse_rtranclp_into_rtranclp)
  have three: "crowd_steps issued ?w3 (goes_on_as 0 s ?w3)"
  proof (rule runs_among [OF s])
    fix j u
    assume "cw_open ?w3 j = Some u" "j \<noteq> 0"
    then have "u = at_reservation ?t" by (auto split: if_splits)
    with idle show "held (shared_book ?w3) u = {}" by simp
  qed (simp_all add: n)
  have same: "goes_on_as 0 s ?w3 = both_at_work d s (at_reservation ?t)"
    by (simp add: goes_on_as_def both_at_work_def alone_def fun_upd_twist)
  show ?thesis
    using rtranclp_trans [OF one [unfolded crowd_steps_def]
        rtranclp_trans [OF two [unfolded crowd_steps_def] three [unfolded crowd_steps_def]]]
    by (simp only: crowd_steps_def same)
qed

section \<open>A read\<close>

text \<open>A read-only transaction that sees \<open>b\<close>, with nothing of its own.\<close>

definition reads_only :: "book \<Rightarrow> session \<Rightarrow> bool" where
  "reads_only b s \<longleftrightarrow> read_only s \<and> work s = b \<and> pending s = [] \<and>
     (\<forall>(n, sn) \<in> set (saves s). sn_book sn = b \<and> sn_pending sn = [])"

lemma reads_only_parts [simp]:
  "reads_only b (s\<lparr>failed := x\<rparr>) = reads_only b s" "reads_only b (s\<lparr>lost := y\<rparr>) = reads_only b s"
  "reads_only b (snd (next_fault s)) = reads_only b s" "reads_only b (numbering w s) = reads_only b s"
  "reads_only b (begin_tx True c d) \<longleftrightarrow> db_book d = b"
  by (auto simp: reads_only_def next_fault_def numbering_def begin_tx_def split: list.split)

lemma reads_only_round_trip:
  assumes "reads_only b s" and "\<And>s. reads_only b s \<Longrightarrow> reads_only b (snd (f s))"
  shows "reads_only b (snd (round_trip r f s))"
proof -
  obtain g s1 where n: "next_fault s = (g, s1)" by (cases "next_fault s")
  have s1: "reads_only b s1" using assms(1) n reads_only_parts(3) [of b s] by simp
  obtain x s2 where f: "f s1 = (x, s2)" by (cases "f s1")
  with assms(2) [OF s1] have "reads_only b s2" by simp
  with s1 f assms(1) show ?thesis
    by (auto simp: round_trip_def n split: option.split fault.split sum.split)
qed

lemma reads_only_exec: "reads_only b s \<Longrightarrow> reads_only b (snd (exec q s))"
  unfolding exec_def
proof (rule reads_only_round_trip)
  fix t
  assume t: "reads_only b t"
  have "reads_only b (snd (rollback_to n t))" for n
  proof (cases "dropWhile (\<lambda>p. fst p \<noteq> n) (saves t)")
    case (Cons x rest)
    then have "set (x # rest) \<subseteq> set (saves t)" by (metis set_dropWhileD subsetI)
    with t Cons show ?thesis by (cases x) (auto simp: rollback_to_def restore_def reads_only_def)
  next
    case Nil
    show ?thesis unfolding rollback_to_def Nil using t by simp
  qed
  moreover have "reads_only b (snd (release n t))" for n
  proof (cases "dropWhile (\<lambda>p. fst p \<noteq> n) (saves t)")
    case (Cons x rest)
    then have "set (x # rest) \<subseteq> set (saves t)" by (metis set_dropWhileD subsetI)
    with t Cons show ?thesis by (auto simp: release_def reads_only_def)
  next
    case Nil
    show ?thesis unfolding release_def Nil using t by simp
  qed
  ultimately show "reads_only b (snd (if read_only t \<and> writes_rows q then (Inl in_read_only_transaction, t) else run_stmt q t))"
    using t by (cases q) (auto simp: set_constraints_def reads_only_def snapshot_of_def)
qed

text \<open>Steps during which transaction \<open>i\<close> stays open.\<close>

definition steps_with :: "nat \<Rightarrow> (stmt \<Rightarrow> bool) \<Rightarrow> crowd \<Rightarrow> crowd \<Rightarrow> bool" where
  "steps_with i A = (\<lambda>w w'. crowd_step A w w' \<and> cw_open w' i \<noteq> None)\<^sup>*\<^sup>*"

lemma reads_only_step:
  assumes "crowd_step A w w'" and "cw_open w i = Some s" and "reads_only b s" and "cw_open w' i \<noteq> None"
  shows "\<exists>s'. cw_open w' i = Some s' \<and> reads_only b s'"
  using assms(1)
proof cases
  case (sends j t q s')
  with assms show ?thesis by (auto intro: reads_only_exec)
next
  case (reads j t s' f)
  have "reads_only b (snd (query f (numbering w s)))"
    unfolding query_def by (rule reads_only_round_trip) (use assms(3) in simp_all)
  with reads assms show ?thesis by auto
next
  case (commits j t r b')
  with assms have "cw_open w' i = Some (caught_up (shared_book w) b' s)" by (auto simp: committed_by_def split: if_splits)
  with assms(3) show ?thesis by (simp add: caught_up_def level_of_def read_level_def reads_only_def)
qed (use assms in \<open>auto split: if_splits\<close>)

text \<open>Two requests under one key, on the sample chart.\<close>

lemma sample_first_call:
  obtains s where
    "once (sample_claim CHR ''h'') (post (sample_entry 500)) (begin_tx False quiet (database_of sample_book)) =
      (Inr \<lparr>rc_key = sample_key, rc_transaction = uuid_out 1, rc_replayed = False\<rparr>, s)"
    and "commit s = (Inr (), Some (work s))"
proof -
  have acc: "accepted (quiet_session sample_book) (sample_entry 500)"
    unfolding accepted_def quiet_frame by code_simp
  have fit: "key_fit (quiet_session sample_book) (sample_claim CHR ''h'')"
    unfolding key_fit_def quiet_frame by code_simp
  have new: "key_with (work (quiet_session sample_book)) (cl_key (sample_claim CHR ''h'')) = None"
    unfolding quiet_frame by code_simp
  obtain s where "once (sample_claim CHR ''h'') (post (sample_entry 500)) (begin_tx False quiet (database_of sample_book)) =
      (Inr \<lparr>rc_key = sample_key, rc_transaction = uuid_out 1, rc_replayed = False\<rparr>, s)" "pending s = []" "healthy s"
    using once_first [OF quiet_ready quiet_frame(2) fit new acc]
    unfolding sample_fresh sample_claim_key by (auto simp: quiet_session_def)
  with that commit_quiet show ?thesis by blast
qed

lemma first_call_writes:
  assumes "once (sample_claim CHR ''h'') (post (sample_entry 500)) (begin_tx False quiet (database_of sample_book)) = (Inr rec, s)"
  shows "sql_steps issued (begin_tx False quiet (database_of sample_book)) s" and "\<not> read_only s" and "work s \<noteq> sample_book"
proof -
  show steps: "sql_steps issued (begin_tx False quiet (database_of sample_book)) s" by (rule once_post_steps [OF assms])
  show "\<not> read_only s" using steps_setting [OF steps] by (simp add: same_setting_def begin_tx_def)
  have "key_with (work s) (cl_key (sample_claim CHR ''h'')) \<noteq> None"
    using post_writer.key_of_success [OF assms] by (auto simp: names_def)
  then show "work s \<noteq> sample_book" by (auto simp: key_with_def sample_book_def empty_book_def)
qed

lemma quiet_begins: "c_faults quiet = []" "healthy (begin_tx False quiet d)"
  by (simp_all add: quiet_def begin_tx_def healthy_def)

section \<open>Properties\<close>

text \<open>
  C17. The ledger keeps its promises to transactions at once.  However the statements of any number of
  transactions interleave, whatever they are (short of a hand on the queue of checks or a key
  deleted), whatever goes wrong with them and whichever commit: the book committed at any moment is
  consistent, with no posting's number given twice; and whatever happens after, its accounts,
  transactions, postings and keys are there still, in place and as they were.
\<close>

theorem transactions_at_once_keep_the_ledger:
  assumes "sound d" and "crowd_steps hands_off (alone d) w" and "crowd_steps hands_off w w'"
  shows "consistent (db_ctype d) (shared_book w) \<and> distinct (map pst_id (postings (shared_book w))) \<and>
    extends (shared_book w) (shared_book w') \<and>
    prefix (idempotency_keys (shared_book w)) (idempotency_keys (shared_book w'))"
proof -
  have "steady (db_ctype d) w" using steady_steps [OF assms(2) steady_alone [OF assms(1)]] by blast
  with steady_steps [OF assms(3)] steadyD(2,3) show ?thesis by (auto simp: keys_kept_def apart_def)
qed

theorem transactions_at_once_keep_the_ledger_witness:
  "\<exists>w. crowd_steps hands_off (alone (database_of sample_book)) w \<and> cw_open w 1 \<noteq> None \<and>
     consistent c_locale (shared_book w) \<and> extends sample_book (shared_book w) \<and> shared_book w \<noteq> sample_book"
proof -
  let ?d = "database_of sample_book"
  obtain s where s: "once (sample_claim CHR ''h'') (post (sample_entry 500)) (begin_tx False quiet ?d) =
      (Inr \<lparr>rc_key = sample_key, rc_transaction = uuid_out 1, rc_replayed = False\<rparr>, s)" "commit s = (Inr (), Some (work s))"
    using sample_first_call by blast
  note first = first_call_writes [OF s(1)]
  let ?w = "both_at_work ?d s (at_reservation (begin_tx False quiet ?d))"
  let ?w' = "committed_by 0 (work s) ?w"
  have "crowd_step issued ?w ?w'" using first(2) by (intro crowd_step.commits [OF _ _ s(2)]) simp_all
  with both_get_to_work [OF first(1) quiet_begins(2)] have "crowd_steps issued (alone ?d) ?w'" by (simp add: crowd_steps_def)
  then have run: "crowd_steps hands_off (alone ?d) ?w'" by (rule crowd_steps_mono) (rule issued_hands_off)
  have "crowd_steps hands_off (alone ?d) (alone ?d)" by (simp add: crowd_steps_def)
  note transactions_at_once_keep_the_ledger [OF sample_sound this run]
    transactions_at_once_keep_the_ledger [OF sample_sound run, of ?w']
  then show ?thesis
    using run first(3) by (intro exI [of _ ?w']) (simp add: crowd_steps_def committed_by_def [of 0] shared_book_def alone_def database_of_def)
qed

text \<open>
  C19. A read is of one moment.  A transaction \<^verbatim>\<open>Pool.Read\<close> begins sees the book committed when it began for as
  long as it is open, whatever it sends and whatever others commit meanwhile.
\<close>

theorem a_read_sees_one_moment:
  assumes "steps_with i A (w\<lparr>cw_open := (cw_open w)(i \<mapsto> begin_tx True c (cw_db w))\<rparr>) w'"
  shows "\<exists>s. cw_open w' i = Some s \<and> read_only s \<and> work s = shared_book w"
proof -
  have "\<exists>s. cw_open w' i = Some s \<and> reads_only (shared_book w) s"
    using assms unfolding steps_with_def
  proof (induction rule: rtranclp_induct)
    case base
    show ?case by (simp add: shared_book_def)
  next
    case (step w1 w2)
    then show ?case using reads_only_step by blast
  qed
  then show ?thesis by (auto simp: reads_only_def)
qed

theorem a_read_sees_one_moment_witness:
  "\<exists>w w' s. steps_with 1 issued w w' \<and> shared_book w' \<noteq> sample_book \<and> cw_open w' 1 = Some s \<and> work s = sample_book"
proof -
  let ?d = "database_of sample_book"
  obtain s where s: "once (sample_claim CHR ''h'') (post (sample_entry 500)) (begin_tx False quiet ?d) =
      (Inr \<lparr>rc_key = sample_key, rc_transaction = uuid_out 1, rc_replayed = False\<rparr>, s)" "commit s = (Inr (), Some (work s))"
    using sample_first_call by blast
  let ?w = "(alone ?d)\<lparr>cw_open := [0 \<mapsto> s]\<rparr>"
  let ?w1 = "?w\<lparr>cw_open := (cw_open ?w)(1 \<mapsto> begin_tx True quiet (cw_db ?w))\<rparr>"
  let ?w2 = "committed_by 0 (work s) ?w1"
  have "crowd_step issued ?w1 ?w2"
    using first_call_writes [OF s(1)] by (intro crowd_step.commits [OF _ _ s(2)]) simp_all
  then have run: "steps_with 1 issued ?w1 ?w2" by (auto simp: steps_with_def committed_by_def)
  have "shared_book ?w = sample_book" by (simp add: database_of_def)
  with a_read_sees_one_moment [OF run] run first_call_writes [OF s(1)] show ?thesis
    by (intro exI [of _ ?w1] exI [of _ ?w2]) (auto simp del: One_nat_def)
qed

text \<open>
  C18. A retry that comes while the first call is still at work waits for it, and says what it says.  Two
  transactions begun on one database get to where the first has written its entry under its key and
  has not committed, and the second is about to reserve the same key: there its reservation waits.
  When the first has committed, the second, caught up as the level \<^verbatim>\<open>Pool.Write\<close> asks for has it, goes on to
  answer with the first's transaction, marked a replay.  At REPEATABLE READ, where the refused
  reservation leaves it with the book it began on, it would answer that the key was taken and is
  already gone.
\<close>

theorem a_retry_waits_for_the_first_call:
  assumes "sound d" and "key_with (db_book d) (cl_key c) = None" and "c_faults ci' = []"
    and "once c (post e) (begin_tx False ci d) = (Inr rec, s)" and "commit s = (x, Some b)"
    and "t = at_reservation (begin_tx False ci' d)"
  shows "crowd_steps issued (alone d) (both_at_work d s t) \<and>
    waits (both_at_work d s t) 1 (snd (exec (InsertKey (cl_key c) (cl_hash c)) t)) \<and>
    (\<exists>t' idt. crowd_steps issued (both_at_work d s t) (committed_by 0 b (both_at_work d s t)) \<and>
      cw_open (committed_by 0 b (both_at_work d s t)) 1 = Some t' \<and>
      fst (from_reservation c wr t') = Inr \<lparr>rc_key = cl_key c, rc_transaction = idt, rc_replayed = True\<rparr> \<and>
      uuid_in idt = uuid_in (rc_transaction rec)) \<and>
    fst (from_reservation c wr (t\<lparr>faults := [Some (Refuse (unique_violation ''idempotency_keys'' ''idempotency_keys_pkey''))]\<rparr>)) =
      Inl (Errorf [Txt ''the key '', Quo (shown (cl_key c)), Txt '' was taken and is already gone''])"
proof -
  let ?t = "begin_tx False ci' d" and ?d = "d\<lparr>db_book := b\<rparr>"
  have t: "healthy ?t" "healthy (begin_tx False ci' ?d)" using assms(3) by (simp_all add: begin_tx_def healthy_def)
  note steps = once_post_steps [OF assms(4)]
  obtain r u where r: "sound (d\<lparr>db_book := b, db_next_posting := next_posting s\<rparr>)" "names (cl_key c) r (work s)"
    "names (cl_key c) r b" "key_hash r = cl_hash c" "key_txn r = Some u" "uuid_in (rc_transaction rec) = Some u"
    "text_ok (cl_key c)" "key_check (db_ctype d) (cl_key c)" "length (cl_hash c) = 32"
    using committed_call [OF assms(1,4,5)] by metis
  then have new: "consistent (db_ctype d) b" by (simp add: sound_def)
  have w: "work ?t = db_book d" "ctype_of ?t = db_ctype d" by (simp_all add: begin_tx_def)
  have waiting: "waits (both_at_work d s t) 1 (snd (exec (InsertKey (cl_key c) (cl_hash c)) t))"
    unfolding assms(6)
    by (rule reservation_waits [of _ _ _ 0 s]) (use t(1) assms(2) r in \<open>simp_all add: w names_def\<close>)
  have repeatable: "fst (from_reservation c wr (t\<lparr>faults :=
        [Some (Refuse (unique_violation ''idempotency_keys'' ''idempotency_keys_pkey''))]\<rparr>)) =
        Inl (Errorf [Txt ''the key '', Quo (shown (cl_key c)), Txt '' was taken and is already gone''])"
    unfolding assms(6)
    by (subst from_reservation_refused [OF t(1)]) (use assms(2) r(7) in \<open>simp_all add: w unique_violation_def\<close>)
  have "caught_up (db_book d) b t = at_reservation (begin_tx False ci' ?d)"
    unfolding assms(6) by (rule reservation_catches_up) (use assms(1,3) new in \<open>simp_all add: sound_def consistent_def\<close>)
  moreover have "once c wr (begin_tx False ci' ?d) =
      (Inr \<lparr>rc_key = cl_key c, rc_transaction = uuid_out u, rc_replayed = True\<rparr>, begin_tx False ci' ?d)"
    by (subst once_held [OF t(2), of c r u])
       (use new r in \<open>simp_all add: begin_tx_def names_def consistent_def\<close>)
  ultimately have replayed: "fst (from_reservation c wr (caught_up (db_book d) b t)) =
      Inr \<lparr>rc_key = cl_key c, rc_transaction = uuid_out u, rc_replayed = True\<rparr>"
    using once_from_reservation [OF t(2), of c wr] by simp
  have "\<not> read_only s" using steps_setting [OF steps] by (simp add: same_setting_def begin_tx_def)
  then have "crowd_step issued (both_at_work d s t) (committed_by 0 b (both_at_work d s t))"
    by (intro crowd_step.commits [OF _ _ assms(5)]) simp_all
  moreover have "cw_open (committed_by 0 b (both_at_work d s t)) 1 = Some (caught_up (db_book d) b t)"
    by (simp add: committed_by_def)
  ultimately show ?thesis
    using waiting repeatable replayed r(6) both_get_to_work [OF steps t(1), folded assms(6)]
    by (auto simp: crowd_steps_def uuid_in_fresh)
qed

theorem a_retry_waits_for_the_first_call_witness:
  "\<exists>w idt. crowd_steps issued (alone (database_of sample_book)) w \<and>
     (\<exists>t. cw_open w 1 = Some t \<and>
       fst (from_reservation (sample_claim CHR ''h'') (fail (Sentinel Canceled)) t) =
         Inr \<lparr>rc_key = sample_key, rc_transaction = idt, rc_replayed = True\<rparr>) \<and>
     uuid_in idt = Some 1"
proof -
  let ?d = "database_of sample_book"
  obtain s where s: "once (sample_claim CHR ''h'') (post (sample_entry 500)) (begin_tx False quiet ?d) =
      (Inr \<lparr>rc_key = sample_key, rc_transaction = uuid_out 1, rc_replayed = False\<rparr>, s)" "commit s = (Inr (), Some (work s))"
    using sample_first_call by blast
  have "key_with (db_book ?d) (cl_key (sample_claim CHR ''h'')) = None"
    by (simp add: key_with_def database_of_def sample_book_def empty_book_def)
  from a_retry_waits_for_the_first_call [OF sample_sound this quiet_begins(1) s refl, of "fail (Sentinel Canceled)"]
  show ?thesis by (auto simp: crowd_steps_def sample_claim_key uuid_in_fresh intro: rtranclp_trans)
qed

end
