(* ===== verification/Spec2Isabelle.thy ===== *)
theory Spec2Isabelle
  imports Listings ControlLaws ServerLaws TestDb ConcurrentLaws
begin

text \<open>
  A model of pacioli, a double-entry ledger in Go over Postgres, and the proof that it keeps its
  promises: an entry is posted whole and only if it balances, a client's retry never posts twice,
  a balance is the exact sum of its postings, nothing is ever rewritten, each endpoint answers
  what the ledger's contract says, the command that serves them settles a configuration with no
  deadline missing and installs the schema once, and the tools that test it touch nothing of anybody else's.

  \<^bold>\<open>How the program is put together.\<close>  A request comes to a handler of \<^verbatim>\<open>internal/ledgerhttp\<close>, which
  decodes its body, takes one transaction from \<^verbatim>\<open>Pool\<close> (\<^verbatim>\<open>Read\<close> or \<^verbatim>\<open>Write\<close>), and in it calls the functions
  of \<^verbatim>\<open>internal/ledger\<close>, which send statements to Postgres.  The rules of double entry are not in the Go:
  they are the CHECKs, keys and triggers of \<^verbatim>\<open>internal/schema/0001_ledger.sql\<close>, and the Go turns
  their refusals into errors, and the errors into answers.  The model keeps these layers.
  Around them stands the command, \<^verbatim>\<open>cmd/pacioli\<close>, which reads its flags, opens the pool, has
  \<^verbatim>\<open>internal/schema\<close> install the schema and listens; and beside it \<^verbatim>\<open>tools/controls\<close>, which mutates the
  sources to see the checks fail, and \<^verbatim>\<open>internal/testdb\<close>, which lends the tests a database.

  \<^bold>\<open>The theories\<close>, each over those before it.

  \<^item> \<open>Prelude\<close>: base types, the collections the proofs draw on, generic lemmas.  \<open>GoText\<close>: UTF-8 as Go
    reads it, numbers as text, and \<^verbatim>\<open>shown\<close>, \<^verbatim>\<open>count\<close>, \<^verbatim>\<open>postings\<close> of \<^verbatim>\<open>ledger.go\<close>.  \<open>GoError\<close>: the error
    values of \<^verbatim>\<open>internal/ledger\<close> as trees searched by \<^verbatim>\<open>errors.Is\<close> and \<^verbatim>\<open>errors.As\<close>.  \<open>Uuid\<close>: the server's
    reading and writing of a uuid.  \<open>Minor\<close>: \<^verbatim>\<open>minor.go\<close>, every method.
  \<^item> \<open>Schema\<close>: \<^verbatim>\<open>0001_ledger.sql\<close>, tables as lists of rows in the order they were written (the record
    \<open>book\<close>), each CHECK, key, trigger and view a function.  \<open>Session\<close>: one transaction on a connection
    (the record \<open>session\<close>: the book it works on, the triggers it has pending, its savepoints, the faults
    still to come) and the statements the program issues, with when each trigger runs and what a
    failed statement or a lost connection leaves.  \<open>SessionLaws\<close> holds the interface \<open>session_law\<close> between
    a fact about books and the sessions that keep it; \<open>BookLaws\<close> interprets it on what the schema keeps:
    keys and CHECKs, posting numbers, append-only, and the check waiting on every transaction that
    does not balance.  \<open>Savepoints\<close> holds \<open>savepoint_body\<close>, the contract of a piece of work under a savepoint.
  \<^item> \<open>Accounts\<close> (\<^verbatim>\<open>accounts.go\<close>: \<open>open_account\<close> and its second look), \<open>Entries\<close> (\<^verbatim>\<open>ledger.go\<close>: \<open>post\<close>, \<open>post_inner\<close>,
    \<open>entry_of\<close>, \<open>classify\<close>, \<open>explain\<close>), \<open>PostLaws\<close> (what \<open>post\<close> does, against the contract
    \<open>entry_verdict\<close>), \<open>Idempotency\<close> (\<^verbatim>\<open>idempotency.go\<close>: \<open>once\<close> over any write that keeps the locale \<open>writer\<close>,
    interpreted on \<open>post\<close>), \<open>Balances\<close> (\<^verbatim>\<open>balance.go\<close>: \<open>balance_of\<close>, \<open>balances\<close>, \<open>trial_balance\<close>), \<open>History\<close>
    (what holds across any number of transactions), \<open>Concurrent\<close> and \<open>ConcurrentLaws\<close> (transactions at once, as
    the step relation \<open>crowd_step\<close>, at the isolation levels \<^verbatim>\<open>Pool.Read\<close> and \<^verbatim>\<open>Pool.Write\<close> ask for; \<open>session_law\<close>
    interpreted on \<open>grown\<close>, everything a book in hand keeps over the committed one).
  \<^item> \<open>Wire\<close> and \<open>WireLaws\<close> (the bodies, and \<^verbatim>\<open>decode.go\<close>), \<open>Fingerprint\<close> (\<^verbatim>\<open>claimOf\<close> of \<^verbatim>\<open>transactions.go\<close>), \<open>Query\<close>
    (query strings), \<open>Pool\<close> (\<^verbatim>\<open>Pool\<close> of \<^verbatim>\<open>ledgerhttp.go\<close>, with the locale \<open>lender\<close>), \<open>Answers\<close> (\<^verbatim>\<open>fail\<close>, \<^verbatim>\<open>refuse\<close>,
    \<^verbatim>\<open>refuseAccount\<close>: an error becomes an answer), \<open>Endpoints\<close> (the six handlers, the routes, the
    deadline).
  \<^item> \<open>Service\<close>, \<open>Verdicts\<close>, \<open>Retries\<close>, \<open>Listings\<close>: the handlers over the ledger over the schema, as a client
    sees them.
  \<^item> \<open>Strings\<close>: the functions of \<^verbatim>\<open>strings\<close> and \<^verbatim>\<open>bytes\<close> the command and the tools use.  \<open>Config\<close> and \<open>ConfigLaws\<close>
    (\<^verbatim>\<open>parseServe\<close> of \<^verbatim>\<open>serve.go\<close>, with \<^verbatim>\<open>flag.FlagSet.Parse\<close> for its flags), \<open>Migrate\<close> (\<^verbatim>\<open>Apply\<close> of \<^verbatim>\<open>schema.go\<close>: one
    call as the function \<open>apply_schema\<close>, with the locale \<open>installer\<close>; any number at once as the step
    relation \<open>apply_step\<close>), \<open>Server\<close>
    and \<open>ServerLaws\<close> (\<^verbatim>\<open>open\<close>, \<^verbatim>\<open>serve\<close>, \<^verbatim>\<open>serveOn\<close>, \<^verbatim>\<open>newServer\<close>, \<^verbatim>\<open>drain\<close>, \<^verbatim>\<open>run\<close> and \<^verbatim>\<open>main\<close>).
  \<^item> \<open>Controls\<close> and \<open>ControlLaws\<close> (\<^verbatim>\<open>tools/controls\<close>, over a map from path to content), \<open>TestDb\<close> (\<^verbatim>\<open>testdb.go\<close>: which
    databases it changes, and the transaction it lends a test).

  \<^bold>\<open>State and effects.\<close>  A function that takes a \<^verbatim>\<open>*sql.Tx\<close> is an \<open>act\<close>: a function from a session to
  an error or a value, and the session after.  Go's \<^verbatim>\<open>if err != nil\<close> is \<open>attempt\<close>.  A handler is a function of
  the request, of what the pool meets (\<open>lending\<close>: the connection, BEGIN, the circumstances of the
  transaction, ROLLBACK) and of the database, and answers a reply and the database after.  The
  circumstances hold, for each statement to come, whether it fails and how, the uuids and the clock
  the server will give, and whether the answer to COMMIT is lost; theorems that say
  \<open>whatever goes wrong\<close> leave them free, and those about exact answers ask that no fault is
  scheduled (\<open>c_faults = []\<close>, \<open>healthy\<close>).  An amount is a 64-bit word where Go has an \<^verbatim>\<open>int64\<close> and an
  integer where it has a \<^verbatim>\<open>big.Int\<close>.

  \<^bold>\<open>What the lemmas show.\<close>  C1 to C4: posting, against the contract, and reading back.  C5 to C8: at most
  once.  C9: opening an account.  C10 to C13: balances, pages, the trial balance.  C14 to C16: every
  reachable database.  C17 to C19: transactions at once, a retry that waits, the one moment a read sees.
  C20: the one way around the balance rule.  C21 to C25: what a post answers, across requests, and that
  nothing is changed in silence.  C26, C27, C30: the fingerprint and the decoder.  C28, C29: pages by their
  links, accounts over HTTP.  C31: servers that start together.  C32, C33, C38: what the command settles on,
  and the zero it does not refuse.  C34 to C36: a full pool, and two answers that are not what they say.  C37:
  what the command leaves of a ledger.  C39: the files a control mutates.  C40: the databases of the
  tests.

  \<^bold>\<open>Bounds and termination.\<close>  Every function of the model is total: loops of the code are recursions on
  lists.  The one recursion on fuel is \<open>walk\<close>, a client following links; C28 shows that one more
  than the number of accounts is enough.

  \<^bold>\<open>What is a parameter.\<close>  The character classes and the order of the database's locale (\<open>ctype\<close>), which no
  schema fixes; and of the standard library the functions whose results the code passes on without
  looking into them (\<open>library\<close>: quoting, the text of a timestamp and of a duration, the media type of a
  header, SHA-256; \<open>process\<close>: the environment, \<^verbatim>\<open>time.ParseDuration\<close>; \<open>surroundings\<close>: what the driver, the network
  and the signals answer; \<open>urls\<close>: \<^verbatim>\<open>net/url\<close>; \<open>machine\<close>: \<^verbatim>\<open>git status\<close>, the file system and the commands of the controls).  What is
  assumed of them is in the theorems: C26 asks that two moments written alike are one moment, and
  concludes a collision of the hash otherwise; C32 and C38 that the duration given is one that parses; C39
  that the commands run change no file it is about.

  \<^bold>\<open>Not modelled.\<close>  In the theories of one transaction the others are met as what its statements are
  answered; \<open>Concurrent\<close> interleaves whole statements, so what Postgres does inside one (its locks, and the
  deadlocks it breaks by refusing a statement) is a wait or a refusal.  A DELETE of a key and an UPDATE of
  the queue of checks are left out of it.  Roles and privileges of the schema, and the statistics and
  index choices of the server.  The json tokenizer: a body arrives as the tree it makes, or as how it
  gave up.  The text of an answer's json, its Content-Length and the log.  The most query parameters the
  standard library will read.  \<^verbatim>\<open>net/http\<close> under the handlers, and the text \<^verbatim>\<open>serve -h\<close> prints.
\<close>

end
